(* ===== verification/Term_Prelude.thy ===== *)
theory Term_Prelude
  imports Main "HOL-Library.Word" "HOL-Library.AList"
begin

text \<open>
  The vocabulary shared by every component of the development: machine integers and byte
  strings, fallible results (\<open>'e + 'a\<close>, \<open>Inl\<close> the error), big-endian integers, the UTF-8
  predicate behind Rust's \<open>String\<close>, the constant-time comparison the sources repeat in
  several files, and hash maps as association lists with distinct keys.

  A Rust \<open>String\<close> is a \<open>Vec<u8>\<close> whose bytes are valid UTF-8; it is modelled by those
  bytes (\<open>bytes\<close> with \<open>utf8_valid\<close>), so that \<open>len\<close>, slicing and comparison are the ones
  of the source.
\<close>

unbundle bit_operations_syntax

type_synonym u8 = "8 word"
type_synonym u16 = "16 word"
type_synonym u32 = "32 word"
type_synonym u64 = "64 word"
type_synonym bytes = "u8 list"
type_synonym stream_id = u32
type_synonym term_size = "u16 \<times> u16"
type_synonym ('k, 'v) hash_map = "('k \<times> 'v) list"

named_theorems result_simps "rewriting of fallible results"
named_theorems be_simps "big-endian integers"
named_theorems hmap_simps "hash maps"

section \<open>Fallible results\<close>

definition bindE :: "'e + 'a \<Rightarrow> ('a \<Rightarrow> 'e + 'b) \<Rightarrow> 'e + 'b" where
  "bindE m f = (case m of Inl e \<Rightarrow> Inl e | Inr x \<Rightarrow> f x)"

lemma bindE_simps [simp, result_simps]:
  "bindE (Inl e) f = Inl e" "bindE (Inr x) f = f x"
  by (simp_all add: bindE_def)

lemma bindE_Inr_iff [result_simps]: "bindE m f = Inr y \<longleftrightarrow> (\<exists>x. m = Inr x \<and> f x = Inr y)"
  by (cases m) simp_all

lemma bindE_Inl_iff [result_simps]:
  "bindE m f = Inl e \<longleftrightarrow> m = Inl e \<or> (\<exists>x. m = Inr x \<and> f x = Inl e)"
  by (cases m) simp_all

lemma bindE_assoc: "bindE (bindE m f) g = bindE m (\<lambda>x. bindE (f x) g)"
  by (cases m) simp_all

lemma bindE_cong [fundef_cong]:
  "m = m' \<Longrightarrow> (\<And>x. m' = Inr x \<Longrightarrow> f x = f' x) \<Longrightarrow> bindE m f = bindE m' f'"
  by (cases m') simp_all

definition map_errE :: "('e \<Rightarrow> 'd) \<Rightarrow> 'e + 'a \<Rightarrow> 'd + 'a" where
  "map_errE g m = (case m of Inl e \<Rightarrow> Inl (g e) | Inr x \<Rightarrow> Inr x)"

lemma map_errE_simps [simp, result_simps]:
  "map_errE g (Inl e) = Inl (g e)" "map_errE g (Inr x) = Inr x"
  by (simp_all add: map_errE_def)

lemma map_errE_Inr_iff [simp]: "map_errE g m = Inr x \<longleftrightarrow> m = Inr x"
  by (cases m) simp_all

definition ok_orE :: "'a option \<Rightarrow> 'e \<Rightarrow> 'e + 'a" where
  "ok_orE m e = (case m of None \<Rightarrow> Inl e | Some x \<Rightarrow> Inr x)"

lemma ok_orE_simps [simp, result_simps]:
  "ok_orE None e = Inl e" "ok_orE (Some x) e = Inr x"
  by (simp_all add: ok_orE_def)

lemma ok_orE_Inr_iff [simp]: "ok_orE m e = Inr x \<longleftrightarrow> m = Some x"
  by (cases m) simp_all

text \<open>\<open>if cond { return Err(e) }\<close>\<close>

definition failE :: "bool \<Rightarrow> 'e \<Rightarrow> 'e + unit" where
  "failE c e = (if c then Inl e else Inr ())"

lemma failE_simps [simp, result_simps]: "failE True e = Inl e" "failE False e = Inr ()"
  by (simp_all add: failE_def)

lemma failE_Inr_iff [simp]: "failE c e = Inr u \<longleftrightarrow> \<not> c"
  by (cases c) simp_all

lemma failE_Inl_iff [simp]: "failE c e = Inl d \<longleftrightarrow> c \<and> d = e"
  by (cases c) auto

lemma if_Inl_Inr_iff [simp, result_simps]:
  "(if c then Inl e else m) = Inr y \<longleftrightarrow> \<not> c \<and> m = Inr y"
  "(if c then m else Inl e) = Inr y \<longleftrightarrow> c \<and> m = Inr y"
  by auto

text \<open>
  Where the source indexes or slices a byte buffer, an out-of-range access panics. A
  computation that may do so returns \<open>'e fail + 'a\<close>: a returned error or a panic.
\<close>

datatype 'e fail = Err 'e | Panic

section \<open>Lists\<close>

lemma drop_append_length [simp]: "drop (length xs) (xs @ ys) = ys"
  by simp

lemma list_split_at: "n \<le> length xs \<Longrightarrow> \<exists>ys zs. xs = ys @ zs \<and> length ys = n"
  by (rule exI [of _ "take n xs"], rule exI [of _ "drop n xs"]) simp

lemma length_eq_SucE: "length xs = Suc n \<Longrightarrow> (\<And>y ys. xs = y # ys \<Longrightarrow> length ys = n \<Longrightarrow> P) \<Longrightarrow> P"
  by (cases xs) auto

lemma length_4_conv: "length xs = 4 \<longleftrightarrow> (\<exists>a b c d. xs = [a, b, c, d])"
  by (auto simp: numeral_eq_Suc length_Suc_conv)

section \<open>Big-endian integers\<close>

text \<open>
  \<open>to_be_bytes\<close> and \<open>from_be_bytes\<close> of the Rust integers, through the value as a natural
  number; the width is the number of bytes.
\<close>

fun be_of_nat :: "nat \<Rightarrow> nat \<Rightarrow> bytes" where
  "be_of_nat 0 v = []"
| "be_of_nat (Suc n) v = be_of_nat n (v div 256) @ [word_of_nat v]"

definition nat_of_be :: "bytes \<Rightarrow> nat" where
  "nat_of_be bs = foldl (\<lambda>acc b. acc * 256 + unat b) 0 bs"

definition be16 :: "u16 \<Rightarrow> bytes" where "be16 w = be_of_nat 2 (unat w)"
definition be32 :: "u32 \<Rightarrow> bytes" where "be32 w = be_of_nat 4 (unat w)"
definition be64 :: "u64 \<Rightarrow> bytes" where "be64 w = be_of_nat 8 (unat w)"
definition from_be16 :: "bytes \<Rightarrow> u16" where "from_be16 bs = word_of_nat (nat_of_be bs)"
definition from_be32 :: "bytes \<Rightarrow> u32" where "from_be32 bs = word_of_nat (nat_of_be bs)"
definition from_be64 :: "bytes \<Rightarrow> u64" where "from_be64 bs = word_of_nat (nat_of_be bs)"

lemma length_be_of_nat [simp, be_simps]: "length (be_of_nat n v) = n"
  by (induction n v rule: be_of_nat.induct) simp_all

lemma length_be [simp, be_simps]:
  "length (be16 a) = 2" "length (be32 b) = 4" "length (be64 c) = 8"
  by (simp_all add: be16_def be32_def be64_def)

lemma nat_of_be_Nil [simp]: "nat_of_be [] = 0"
  by (simp add: nat_of_be_def)

lemma nat_of_be_snoc [simp]: "nat_of_be (bs @ [b]) = nat_of_be bs * 256 + unat b"
  by (simp add: nat_of_be_def)

lemma unat_u8_of_nat: "unat (word_of_nat v :: u8) = v mod 256"
  by (simp add: unat_of_nat)

lemma nat_of_be_of_nat: "nat_of_be (be_of_nat n v) = v mod 256 ^ n"
proof (induction n arbitrary: v)
  case (Suc n)
  have "nat_of_be (be_of_nat (Suc n) v) = (v div 256) mod 256 ^ n * 256 + v mod 256"
    by (simp add: Suc.IH unat_u8_of_nat)
  also have "\<dots> = v mod 256 ^ Suc n"
    using mod_mult2_eq [of v 256 "256 ^ n"] by simp
  finally show ?case .
qed simp

lemma nat_of_be_less: "nat_of_be bs < 256 ^ length bs"
proof (induction bs rule: rev_induct)
  case (snoc b bs)
  have "unat b < 256" using unsigned_less [of b] by simp
  with snoc show ?case by simp
qed simp

lemma be_of_nat_nat_of_be: "length bs = n \<Longrightarrow> be_of_nat n (nat_of_be bs) = bs"
proof (induction bs arbitrary: n rule: rev_induct)
  case (snoc b bs)
  then obtain m where m: "n = Suc m" "length bs = m" by auto
  have "unat b < 256" using unsigned_less [of b] by simp
  then have "(nat_of_be bs * 256 + unat b) div 256 = nat_of_be bs" by simp
  moreover have "word_of_nat (nat_of_be bs * 256 + unat b) = b"
  proof -
    have "(256 :: u8) = 0" by simp
    then have "word_of_nat (nat_of_be bs * 256 + unat b) = (word_of_nat (unat b) :: u8)"
      by (simp only: of_nat_add of_nat_mult of_nat_numeral mult_zero_right add_0)
    then show ?thesis by simp
  qed
  ultimately show ?case
    using snoc.IH [of m] m by simp
qed simp

lemma unat_less_be:
  "unat (a :: u16) < 256 ^ 2" "unat (b :: u32) < 256 ^ 4" "unat (c :: u64) < 256 ^ 8"
  using unsigned_less [of a] unsigned_less [of b] unsigned_less [of c] by simp_all

lemma from_be_be [simp, be_simps]:
  "from_be16 (be16 a) = a" "from_be32 (be32 b) = b" "from_be64 (be64 c) = c"
  using unat_less_be(1) [of a] unat_less_be(2) [of b] unat_less_be(3) [of c]
  by (simp_all add: from_be16_def be16_def from_be32_def be32_def from_be64_def be64_def
      nat_of_be_of_nat)

lemma be_from_be [simp, be_simps]:
  "length a = 2 \<Longrightarrow> be16 (from_be16 a) = a"
  "length b = 4 \<Longrightarrow> be32 (from_be32 b) = b"
  "length c = 8 \<Longrightarrow> be64 (from_be64 c) = c"
  using nat_of_be_less [of a] nat_of_be_less [of b] nat_of_be_less [of c]
  by (auto simp: from_be16_def be16_def from_be32_def be32_def from_be64_def be64_def
      be_of_nat_nat_of_be unat_of_nat)

section \<open>Byte literals\<close>

definition bstr :: "string \<Rightarrow> bytes" where
  "bstr s = map of_char s"

definition is_ascii_alphanumeric :: "u8 \<Rightarrow> bool" where
  "is_ascii_alphanumeric b \<longleftrightarrow>
     (0x30 \<le> b \<and> b \<le> 0x39) \<or> (0x41 \<le> b \<and> b \<le> 0x5A) \<or> (0x61 \<le> b \<and> b \<le> 0x7A)"

lemma is_ascii_alphanumeric_ascii: "is_ascii_alphanumeric b \<Longrightarrow> b < 0x80"
  by (auto simp: is_ascii_alphanumeric_def intro: le_less_trans)

text \<open>Decimal formatting of an unsigned integer (\<open>{}\<close> of a \<open>format!\<close>).\<close>

fun dec_of_nat :: "nat \<Rightarrow> bytes" where
  "dec_of_nat n = (if n < 10 then [word_of_nat (48 + n)] else dec_of_nat (n div 10) @ [word_of_nat (48 + n mod 10)])"

declare dec_of_nat.simps [simp del]

section \<open>Splitting and paths\<close>

text \<open>\<open>slice::split\<close> on a byte, and \<open>Path::file_name\<close> on Unix: the last component, where repeated
  separators and \<open>.\<close> components do not count and \<open>..\<close> is not a file name.\<close>

fun split_on :: "u8 \<Rightarrow> bytes \<Rightarrow> bytes list" where
  "split_on c [] = [[]]"
| "split_on c (b # bs) =
     (if b = c then [] # split_on c bs
      else (case split_on c bs of [] \<Rightarrow> [[b]] | w # ws \<Rightarrow> (b # w) # ws))"

lemma split_on_nonempty [simp]: "split_on c bs \<noteq> []"
  by (induction bs) (auto split: list.splits)

lemma split_on_no_sep: "w \<in> set (split_on c bs) \<Longrightarrow> c \<notin> set w"
proof (induction bs arbitrary: w)
  case (Cons b bs)
  then show ?case by (cases "split_on c bs") (auto split: if_splits)
qed simp

lemma split_on_subset: "w \<in> set (split_on c bs) \<Longrightarrow> set w \<subseteq> set bs"
proof (induction bs arbitrary: w)
  case (Cons b bs)
  then show ?case by (cases "split_on c bs") (fastforce split: if_splits)+
qed simp

definition path_file_name :: "bytes \<Rightarrow> bytes option" where
  "path_file_name p =
     (let comps = filter (\<lambda>c. c \<noteq> [] \<and> c \<noteq> [0x2E]) (split_on 0x2F p) in
      if comps = [] then None
      else if last comps = [0x2E, 0x2E] then None
      else Some (last comps))"

lemma path_file_name_Some:
  assumes "path_file_name p = Some w"
  shows "w \<noteq> []" "0x2F \<notin> set w" "w \<noteq> [0x2E]" "w \<noteq> [0x2E, 0x2E]"
proof -
  let ?cs = "filter (\<lambda>c. c \<noteq> [] \<and> c \<noteq> [0x2E]) (split_on 0x2F p)"
  have w: "?cs \<noteq> []" "w = last ?cs" "w \<noteq> [0x2E, 0x2E]"
    using assms by (auto simp: path_file_name_def Let_def split: if_splits)
  have "w \<in> set ?cs" using last_in_set [OF w(1)] w(2) by (simp only:)
  then show "w \<noteq> []" "0x2F \<notin> set w" "w \<noteq> [0x2E]" "w \<noteq> [0x2E, 0x2E]"
    using split_on_no_sep [of w "0x2F" p] w(3) by auto
qed

section \<open>UTF-8\<close>

text \<open>
  \<open>String::from_utf8\<close> accepts exactly the well-formed byte sequences of the Unicode
  standard (no overlong forms, no surrogates, nothing above U+10FFFF).
\<close>

definition is_cont :: "u8 \<Rightarrow> bool" where
  "is_cont b \<longleftrightarrow> 0x80 \<le> b \<and> b \<le> 0xBF"

definition utf8_width :: "u8 \<Rightarrow> nat" where
  "utf8_width b =
     (if b < 0x80 then 1 else if 0xC2 \<le> b \<and> b \<le> 0xDF then 2
      else if 0xE0 \<le> b \<and> b \<le> 0xEF then 3 else if 0xF0 \<le> b \<and> b \<le> 0xF4 then 4 else 0)"

definition utf8_seq :: "bytes \<Rightarrow> bool" where
  "utf8_seq cs =
     (case cs of [] \<Rightarrow> False
      | b # ts \<Rightarrow>
          length cs = utf8_width b \<and> list_all is_cont ts \<and>
          (b = 0xE0 \<longrightarrow> 0xA0 \<le> hd ts) \<and> (b = 0xED \<longrightarrow> hd ts \<le> 0x9F) \<and>
          (b = 0xF0 \<longrightarrow> 0x90 \<le> hd ts) \<and> (b = 0xF4 \<longrightarrow> hd ts \<le> 0x8F))"

function utf8_valid :: "bytes \<Rightarrow> bool" where
  "utf8_valid [] = True"
| "utf8_valid (b # bs) =
     (if utf8_width b = 0 \<or> length (b # bs) < utf8_width b then False
      else if utf8_seq (take (utf8_width b) (b # bs)) then utf8_valid (drop (utf8_width b) (b # bs))
      else False)"
  by pat_completeness auto
termination
  by (relation "measure length") auto

definition from_utf8 :: "bytes \<Rightarrow> bytes option" where
  "from_utf8 bs = (if utf8_valid bs then Some bs else None)"

definition is_char_boundary :: "bytes \<Rightarrow> nat \<Rightarrow> bool" where
  "is_char_boundary s k \<longleftrightarrow> k = 0 \<or> k = length s \<or> (k < length s \<and> \<not> is_cont (s ! k))"

lemma from_utf8_Some_iff [simp]: "from_utf8 bs = Some s \<longleftrightarrow> utf8_valid bs \<and> s = bs"
  by (auto simp: from_utf8_def)

lemma from_utf8_None_iff [simp]: "from_utf8 bs = None \<longleftrightarrow> \<not> utf8_valid bs"
  by (auto simp: from_utf8_def)

lemma utf8_seqE:
  assumes "utf8_seq c"
  obtains b ts where "c = b # ts" "length c = utf8_width b" "list_all is_cont ts"
    "\<not> is_cont b" "length c \<le> 4"
proof -
  obtain b ts where c: "c = b # ts" "length c = utf8_width b" "list_all is_cont ts"
    using assms by (auto simp: utf8_seq_def split: list.splits)
  moreover have "\<not> is_cont b" "length c \<le> 4"
    using c(1,2) by (auto simp: utf8_width_def is_cont_def word_le_nat_alt word_less_nat_alt
        split: if_splits)
  ultimately show ?thesis using that by blast
qed

lemma utf8_valid_seq_append:
  assumes "utf8_seq c"
  shows "utf8_valid (c @ s) = utf8_valid s"
proof -
  obtain b ts where c: "c = b # ts" "utf8_width b = Suc (length ts)"
    using assms by (auto elim: utf8_seqE)
  with assms show ?thesis by simp
qed

text \<open>The valid strings are the concatenations of encoded characters.\<close>

lemma utf8_valid_iff: "utf8_valid s \<longleftrightarrow> (\<exists>cs. s = concat cs \<and> list_all utf8_seq cs)"
proof
  show "utf8_valid s \<Longrightarrow> \<exists>cs. s = concat cs \<and> list_all utf8_seq cs"
  proof (induction s rule: utf8_valid.induct)
    case 1
    show ?case by (rule exI [of _ "[]"]) simp
  next
    case (2 b bs)
    let ?n = "utf8_width b"
    have n: "\<not> (?n = 0 \<or> length (b # bs) < ?n)" "utf8_seq (take ?n (b # bs))"
      "utf8_valid (drop ?n (b # bs))"
      using "2.prems" by (auto split: if_splits)
    then obtain cs where "drop ?n (b # bs) = concat cs" "list_all utf8_seq cs"
      using "2.IH" by blast
    then have "b # bs = concat (take ?n (b # bs) # cs)"
      by (metis append_take_drop_id concat.simps(2))
    moreover have "list_all utf8_seq (take ?n (b # bs) # cs)"
      using n(2) \<open>list_all utf8_seq cs\<close> by simp
    ultimately show ?case by blast
  qed
next
  assume "\<exists>cs. s = concat cs \<and> list_all utf8_seq cs"
  then obtain cs where "s = concat cs" "list_all utf8_seq cs" by blast
  then show "utf8_valid s"
    by (induction cs arbitrary: s) (simp_all add: utf8_valid_seq_append)
qed

lemma utf8_valid_append: "utf8_valid xs \<Longrightarrow> utf8_valid ys \<Longrightarrow> utf8_valid (xs @ ys)"
  by (metis utf8_valid_iff concat_append list_all_append)

lemma utf8_valid_ascii:
  assumes "\<And>b. b \<in> set bs \<Longrightarrow> b < 0x80"
  shows "utf8_valid bs"
  using assms
proof (induction bs)
  case (Cons b bs)
  then have "b < 0x80" by simp
  then have "utf8_seq [b]"
    by (auto simp: utf8_seq_def utf8_width_def)
  from utf8_valid_seq_append [OF this, of bs] Cons show ?case by simp
qed simp

text \<open>
  Cutting a valid string at a character boundary leaves a valid string, and rounding an
  index down to a boundary moves it by at most three bytes.
\<close>

lemma utf8_seq_boundary:
  assumes "utf8_seq c" and "is_char_boundary (c @ s) k"
  shows "k = 0 \<or> (length c \<le> k \<and> is_char_boundary s (k - length c))"
proof -
  have "is_cont ((c @ s) ! k)" if "0 < k" "k < length c"
    using assms(1) that
    by (elim utf8_seqE) (auto simp: nth_append nth_Cons' list_all_length)
  then show ?thesis
    using assms(2) by (cases "k < length c") (auto simp: is_char_boundary_def nth_append)
qed

lemma utf8_valid_take:
  assumes "utf8_valid s" and "is_char_boundary s k"
  shows "utf8_valid (take k s)"
proof -
  obtain cs where "s = concat cs" "list_all utf8_seq cs"
    using assms(1) utf8_valid_iff by blast
  then show ?thesis
    using assms(2)
  proof (induction cs arbitrary: s k)
    case (Cons c cs)
    then have "k = 0 \<or> (length c \<le> k \<and> is_char_boundary (concat cs) (k - length c))"
      using utf8_seq_boundary by simp
    then show ?case
      using Cons utf8_valid_seq_append by auto
  qed simp
qed

fun round_down_boundary :: "bytes \<Rightarrow> nat \<Rightarrow> nat" where
  "round_down_boundary s k =
     (if 0 < k \<and> \<not> is_char_boundary s k then round_down_boundary s (k - 1) else k)"

declare round_down_boundary.simps [simp del]

lemma round_down_boundary_le: "round_down_boundary s k \<le> k"
proof (induction s k rule: round_down_boundary.induct)
  case (1 s k)
  then show ?case
    by (subst round_down_boundary.simps) (auto intro: le_trans)
qed

lemma round_down_boundary_boundary: "is_char_boundary s (round_down_boundary s k)"
  by (induction s k rule: round_down_boundary.induct)
    (subst round_down_boundary.simps, auto simp: is_char_boundary_def)

lemma round_down_boundary_greatest:
  "is_char_boundary s j \<Longrightarrow> j \<le> k \<Longrightarrow> j \<le> round_down_boundary s k"
proof (induction s k rule: round_down_boundary.induct)
  case (1 s k)
  show ?case
  proof (cases "j = k")
    case True
    with 1 show ?thesis by (subst round_down_boundary.simps) simp
  next
    case False
    with 1 show ?thesis by (subst round_down_boundary.simps) auto
  qed
qed

lemma utf8_boundary_near:
  assumes "utf8_valid s" and "k \<le> length s"
  shows "\<exists>j. is_char_boundary s j \<and> j \<le> k \<and> k \<le> j + 3"
proof -
  obtain cs where "s = concat cs" "list_all utf8_seq cs"
    using assms(1) utf8_valid_iff by blast
  then show ?thesis
    using assms(2)
  proof (induction cs arbitrary: s k)
    case Nil
    then show ?case by (auto simp: is_char_boundary_def)
  next
    case (Cons c cs)
    then have c: "length c \<le> 4" by (auto elim: utf8_seqE)
    show ?case
    proof (cases "k < length c")
      case True
      with c show ?thesis by (intro exI [of _ 0]) (auto simp: is_char_boundary_def)
    next
      case False
      then obtain j where j: "is_char_boundary (concat cs) j" "j \<le> k - length c"
        "k - length c \<le> j + 3"
        using Cons.IH [of "concat cs" "k - length c"] Cons.prems
        by (simp add: le_diff_conv add.commute) blast
      have "\<not> is_cont (hd (concat cs))" if "concat cs \<noteq> []"
        using that Cons.prems(2) by (cases cs) (auto elim: utf8_seqE)
      then have "is_char_boundary s (length c + j)"
        using j(1) Cons.prems(1)
        by (cases "j = 0") (auto simp: is_char_boundary_def nth_append hd_conv_nth)
      with j False show ?thesis by (intro exI [of _ "length c + j"]) auto
    qed
  qed
qed

lemma round_down_boundary_ge:
  assumes "utf8_valid s" and "k \<le> length s"
  shows "k - 3 \<le> round_down_boundary s k"
  using utf8_boundary_near [OF assms] round_down_boundary_greatest [of s _ k]
  by (meson le_diff_conv le_trans)

section \<open>Strings\<close>

text \<open>
  A \<open>str\<close> is its UTF-8 bytes. \<open>utf8_chars\<close> cuts it into characters; \<open>char_whitespace\<close> is
  \<open>char::is_whitespace\<close>, the White\_Space property of Unicode, on the encoding of a character.
\<close>

definition starts_with :: "bytes \<Rightarrow> bytes \<Rightarrow> bool" where
  "starts_with pre s \<longleftrightarrow> take (length pre) s = pre"

definition strip_prefix :: "bytes \<Rightarrow> bytes \<Rightarrow> bytes option" where
  "strip_prefix pre s = (if starts_with pre s then Some (drop (length pre) s) else None)"

lemma starts_with_append [simp]: "starts_with pre (pre @ s)"
  by (simp add: starts_with_def)

lemma starts_with_iff: "starts_with pre s \<longleftrightarrow> (\<exists>t. s = pre @ t)"
  by (metis append_take_drop_id starts_with_append starts_with_def)

lemma strip_prefix_iff [simp]: "strip_prefix pre s = Some t \<longleftrightarrow> s = pre @ t"
  by (auto simp: strip_prefix_def starts_with_iff)

function utf8_chars :: "bytes \<Rightarrow> bytes list" where
  "utf8_chars [] = []"
| "utf8_chars (b # bs) =
     take (max 1 (utf8_width b)) (b # bs) # utf8_chars (drop (max 1 (utf8_width b)) (b # bs))"
  by pat_completeness auto
termination
  by (relation "measure length") auto

definition char_whitespace :: "bytes \<Rightarrow> bool" where
  "char_whitespace c \<longleftrightarrow>
     c \<in> {[0x09], [0x0A], [0x0B], [0x0C], [0x0D], [0x20], [0xC2, 0x85], [0xC2, 0xA0], [0xE1, 0x9A, 0x80],
          [0xE2, 0x80, 0xA8], [0xE2, 0x80, 0xA9], [0xE2, 0x80, 0xAF], [0xE2, 0x81, 0x9F], [0xE3, 0x80, 0x80]} \<or>
     (take 2 c = [0xE2, 0x80] \<and> length c = 3 \<and> 0x80 \<le> c ! 2 \<and> c ! 2 \<le> 0x8A)"

definition str_trim :: "bytes \<Rightarrow> bytes" where
  "str_trim s = concat (rev (dropWhile char_whitespace (rev (dropWhile char_whitespace (utf8_chars s)))))"

definition strip_whitespace :: "bytes \<Rightarrow> bytes" where
  "strip_whitespace s = concat (filter (\<lambda>c. \<not> char_whitespace c) (utf8_chars s))"

lemma utf8_chars_concat: "concat (utf8_chars s) = s"
  by (induction s rule: utf8_chars.induct) simp_all

lemma utf8_chars_ascii: "list_all (\<lambda>b. b < 0x80) s \<Longrightarrow> utf8_chars s = map (\<lambda>b. [b]) s"
  by (induction s rule: utf8_chars.induct) (simp_all add: utf8_width_def)

text \<open>Text without blanks, as base64 is, is not changed by trimming or stripping.\<close>

definition graphic :: "bytes \<Rightarrow> bool" where
  "graphic s \<longleftrightarrow> list_all (\<lambda>b. 0x21 \<le> b \<and> b < 0x7F) s"

lemma graphic_chars:
  assumes "graphic s"
  shows "utf8_chars s = map (\<lambda>b. [b]) s" "c \<in> set (utf8_chars s) \<Longrightarrow> \<not> char_whitespace c"
proof -
  have "list_all (\<lambda>b. b < 0x80) s"
    using assms unfolding graphic_def list_all_iff by (fastforce simp: word_less_nat_alt)
  then show *: "utf8_chars s = map (\<lambda>b. [b]) s" by (rule utf8_chars_ascii)
  show "\<not> char_whitespace c" if "c \<in> set (utf8_chars s)"
    using that assms unfolding * graphic_def list_all_iff
    by (force simp: char_whitespace_def word_le_nat_alt)
qed

lemma strip_whitespace_graphic: "graphic s \<Longrightarrow> strip_whitespace s = s"
proof -
  assume g: "graphic s"
  have "filter (\<lambda>c. \<not> char_whitespace c) (utf8_chars s) = utf8_chars s"
    using graphic_chars(2) [OF g] by (simp add: filter_id_conv)
  then show ?thesis by (simp add: strip_whitespace_def utf8_chars_concat)
qed

lemma str_trim_graphic: "graphic s \<Longrightarrow> str_trim s = s"
proof -
  assume g: "graphic s"
  have dw: "(\<And>c. c \<in> set cs \<Longrightarrow> \<not> char_whitespace c) \<Longrightarrow> dropWhile char_whitespace cs = cs" for cs
    by (cases cs) auto
  have "dropWhile char_whitespace (utf8_chars s) = utf8_chars s"
    "dropWhile char_whitespace (rev (utf8_chars s)) = rev (utf8_chars s)"
    using graphic_chars(2) [OF g] by (auto intro!: dw)
  then show ?thesis by (simp add: str_trim_def utf8_chars_concat)
qed

text \<open>\<open>u64::saturating_sub\<close>\<close>

definition saturating_sub64 :: "u64 \<Rightarrow> u64 \<Rightarrow> u64" where
  "saturating_sub64 a b = (if b \<le> a then a - b else 0)"

section \<open>Constant-time comparison\<close>

text \<open>The accumulator loop \<open>diff |= x ^ y\<close> over a zip, used for tokens, hashes and tags.\<close>

definition ct_diff :: "bytes \<Rightarrow> bytes \<Rightarrow> u8" where
  "ct_diff a b = foldl (\<lambda>d (x, y). d OR (x XOR y)) 0 (zip a b)"

lemma foldl_ct_0_iff:
  "foldl (\<lambda>d (x, y). d OR (x XOR y)) (d :: u8) ps = 0 \<longleftrightarrow> d = 0 \<and> (\<forall>(x, y) \<in> set ps. x = y)"
proof (induction ps arbitrary: d)
  case (Cons p ps)
  obtain x y where p: "p = (x, y)" by (cases p)
  have "d OR (x XOR y) = 0 \<longleftrightarrow> d = 0 \<and> x = y"
    by (auto simp: bit_eq_iff bit_simps)
  then show ?case using Cons p by auto
qed simp

lemma ct_diff_0_iff: "length a = length b \<Longrightarrow> ct_diff a b = 0 \<longleftrightarrow> a = b"
  unfolding ct_diff_def foldl_ct_0_iff
  by (induction a b rule: list_induct2) auto

section \<open>Hash maps\<close>

text \<open>
  A \<open>HashMap\<close> is an association list with distinct keys: \<open>map_of m k\<close> is \<open>get\<close>,
  \<open>AList.update\<close> is \<open>insert\<close>, \<open>AList.delete\<close> is \<open>remove\<close>, \<open>length m\<close> is \<open>len\<close>. The order of
  the list stands for the map's unspecified iteration order.
\<close>

definition hm_ok :: "('k, 'v) hash_map \<Rightarrow> bool" where
  "hm_ok m \<longleftrightarrow> distinct (map fst m)"

abbreviation hm_get :: "('k, 'v) hash_map \<Rightarrow> 'k \<Rightarrow> 'v option" where
  "hm_get m k \<equiv> map_of m k"

abbreviation hm_insert :: "'k \<Rightarrow> 'v \<Rightarrow> ('k, 'v) hash_map \<Rightarrow> ('k, 'v) hash_map" where
  "hm_insert k v m \<equiv> AList.update k v m"

abbreviation hm_remove :: "'k \<Rightarrow> ('k, 'v) hash_map \<Rightarrow> ('k, 'v) hash_map" where
  "hm_remove k m \<equiv> AList.delete k m"

lemma hm_ok_Nil [simp, hmap_simps]: "hm_ok []"
  by (simp add: hm_ok_def)

lemma hm_ok_insert [simp, hmap_simps]: "hm_ok m \<Longrightarrow> hm_ok (hm_insert k v m)"
  by (simp add: hm_ok_def distinct_update)

lemma hm_ok_remove [simp, hmap_simps]: "hm_ok m \<Longrightarrow> hm_ok (hm_remove k m)"
  by (simp add: hm_ok_def distinct_delete)

lemma hm_get_insert [simp, hmap_simps]:
  "hm_get (hm_insert k v m) k' = (if k' = k then Some v else hm_get m k')"
  by (simp add: update_conv')

lemma hm_get_remove [simp, hmap_simps]:
  "hm_get (hm_remove k m) k' = (if k' = k then None else hm_get m k')"
  by (simp add: delete_conv')

lemma hm_length_insert:
  "length (hm_insert k v m) = (if hm_get m k = None then Suc (length m) else length m)"
  by (induction m) auto

lemma hm_length_insert_le: "length (hm_insert k v m) \<le> Suc (length m)"
  by (simp add: hm_length_insert)

lemma hm_length_remove_le: "length (hm_remove k m) \<le> length m"
  by (rule length_delete_le)

lemma hm_get_SomeD: "hm_get m k = Some v \<Longrightarrow> (k, v) \<in> set m"
  by (rule map_of_SomeD)

lemma hm_get_iff_mem: "hm_ok m \<Longrightarrow> hm_get m k = Some v \<longleftrightarrow> (k, v) \<in> set m"
  by (simp add: hm_ok_def)

lemma hm_mem_insert: "hm_ok m \<Longrightarrow> (k', v') \<in> set (hm_insert k v m) \<longleftrightarrow>
    (if k' = k then v' = v else (k', v') \<in> set m)"
  by (subst hm_get_iff_mem [symmetric]) (auto simp: hm_get_iff_mem)

lemma hm_mem_remove: "(k', v') \<in> set (hm_remove k m) \<longleftrightarrow> k' \<noteq> k \<and> (k', v') \<in> set m"
  by (auto simp: AList.delete_eq)

section \<open>Indexing and slicing\<close>

definition idx :: "bytes \<Rightarrow> nat \<Rightarrow> 'e fail + u8" where
  "idx p i = (if i < length p then Inr (p ! i) else Inl Panic)"

definition slice :: "bytes \<Rightarrow> nat \<Rightarrow> nat \<Rightarrow> 'e fail + bytes" where
  "slice p a b = (if a \<le> b \<and> b \<le> length p then Inr (take (b - a) (drop a p)) else Inl Panic)"

definition be16_at :: "bytes \<Rightarrow> nat \<Rightarrow> 'e fail + u16" where
  "be16_at p i = bindE (slice p i (i + 2)) (\<lambda>b. Inr (from_be16 b))"

definition be32_at :: "bytes \<Rightarrow> nat \<Rightarrow> 'e fail + u32" where
  "be32_at p i = bindE (slice p i (i + 4)) (\<lambda>b. Inr (from_be32 b))"

definition be64_at :: "bytes \<Rightarrow> nat \<Rightarrow> 'e fail + u64" where
  "be64_at p i = bindE (slice p i (i + 8)) (\<lambda>b. Inr (from_be64 b))"

named_theorems at_simps "reads at an offset of an appended buffer"

lemma idx_ok: "i < length p \<Longrightarrow> idx p i = Inr (p ! i)"
  by (simp add: idx_def)

lemma slice_ok: "a \<le> b \<Longrightarrow> b \<le> length p \<Longrightarrow> slice p a b = Inr (take (b - a) (drop a p))"
  by (simp add: slice_def)

lemma be_at_ok:
  "i + 2 \<le> length p \<Longrightarrow> be16_at p i = Inr (from_be16 (take 2 (drop i p)))"
  "i + 4 \<le> length p \<Longrightarrow> be32_at p i = Inr (from_be32 (take 4 (drop i p)))"
  "i + 8 \<le> length p \<Longrightarrow> be64_at p i = Inr (from_be64 (take 8 (drop i p)))"
  by (simp_all add: be16_at_def be32_at_def be64_at_def slice_def)

lemmas in_range = idx_ok slice_ok be_at_ok

lemma idx_append [at_simps]:
  "length xs \<le> i \<Longrightarrow> idx (xs @ q) i = idx q (i - length xs)"
  by (auto simp: idx_def nth_append)

lemma slice_append [at_simps]:
  "length xs \<le> a \<Longrightarrow> a \<le> b \<Longrightarrow> slice (xs @ q) a b = slice q (a - length xs) (b - length xs)"
  by (auto simp: slice_def)

lemma be_at_append [at_simps]:
  "length xs \<le> i \<Longrightarrow> be16_at (xs @ q) i = be16_at q (i - length xs)"
  "length xs \<le> i \<Longrightarrow> be32_at (xs @ q) i = be32_at q (i - length xs)"
  "length xs \<le> i \<Longrightarrow> be64_at (xs @ q) i = be64_at q (i - length xs)"
  by (simp_all add: be16_at_def be32_at_def be64_at_def slice_append Suc_diff_le)

lemma be_at_be [at_simps]:
  "be16_at (be16 w16 @ q) 0 = Inr w16" "be16_at (be16 w16) 0 = Inr w16"
  "be32_at (be32 w32 @ q) 0 = Inr w32" "be32_at (be32 w32) 0 = Inr w32"
  "be64_at (be64 w64 @ q) 0 = Inr w64"
  by (simp_all add: be16_at_def be32_at_def be64_at_def slice_def)

lemma idx_Cons_0 [at_simps]: "idx (x # xs) 0 = Inr x"
  by (simp add: idx_def)

lemma idx_Cons_pos [at_simps]: "0 < i \<Longrightarrow> idx (x # xs) i = idx xs (i - 1)"
  by (cases i) (simp_all add: idx_def)

lemma slice_Cons_pos [at_simps]: "0 < a \<Longrightarrow> a \<le> b \<Longrightarrow> slice (x # xs) a b = slice xs (a - 1) (b - 1)"
  by (cases a; cases b) (simp_all add: slice_def)

lemma be_at_Cons [at_simps]:
  "0 < i \<Longrightarrow> be16_at (x # q) i = be16_at q (i - 1)"
  "0 < i \<Longrightarrow> be32_at (x # q) i = be32_at q (i - 1)"
  "0 < i \<Longrightarrow> be64_at (x # q) i = be64_at q (i - 1)"
  using be_at_append [of "[x]" i q] by simp_all

lemma slice_0_all [at_simps]: "n = length q \<Longrightarrow> slice q 0 n = Inr q"
  by (simp add: slice_def)

text \<open>A buffer that is long enough starts with an encoded integer.\<close>

lemma be16_prefix: "2 \<le> length p \<Longrightarrow> \<exists>w q. p = be16 w @ q"
  by (rule exI [of _ "from_be16 (take 2 p)"], rule exI [of _ "drop 2 p"]) simp

lemma be32_prefix: "4 \<le> length p \<Longrightarrow> \<exists>w q. p = be32 w @ q"
  by (rule exI [of _ "from_be32 (take 4 p)"], rule exI [of _ "drop 4 p"]) simp

lemma be64_prefix: "8 \<le> length p \<Longrightarrow> \<exists>w q. p = be64 w @ q"
  by (rule exI [of _ "from_be64 (take 8 p)"], rule exI [of _ "drop 8 p"]) simp

lemma be_inject [simp, be_simps]:
  "be16 a = be16 a' \<longleftrightarrow> a = a'" "be32 b = be32 b' \<longleftrightarrow> b = b'" "be64 c = be64 c' \<longleftrightarrow> c = c'"
  by (metis from_be_be(1), metis from_be_be(2), metis from_be_be(3))

lemma be_append_inject [simp, be_simps]:
  "be16 a @ q = be16 a' @ q' \<longleftrightarrow> a = a' \<and> q = q'"
  "be32 b @ q = be32 b' @ q' \<longleftrightarrow> b = b' \<and> q = q'"
  "be64 c @ q = be64 c' @ q' \<longleftrightarrow> c = c' \<and> q = q'"
  by simp_all

lemma u8_of_nat_eq_iff: "n \<le> 255 \<Longrightarrow> word_of_nat n = (w :: u8) \<longleftrightarrow> unat w = n"
  by (auto simp: unat_of_nat)

lemma unat_u8_le: "unat (w :: u8) \<le> 255"
proof -
  have "unat w < 256" using unsigned_less [of w] by simp
  then show ?thesis by simp
qed

lemma u8_length_iff: "length xs = unat (n :: u8) \<longleftrightarrow> n = word_of_nat (length xs) \<and> length xs \<le> 255"
  using unat_u8_le [of n] by (auto simp: unat_of_nat)

end
