(* ===== verification/Wire_Frame.thy ===== *)
theory Wire_Frame
  imports Term_Prelude
begin

text \<open>
  The wire protocol of \<open>common/src/frame.rs\<close>: the payload caps, \<open>FrameType\<close>, \<open>FrameError\<close>,
  \<open>Body\<close> and \<open>Frame\<close> with their constructors, \<open>Frame::encode\<close>, \<open>Frame::validate_header\<close>,
  \<open>Frame::from_payload\<close>, \<open>encode_download_chunk\<close> and \<open>is_valid_session_id\<close>.

  \<open>wf_frame\<close> describes the frames the protocol can carry. The lemmas show that the payload
  codec is a bijection between well-formed bodies and accepted payloads, that the decoder
  never indexes out of range, and that the header check bounds the buffer a reader allocates.
\<close>

section \<open>Caps and codes\<close>

definition HEADER_LEN :: nat where [simp]: "HEADER_LEN = 9"
definition MAX_DATA_LEN :: u32 where [simp]: "MAX_DATA_LEN = 64 * 1024"
definition MAX_SESSION_ID_LEN :: u32 where [simp]: "MAX_SESSION_ID_LEN = 64"
definition MAX_HELLO_LEN :: u32 where [simp]: "MAX_HELLO_LEN = 1024"
definition MAX_PING_LEN :: u32 where [simp]: "MAX_PING_LEN = 64"
definition MAX_PASTE_TOTAL_BYTES :: u64 where
  [simp]: "MAX_PASTE_TOTAL_BYTES = 4 * 1024 * 1024 * 1024 - 1"
definition MAX_PASTE_CHUNK_BYTES :: u32 where [simp]: "MAX_PASTE_CHUNK_BYTES = 1024 * 1024"
definition MAX_PASTE_NAME_LEN :: u32 where [simp]: "MAX_PASTE_NAME_LEN = 255"
definition MAX_PASTE_BEGIN_LEN :: u32 where
  [simp]: "MAX_PASTE_BEGIN_LEN = 4 + 8 + 4 + 4 + 1 + MAX_PASTE_NAME_LEN"
definition MAX_PASTE_CHUNK_LEN :: u32 where
  [simp]: "MAX_PASTE_CHUNK_LEN = 4 + MAX_PASTE_CHUNK_BYTES"
definition PASTE_END_LEN :: u32 where [simp]: "PASTE_END_LEN = 4 + 1"
definition PASTE_REJECT_LEN :: u32 where [simp]: "PASTE_REJECT_LEN = 4 + 1"
definition PASTE_STATUS_OK :: u8 where [simp]: "PASTE_STATUS_OK = 0"
definition PASTE_STATUS_CANCEL :: u8 where [simp]: "PASTE_STATUS_CANCEL = 1"
definition PASTE_REJECT_REGISTRY_FULL :: u8 where [simp]: "PASTE_REJECT_REGISTRY_FULL = 0"
definition PASTE_REJECT_OPEN_FAILED :: u8 where [simp]: "PASTE_REJECT_OPEN_FAILED = 1"
definition PASTE_REJECT_SIZE_MISMATCH :: u8 where [simp]: "PASTE_REJECT_SIZE_MISMATCH = 2"
definition PASTE_REJECT_WRITE_FAILED :: u8 where [simp]: "PASTE_REJECT_WRITE_FAILED = 3"
definition PASTE_REJECT_DUPLICATE_PASTE :: u8 where [simp]: "PASTE_REJECT_DUPLICATE_PASTE = 4"
definition PASTE_REJECT_GROUP_OVERSIZE :: u8 where [simp]: "PASTE_REJECT_GROUP_OVERSIZE = 5"
definition PASTE_REJECT_NOT_CONTROLLER :: u8 where [simp]: "PASTE_REJECT_NOT_CONTROLLER = 6"
definition PASTE_REJECT_MAX_REASON :: u8 where
  [simp]: "PASTE_REJECT_MAX_REASON = PASTE_REJECT_NOT_CONTROLLER"
definition MAX_DOWNLOAD_BEGIN_LEN :: u32 where
  [simp]: "MAX_DOWNLOAD_BEGIN_LEN = 4 + 8 + 1 + MAX_PASTE_NAME_LEN"
definition MAX_DOWNLOAD_CHUNK_LEN :: u32 where
  [simp]: "MAX_DOWNLOAD_CHUNK_LEN = 4 + MAX_PASTE_CHUNK_BYTES"
definition DOWNLOAD_END_LEN :: u32 where [simp]: "DOWNLOAD_END_LEN = 4 + 1"
definition DOWNLOAD_STATUS_OK :: u8 where [simp]: "DOWNLOAD_STATUS_OK = 0"
definition DOWNLOAD_STATUS_CANCEL :: u8 where [simp]: "DOWNLOAD_STATUS_CANCEL = 1"
definition MAX_OPEN_LEN :: u32 where [simp]: "MAX_OPEN_LEN = MAX_SESSION_ID_LEN + 4"
definition CONTROLLER_CHANGED_LEN :: u32 where [simp]: "CONTROLLER_CHANGED_LEN = 1"
definition CONTROLLER_STATUS_NONE :: u8 where [simp]: "CONTROLLER_STATUS_NONE = 0"
definition CONTROLLER_STATUS_SELF :: u8 where [simp]: "CONTROLLER_STATUS_SELF = 1"
definition CONTROLLER_STATUS_OTHER :: u8 where [simp]: "CONTROLLER_STATUS_OTHER = 2"
definition CONTROLLER_NONE_STREAM_ID :: u32 where [simp]: "CONTROLLER_NONE_STREAM_ID = 0"
definition LIST_SESSIONS_LEN :: u32 where [simp]: "LIST_SESSIONS_LEN = 4"
definition MAX_SESSION_LIST_JSON_LEN :: u32 where
  [simp]: "MAX_SESSION_LIST_JSON_LEN = 256 * 1024"
definition MAX_SESSION_LIST_LEN :: u32 where
  [simp]: "MAX_SESSION_LIST_LEN = 4 + 4 + MAX_SESSION_LIST_JSON_LEN"
definition MAX_KILL_SESSION_LEN :: u32 where
  [simp]: "MAX_KILL_SESSION_LEN = 4 + 1 + MAX_SESSION_ID_LEN"
definition KILL_SESSION_ACK_LEN :: u32 where [simp]: "KILL_SESSION_ACK_LEN = 4 + 1"
definition KILL_STATUS_OK :: u8 where [simp]: "KILL_STATUS_OK = 0"
definition KILL_STATUS_NOT_FOUND :: u8 where [simp]: "KILL_STATUS_NOT_FOUND = 1"
definition KILL_STATUS_MAX :: u8 where [simp]: "KILL_STATUS_MAX = KILL_STATUS_NOT_FOUND"
definition CONTROL_STREAM :: u32 where [simp]: "CONTROL_STREAM = 0"
definition HELLO_VERSION :: u32 where [simp]: "HELLO_VERSION = 2"

section \<open>Frame types, errors, bodies\<close>

datatype (plugins only: code) frame_type =
    FtData | FtResize | FtOpen | FtClose | FtPing | FtPong | FtHello
  | FtPasteBegin | FtPasteChunk | FtPasteEnd | FtPasteReject
  | FtDownloadBegin | FtDownloadChunk | FtDownloadEnd
  | FtAcquireControl | FtReleaseControl | FtTakeControl | FtControllerChanged
  | FtListSessions | FtSessionList | FtKillSession | FtKillSessionAck

text \<open>\<open>ty as u8\<close>: the discriminants of the \<open>repr(u8)\<close> enum.\<close>

fun ty_u8 :: "frame_type \<Rightarrow> u8" where
  "ty_u8 FtData = 0" | "ty_u8 FtResize = 1" | "ty_u8 FtOpen = 2" | "ty_u8 FtClose = 3"
| "ty_u8 FtPing = 4" | "ty_u8 FtPong = 5" | "ty_u8 FtHello = 6"
| "ty_u8 FtPasteBegin = 7" | "ty_u8 FtPasteChunk = 8" | "ty_u8 FtPasteEnd = 9"
| "ty_u8 FtPasteReject = 10" | "ty_u8 FtDownloadBegin = 11" | "ty_u8 FtDownloadChunk = 12"
| "ty_u8 FtDownloadEnd = 13" | "ty_u8 FtAcquireControl = 14" | "ty_u8 FtReleaseControl = 15"
| "ty_u8 FtTakeControl = 16" | "ty_u8 FtControllerChanged = 17" | "ty_u8 FtListSessions = 18"
| "ty_u8 FtSessionList = 19" | "ty_u8 FtKillSession = 20" | "ty_u8 FtKillSessionAck = 21"

definition from_u8 :: "u8 \<Rightarrow> frame_type option" where
  "from_u8 b =
     (if b = 0 then Some FtData else if b = 1 then Some FtResize
      else if b = 2 then Some FtOpen else if b = 3 then Some FtClose
      else if b = 4 then Some FtPing else if b = 5 then Some FtPong
      else if b = 6 then Some FtHello else if b = 7 then Some FtPasteBegin
      else if b = 8 then Some FtPasteChunk else if b = 9 then Some FtPasteEnd
      else if b = 10 then Some FtPasteReject else if b = 11 then Some FtDownloadBegin
      else if b = 12 then Some FtDownloadChunk else if b = 13 then Some FtDownloadEnd
      else if b = 14 then Some FtAcquireControl else if b = 15 then Some FtReleaseControl
      else if b = 16 then Some FtTakeControl else if b = 17 then Some FtControllerChanged
      else if b = 18 then Some FtListSessions else if b = 19 then Some FtSessionList
      else if b = 20 then Some FtKillSession else if b = 21 then Some FtKillSessionAck
      else None)"

datatype io_error = UnexpectedEof | InvalidData string | IoOther

datatype (plugins only: code) frame_error =
    Io io_error
  | UnknownType u8
  | PayloadTooLarge frame_type u32 u32
  | InvalidResizeLen u32
  | InvalidCloseLen u32
  | InvalidSessionId
  | SessionIdNotUtf8
  | ControlOnDataStream u32
  | DataOnControlStream
  | PasteBeginTruncated u32
  | PasteBeginNameNotUtf8
  | PasteBeginTotalSize u64
  | PasteBeginGroupSizeZero u32
  | PasteChunkTruncated u32
  | PasteEndLen u32
  | PasteEndStatus u8
  | PasteRejectLen u32
  | PasteRejectReason u8
  | DownloadBeginTruncated u32
  | DownloadBeginNameNotUtf8
  | DownloadBeginTotalSize u64
  | DownloadChunkTruncated u32
  | DownloadEndLen u32
  | DownloadEndStatus u8
  | ControllerChangedLen u32
  | ControllerChangedStatus u8
  | ListSessionsLen u32
  | SessionListTruncated u32
  | SessionListJsonLen u32 u32 u32
  | SessionListOverflow u32
  | KillSessionTruncated u32
  | KillSessionIdLen u8 u32
  | KillSessionAckLen u32
  | KillSessionAckStatus u8
  | ControlFrameNonEmpty frame_type u32

datatype (plugins only: code size) body =
    BData bytes
  | BResize u16 u16
  | BOpen bytes term_size
  | BClose
  | BPing bytes
  | BPong bytes
  | BHello bytes
  | BPasteBegin u32 u64 u32 u32 bytes
  | BPasteChunk u32 bytes
  | BPasteEnd u32 u8
  | BPasteReject u32 u8
  | BDownloadBegin u32 u64 bytes
  | BDownloadChunk u32 bytes
  | BDownloadEnd u32 u8
  | BAcquireControl
  | BReleaseControl
  | BTakeControl
  | BControllerChanged u8
  | BListSessions u32
  | BSessionList u32 bytes
  | BKillSession u32 bytes
  | BKillSessionAck u32 u8

record frame =
  fstream :: stream_id
  fbody :: body

section \<open>Constructors\<close>

definition frame_data :: "stream_id \<Rightarrow> bytes \<Rightarrow> frame" where
  "frame_data sid bs = \<lparr>fstream = sid, fbody = BData bs\<rparr>"

definition frame_resize :: "stream_id \<Rightarrow> u16 \<Rightarrow> u16 \<Rightarrow> frame" where
  "frame_resize sid rows cols = \<lparr>fstream = sid, fbody = BResize rows cols\<rparr>"

definition frame_open :: "stream_id \<Rightarrow> bytes \<Rightarrow> term_size \<Rightarrow> frame" where
  "frame_open sid session_id initial_size = \<lparr>fstream = sid, fbody = BOpen session_id initial_size\<rparr>"

definition frame_close :: "stream_id \<Rightarrow> frame" where
  "frame_close sid = \<lparr>fstream = sid, fbody = BClose\<rparr>"

definition frame_ping :: "bytes \<Rightarrow> frame" where
  "frame_ping payload = \<lparr>fstream = CONTROL_STREAM, fbody = BPing payload\<rparr>"

definition frame_pong :: "bytes \<Rightarrow> frame" where
  "frame_pong payload = \<lparr>fstream = CONTROL_STREAM, fbody = BPong payload\<rparr>"

definition frame_hello :: "bytes \<Rightarrow> frame" where
  "frame_hello payload = \<lparr>fstream = CONTROL_STREAM, fbody = BHello payload\<rparr>"

definition frame_paste_begin ::
    "stream_id \<Rightarrow> u32 \<Rightarrow> u64 \<Rightarrow> u32 \<Rightarrow> u32 \<Rightarrow> bytes \<Rightarrow> frame" where
  "frame_paste_begin sid paste_id total_size group_id group_size name =
     \<lparr>fstream = sid, fbody = BPasteBegin paste_id total_size group_id group_size name\<rparr>"

definition frame_paste_chunk :: "stream_id \<Rightarrow> u32 \<Rightarrow> bytes \<Rightarrow> frame" where
  "frame_paste_chunk sid paste_id bs = \<lparr>fstream = sid, fbody = BPasteChunk paste_id bs\<rparr>"

definition frame_paste_end :: "stream_id \<Rightarrow> u32 \<Rightarrow> u8 \<Rightarrow> frame" where
  "frame_paste_end sid paste_id status = \<lparr>fstream = sid, fbody = BPasteEnd paste_id status\<rparr>"

definition frame_paste_reject :: "stream_id \<Rightarrow> u32 \<Rightarrow> u8 \<Rightarrow> frame" where
  "frame_paste_reject sid paste_id reason = \<lparr>fstream = sid, fbody = BPasteReject paste_id reason\<rparr>"

definition frame_download_begin :: "stream_id \<Rightarrow> u32 \<Rightarrow> u64 \<Rightarrow> bytes \<Rightarrow> frame" where
  "frame_download_begin sid download_id total_size name =
     \<lparr>fstream = sid, fbody = BDownloadBegin download_id total_size name\<rparr>"

definition frame_download_chunk :: "stream_id \<Rightarrow> u32 \<Rightarrow> bytes \<Rightarrow> frame" where
  "frame_download_chunk sid download_id bs = \<lparr>fstream = sid, fbody = BDownloadChunk download_id bs\<rparr>"

definition frame_download_end :: "stream_id \<Rightarrow> u32 \<Rightarrow> u8 \<Rightarrow> frame" where
  "frame_download_end sid download_id status =
     \<lparr>fstream = sid, fbody = BDownloadEnd download_id status\<rparr>"

definition frame_acquire_control :: "stream_id \<Rightarrow> frame" where
  "frame_acquire_control sid = \<lparr>fstream = sid, fbody = BAcquireControl\<rparr>"

definition frame_release_control :: "stream_id \<Rightarrow> frame" where
  "frame_release_control sid = \<lparr>fstream = sid, fbody = BReleaseControl\<rparr>"

definition frame_take_control :: "stream_id \<Rightarrow> frame" where
  "frame_take_control sid = \<lparr>fstream = sid, fbody = BTakeControl\<rparr>"

definition frame_controller_changed :: "stream_id \<Rightarrow> u8 \<Rightarrow> frame" where
  "frame_controller_changed sid status = \<lparr>fstream = sid, fbody = BControllerChanged status\<rparr>"

definition frame_list_sessions :: "u32 \<Rightarrow> frame" where
  "frame_list_sessions request_id = \<lparr>fstream = CONTROL_STREAM, fbody = BListSessions request_id\<rparr>"

definition frame_session_list :: "u32 \<Rightarrow> bytes \<Rightarrow> frame" where
  "frame_session_list request_id json =
     \<lparr>fstream = CONTROL_STREAM, fbody = BSessionList request_id json\<rparr>"

definition frame_kill_session :: "u32 \<Rightarrow> bytes \<Rightarrow> frame" where
  "frame_kill_session request_id session_id =
     \<lparr>fstream = CONTROL_STREAM, fbody = BKillSession request_id session_id\<rparr>"

definition frame_kill_session_ack :: "u32 \<Rightarrow> u8 \<Rightarrow> frame" where
  "frame_kill_session_ack request_id status =
     \<lparr>fstream = CONTROL_STREAM, fbody = BKillSessionAck request_id status\<rparr>"

lemmas frame_ctor_defs =
  frame_data_def frame_resize_def frame_open_def frame_close_def frame_ping_def frame_pong_def
  frame_hello_def frame_paste_begin_def frame_paste_chunk_def frame_paste_end_def
  frame_paste_reject_def frame_download_begin_def frame_download_chunk_def frame_download_end_def
  frame_acquire_control_def frame_release_control_def frame_take_control_def
  frame_controller_changed_def frame_list_sessions_def frame_session_list_def
  frame_kill_session_def frame_kill_session_ack_def

fun body_ty :: "body \<Rightarrow> frame_type" where
  "body_ty (BData _) = FtData"
| "body_ty (BResize _ _) = FtResize"
| "body_ty (BOpen _ _) = FtOpen"
| "body_ty BClose = FtClose"
| "body_ty (BPing _) = FtPing"
| "body_ty (BPong _) = FtPong"
| "body_ty (BHello _) = FtHello"
| "body_ty (BPasteBegin _ _ _ _ _) = FtPasteBegin"
| "body_ty (BPasteChunk _ _) = FtPasteChunk"
| "body_ty (BPasteEnd _ _) = FtPasteEnd"
| "body_ty (BPasteReject _ _) = FtPasteReject"
| "body_ty (BDownloadBegin _ _ _) = FtDownloadBegin"
| "body_ty (BDownloadChunk _ _) = FtDownloadChunk"
| "body_ty (BDownloadEnd _ _) = FtDownloadEnd"
| "body_ty BAcquireControl = FtAcquireControl"
| "body_ty BReleaseControl = FtReleaseControl"
| "body_ty BTakeControl = FtTakeControl"
| "body_ty (BControllerChanged _) = FtControllerChanged"
| "body_ty (BListSessions _) = FtListSessions"
| "body_ty (BSessionList _ _) = FtSessionList"
| "body_ty (BKillSession _ _) = FtKillSession"
| "body_ty (BKillSessionAck _ _) = FtKillSessionAck"

definition ty_of :: "frame \<Rightarrow> frame_type" where
  "ty_of f = body_ty (fbody f)"

definition is_valid_session_id :: "bytes \<Rightarrow> bool" where
  "is_valid_session_id s =
     (if length s = 0 \<or> length s > unat MAX_SESSION_ID_LEN then False
      else list_all (\<lambda>b. is_ascii_alphanumeric b \<or> b = 0x5F \<or> b = 0x2D) s)"

section \<open>Encoding\<close>

text \<open>
  \<open>as u32\<close> and \<open>as u8\<close> of a \<open>usize\<close> truncate; a \<open>usize\<close> is a natural number here, since every
  length is that of a buffer in memory.
\<close>

definition len_u32 :: "bytes \<Rightarrow> u32" where "len_u32 p = word_of_nat (length p)"

definition name_cut :: "bytes \<Rightarrow> nat" where
  "name_cut name =
     (let max = unat MAX_PASTE_NAME_LEN in
      if length name \<le> max then length name else round_down_boundary name max)"

definition enc_open :: "bytes \<Rightarrow> term_size \<Rightarrow> bytes" where
  "enc_open session_id initial_size =
     (case initial_size of (rows, cols) \<Rightarrow> session_id @ be16 rows @ be16 cols)"

definition enc_paste_begin :: "u32 \<Rightarrow> u64 \<Rightarrow> u32 \<Rightarrow> u32 \<Rightarrow> bytes \<Rightarrow> bytes" where
  "enc_paste_begin paste_id total_size group_id group_size name =
     (let n = name_cut name in
      be32 paste_id @ be64 total_size @ be32 group_id @ be32 group_size
        @ [word_of_nat n] @ take n name)"

definition enc_download_begin :: "u32 \<Rightarrow> u64 \<Rightarrow> bytes \<Rightarrow> bytes" where
  "enc_download_begin download_id total_size name =
     (let n = name_cut name in
      be32 download_id @ be64 total_size @ [word_of_nat n] @ take n name)"

definition enc_session_list :: "u32 \<Rightarrow> bytes \<Rightarrow> bytes" where
  "enc_session_list request_id json = be32 request_id @ be32 (len_u32 json) @ json"

definition enc_kill_session :: "u32 \<Rightarrow> bytes \<Rightarrow> bytes" where
  "enc_kill_session request_id session_id =
     (let n = min (length session_id) (unat MAX_SESSION_ID_LEN) in
      be32 request_id @ [word_of_nat n] @ take n session_id)"

fun encode_payload :: "body \<Rightarrow> bytes" where
  "encode_payload (BData b) = b"
| "encode_payload (BOpen session_id initial_size) = enc_open session_id initial_size"
| "encode_payload (BPing b) = b"
| "encode_payload (BPong b) = b"
| "encode_payload (BHello b) = b"
| "encode_payload BClose = []"
| "encode_payload (BResize rows cols) = be16 rows @ be16 cols"
| "encode_payload (BPasteBegin paste_id total_size group_id group_size name) =
     enc_paste_begin paste_id total_size group_id group_size name"
| "encode_payload (BPasteChunk paste_id bs) = be32 paste_id @ bs"
| "encode_payload (BPasteEnd paste_id status) = be32 paste_id @ [status]"
| "encode_payload (BPasteReject paste_id reason) = be32 paste_id @ [reason]"
| "encode_payload (BDownloadBegin download_id total_size name) =
     enc_download_begin download_id total_size name"
| "encode_payload (BDownloadChunk download_id bs) = be32 download_id @ bs"
| "encode_payload (BDownloadEnd download_id status) = be32 download_id @ [status]"
| "encode_payload BAcquireControl = []"
| "encode_payload BReleaseControl = []"
| "encode_payload BTakeControl = []"
| "encode_payload (BControllerChanged status) = [status]"
| "encode_payload (BListSessions request_id) = be32 request_id"
| "encode_payload (BSessionList request_id json) = enc_session_list request_id json"
| "encode_payload (BKillSession request_id session_id) = enc_kill_session request_id session_id"
| "encode_payload (BKillSessionAck request_id status) = be32 request_id @ [status]"

definition encode :: "frame \<Rightarrow> bytes" where
  "encode f =
     (let payload = encode_payload (fbody f) in
      be32 (fstream f) @ [ty_u8 (ty_of f)] @ be32 (len_u32 payload) @ payload)"

definition encode_download_chunk :: "stream_id \<Rightarrow> u32 \<Rightarrow> bytes \<Rightarrow> bytes" where
  "encode_download_chunk sid download_id bs =
     (let payload_len = 4 + length bs in
      be32 sid @ [ty_u8 FtDownloadChunk] @ be32 (word_of_nat payload_len)
        @ be32 download_id @ bs)"

section \<open>Header validation\<close>

text \<open>One definition per arm of the \<open>match ty\<close> in \<open>Frame::validate_header\<close>.\<close>

definition hdr_data :: "stream_id \<Rightarrow> u32 \<Rightarrow> frame_error + unit" where
  "hdr_data sid len =
     (if sid = CONTROL_STREAM then Inl DataOnControlStream
      else if len > MAX_DATA_LEN then Inl (PayloadTooLarge FtData len MAX_DATA_LEN)
      else Inr ())"

definition hdr_resize :: "stream_id \<Rightarrow> u32 \<Rightarrow> frame_error + unit" where
  "hdr_resize sid len =
     (if sid = CONTROL_STREAM then Inl DataOnControlStream
      else if len \<noteq> 4 then Inl (InvalidResizeLen len)
      else Inr ())"

definition hdr_open :: "stream_id \<Rightarrow> u32 \<Rightarrow> frame_error + unit" where
  "hdr_open sid len =
     (if sid = CONTROL_STREAM then Inl DataOnControlStream
      else if \<not> (5 \<le> len \<and> len \<le> MAX_OPEN_LEN) then Inl (PayloadTooLarge FtOpen len MAX_OPEN_LEN)
      else Inr ())"

definition hdr_close :: "stream_id \<Rightarrow> u32 \<Rightarrow> frame_error + unit" where
  "hdr_close sid len =
     (if sid = CONTROL_STREAM then Inl DataOnControlStream
      else if len \<noteq> 0 then Inl (InvalidCloseLen len)
      else Inr ())"

definition hdr_ping :: "frame_type \<Rightarrow> stream_id \<Rightarrow> u32 \<Rightarrow> frame_error + unit" where
  "hdr_ping ty sid len =
     (if sid \<noteq> CONTROL_STREAM then Inl (ControlOnDataStream sid)
      else if len > MAX_PING_LEN then Inl (PayloadTooLarge ty len MAX_PING_LEN)
      else Inr ())"

definition hdr_hello :: "stream_id \<Rightarrow> u32 \<Rightarrow> frame_error + unit" where
  "hdr_hello sid len =
     (if sid \<noteq> CONTROL_STREAM then Inl (ControlOnDataStream sid)
      else if len = 0 \<or> len > MAX_HELLO_LEN then Inl (PayloadTooLarge FtHello len MAX_HELLO_LEN)
      else Inr ())"

definition hdr_paste_begin :: "stream_id \<Rightarrow> u32 \<Rightarrow> frame_error + unit" where
  "hdr_paste_begin sid len =
     (if sid = CONTROL_STREAM then Inl DataOnControlStream
      else if len < 21 then Inl (PasteBeginTruncated len)
      else if len > MAX_PASTE_BEGIN_LEN then Inl (PayloadTooLarge FtPasteBegin len MAX_PASTE_BEGIN_LEN)
      else Inr ())"

definition hdr_paste_chunk :: "stream_id \<Rightarrow> u32 \<Rightarrow> frame_error + unit" where
  "hdr_paste_chunk sid len =
     (if sid = CONTROL_STREAM then Inl DataOnControlStream
      else if len < 4 then Inl (PasteChunkTruncated len)
      else if len > MAX_PASTE_CHUNK_LEN then Inl (PayloadTooLarge FtPasteChunk len MAX_PASTE_CHUNK_LEN)
      else Inr ())"

definition hdr_paste_end :: "stream_id \<Rightarrow> u32 \<Rightarrow> frame_error + unit" where
  "hdr_paste_end sid len =
     (if sid = CONTROL_STREAM then Inl DataOnControlStream
      else if len \<noteq> PASTE_END_LEN then Inl (PasteEndLen len)
      else Inr ())"

definition hdr_paste_reject :: "stream_id \<Rightarrow> u32 \<Rightarrow> frame_error + unit" where
  "hdr_paste_reject sid len =
     (if sid = CONTROL_STREAM then Inl DataOnControlStream
      else if len \<noteq> PASTE_REJECT_LEN then Inl (PasteRejectLen len)
      else Inr ())"

definition hdr_download_begin :: "stream_id \<Rightarrow> u32 \<Rightarrow> frame_error + unit" where
  "hdr_download_begin sid len =
     (if sid = CONTROL_STREAM then Inl DataOnControlStream
      else if len < 13 then Inl (DownloadBeginTruncated len)
      else if len > MAX_DOWNLOAD_BEGIN_LEN then Inl (PayloadTooLarge FtDownloadBegin len MAX_DOWNLOAD_BEGIN_LEN)
      else Inr ())"

definition hdr_download_chunk :: "stream_id \<Rightarrow> u32 \<Rightarrow> frame_error + unit" where
  "hdr_download_chunk sid len =
     (if sid = CONTROL_STREAM then Inl DataOnControlStream
      else if len < 4 then Inl (DownloadChunkTruncated len)
      else if len > MAX_DOWNLOAD_CHUNK_LEN then Inl (PayloadTooLarge FtDownloadChunk len MAX_DOWNLOAD_CHUNK_LEN)
      else Inr ())"

definition hdr_download_end :: "stream_id \<Rightarrow> u32 \<Rightarrow> frame_error + unit" where
  "hdr_download_end sid len =
     (if sid = CONTROL_STREAM then Inl DataOnControlStream
      else if len \<noteq> DOWNLOAD_END_LEN then Inl (DownloadEndLen len)
      else Inr ())"

definition hdr_control :: "frame_type \<Rightarrow> stream_id \<Rightarrow> u32 \<Rightarrow> frame_error + unit" where
  "hdr_control ty sid len =
     (if sid = CONTROL_STREAM then Inl DataOnControlStream
      else if len \<noteq> 0 then Inl (ControlFrameNonEmpty ty len)
      else Inr ())"

definition hdr_controller_changed :: "stream_id \<Rightarrow> u32 \<Rightarrow> frame_error + unit" where
  "hdr_controller_changed sid len =
     (if sid = CONTROL_STREAM then Inl DataOnControlStream
      else if len \<noteq> CONTROLLER_CHANGED_LEN then Inl (ControllerChangedLen len)
      else Inr ())"

definition hdr_list_sessions :: "stream_id \<Rightarrow> u32 \<Rightarrow> frame_error + unit" where
  "hdr_list_sessions sid len =
     (if sid \<noteq> CONTROL_STREAM then Inl (ControlOnDataStream sid)
      else if len \<noteq> LIST_SESSIONS_LEN then Inl (ListSessionsLen len)
      else Inr ())"

definition hdr_session_list :: "stream_id \<Rightarrow> u32 \<Rightarrow> frame_error + unit" where
  "hdr_session_list sid len =
     (if sid \<noteq> CONTROL_STREAM then Inl (ControlOnDataStream sid)
      else if len < 8 then Inl (SessionListTruncated len)
      else if len > MAX_SESSION_LIST_LEN then Inl (SessionListOverflow len)
      else Inr ())"

definition hdr_kill_session :: "stream_id \<Rightarrow> u32 \<Rightarrow> frame_error + unit" where
  "hdr_kill_session sid len =
     (if sid \<noteq> CONTROL_STREAM then Inl (ControlOnDataStream sid)
      else if len < 5 then Inl (KillSessionTruncated len)
      else if len > MAX_KILL_SESSION_LEN then Inl (PayloadTooLarge FtKillSession len MAX_KILL_SESSION_LEN)
      else Inr ())"

definition hdr_kill_session_ack :: "stream_id \<Rightarrow> u32 \<Rightarrow> frame_error + unit" where
  "hdr_kill_session_ack sid len =
     (if sid \<noteq> CONTROL_STREAM then Inl (ControlOnDataStream sid)
      else if len \<noteq> KILL_SESSION_ACK_LEN then Inl (KillSessionAckLen len)
      else Inr ())"

lemmas hdr_defs =
  hdr_data_def hdr_resize_def hdr_open_def hdr_close_def hdr_ping_def hdr_hello_def
  hdr_paste_begin_def hdr_paste_chunk_def hdr_paste_end_def hdr_paste_reject_def
  hdr_download_begin_def hdr_download_chunk_def hdr_download_end_def hdr_control_def
  hdr_controller_changed_def hdr_list_sessions_def hdr_session_list_def
  hdr_kill_session_def hdr_kill_session_ack_def

fun hdr_arm :: "frame_type \<Rightarrow> stream_id \<Rightarrow> u32 \<Rightarrow> frame_error + unit" where
  "hdr_arm FtData sid len = hdr_data sid len"
| "hdr_arm FtResize sid len = hdr_resize sid len"
| "hdr_arm FtOpen sid len = hdr_open sid len"
| "hdr_arm FtClose sid len = hdr_close sid len"
| "hdr_arm FtPing sid len = hdr_ping FtPing sid len"
| "hdr_arm FtPong sid len = hdr_ping FtPong sid len"
| "hdr_arm FtHello sid len = hdr_hello sid len"
| "hdr_arm FtPasteBegin sid len = hdr_paste_begin sid len"
| "hdr_arm FtPasteChunk sid len = hdr_paste_chunk sid len"
| "hdr_arm FtPasteEnd sid len = hdr_paste_end sid len"
| "hdr_arm FtPasteReject sid len = hdr_paste_reject sid len"
| "hdr_arm FtDownloadBegin sid len = hdr_download_begin sid len"
| "hdr_arm FtDownloadChunk sid len = hdr_download_chunk sid len"
| "hdr_arm FtDownloadEnd sid len = hdr_download_end sid len"
| "hdr_arm FtAcquireControl sid len = hdr_control FtAcquireControl sid len"
| "hdr_arm FtReleaseControl sid len = hdr_control FtReleaseControl sid len"
| "hdr_arm FtTakeControl sid len = hdr_control FtTakeControl sid len"
| "hdr_arm FtControllerChanged sid len = hdr_controller_changed sid len"
| "hdr_arm FtListSessions sid len = hdr_list_sessions sid len"
| "hdr_arm FtSessionList sid len = hdr_session_list sid len"
| "hdr_arm FtKillSession sid len = hdr_kill_session sid len"
| "hdr_arm FtKillSessionAck sid len = hdr_kill_session_ack sid len"

definition validate_header ::
    "stream_id \<Rightarrow> u8 \<Rightarrow> u32 \<Rightarrow> frame_error + (frame_type \<times> u32)" where
  "validate_header sid ty_byte len =
     bindE (ok_orE (from_u8 ty_byte) (UnknownType ty_byte)) (\<lambda>ty.
     bindE (hdr_arm ty sid len) (\<lambda>_.
     Inr (ty, len)))"

section \<open>Payload decoding\<close>

text \<open>
  One definition per non-trivial arm of the \<open>match ty\<close> in \<open>Frame::from_payload\<close>. Every
  index and slice of the source is an \<open>idx\<close>, \<open>slice\<close> or \<open>be*_at\<close>, so a panic would be
  visible as \<open>Inl Panic\<close>.
\<close>

type_synonym 'a decoded = "frame_error fail + 'a"

definition dec_open :: "bytes \<Rightarrow> body decoded" where
  "dec_open p =
     (if length p < 5 then Inl (Err (PayloadTooLarge FtOpen (len_u32 p) MAX_OPEN_LEN))
      else let split = length p - 4 in
      bindE (be16_at p split) (\<lambda>rows.
      bindE (be16_at p (split + 2)) (\<lambda>cols.
      bindE (slice p 0 split) (\<lambda>id_bytes.
      bindE (ok_orE (from_utf8 id_bytes) (Err SessionIdNotUtf8)) (\<lambda>s.
      if \<not> is_valid_session_id s then Inl (Err InvalidSessionId)
      else Inr (BOpen s (rows, cols)))))))"

definition dec_resize :: "bytes \<Rightarrow> body decoded" where
  "dec_resize p =
     (if length p \<noteq> 4 then Inl (Err (InvalidResizeLen (len_u32 p)))
      else
      bindE (be16_at p 0) (\<lambda>rows.
      bindE (be16_at p 2) (\<lambda>cols.
      Inr (BResize rows cols))))"

definition dec_paste_begin :: "bytes \<Rightarrow> body decoded" where
  "dec_paste_begin p =
     (if length p < 21 then Inl (Err (PasteBeginTruncated (len_u32 p)))
      else
      bindE (be32_at p 0) (\<lambda>paste_id.
      bindE (be64_at p 4) (\<lambda>total_size.
      if total_size > MAX_PASTE_TOTAL_BYTES then Inl (Err (PasteBeginTotalSize total_size))
      else
      bindE (be32_at p 12) (\<lambda>group_id.
      bindE (be32_at p 16) (\<lambda>group_size.
      if group_size = 0 then Inl (Err (PasteBeginGroupSizeZero group_size))
      else
      bindE (idx p 20) (\<lambda>name_len.
      let name_end = 21 + unat name_len in
      if length p \<noteq> name_end then Inl (Err (PasteBeginTruncated (len_u32 p)))
      else
      bindE (slice p 21 name_end) (\<lambda>name_bytes.
      bindE (ok_orE (from_utf8 name_bytes) (Err PasteBeginNameNotUtf8)) (\<lambda>name.
      Inr (BPasteBegin paste_id total_size group_id group_size name)))))))))"

definition dec_paste_chunk :: "bytes \<Rightarrow> body decoded" where
  "dec_paste_chunk p =
     (if length p < 4 then Inl (Err (PasteChunkTruncated (len_u32 p)))
      else
      bindE (be32_at p 0) (\<lambda>paste_id.
      if length p > 4 + unat MAX_PASTE_CHUNK_BYTES
      then Inl (Err (PayloadTooLarge FtPasteChunk (len_u32 p) MAX_PASTE_CHUNK_LEN))
      else
      bindE (slice p 4 (length p)) (\<lambda>bs.
      Inr (BPasteChunk paste_id bs))))"

definition dec_paste_end :: "bytes \<Rightarrow> body decoded" where
  "dec_paste_end p =
     (if length p \<noteq> unat PASTE_END_LEN then Inl (Err (PasteEndLen (len_u32 p)))
      else
      bindE (be32_at p 0) (\<lambda>paste_id.
      bindE (idx p 4) (\<lambda>status.
      if status \<noteq> PASTE_STATUS_OK \<and> status \<noteq> PASTE_STATUS_CANCEL
      then Inl (Err (PasteEndStatus status))
      else Inr (BPasteEnd paste_id status))))"

definition dec_paste_reject :: "bytes \<Rightarrow> body decoded" where
  "dec_paste_reject p =
     (if length p \<noteq> unat PASTE_REJECT_LEN then Inl (Err (PasteRejectLen (len_u32 p)))
      else
      bindE (be32_at p 0) (\<lambda>paste_id.
      bindE (idx p 4) (\<lambda>reason.
      if reason > PASTE_REJECT_MAX_REASON then Inl (Err (PasteRejectReason reason))
      else Inr (BPasteReject paste_id reason))))"

definition dec_download_begin :: "bytes \<Rightarrow> body decoded" where
  "dec_download_begin p =
     (if length p < 13 then Inl (Err (DownloadBeginTruncated (len_u32 p)))
      else
      bindE (be32_at p 0) (\<lambda>download_id.
      bindE (be64_at p 4) (\<lambda>total_size.
      if total_size > MAX_PASTE_TOTAL_BYTES then Inl (Err (DownloadBeginTotalSize total_size))
      else
      bindE (idx p 12) (\<lambda>name_len.
      let name_end = 13 + unat name_len in
      if length p \<noteq> name_end then Inl (Err (DownloadBeginTruncated (len_u32 p)))
      else
      bindE (slice p 13 name_end) (\<lambda>name_bytes.
      bindE (ok_orE (from_utf8 name_bytes) (Err DownloadBeginNameNotUtf8)) (\<lambda>name.
      Inr (BDownloadBegin download_id total_size name)))))))"

definition dec_download_chunk :: "bytes \<Rightarrow> body decoded" where
  "dec_download_chunk p =
     (if length p < 4 then Inl (Err (DownloadChunkTruncated (len_u32 p)))
      else
      bindE (be32_at p 0) (\<lambda>download_id.
      if length p > 4 + unat MAX_PASTE_CHUNK_BYTES
      then Inl (Err (PayloadTooLarge FtDownloadChunk (len_u32 p) MAX_DOWNLOAD_CHUNK_LEN))
      else
      bindE (slice p 4 (length p)) (\<lambda>bs.
      Inr (BDownloadChunk download_id bs))))"

definition dec_download_end :: "bytes \<Rightarrow> body decoded" where
  "dec_download_end p =
     (if length p \<noteq> unat DOWNLOAD_END_LEN then Inl (Err (DownloadEndLen (len_u32 p)))
      else
      bindE (be32_at p 0) (\<lambda>download_id.
      bindE (idx p 4) (\<lambda>status.
      if status \<noteq> DOWNLOAD_STATUS_OK \<and> status \<noteq> DOWNLOAD_STATUS_CANCEL
      then Inl (Err (DownloadEndStatus status))
      else Inr (BDownloadEnd download_id status))))"

definition dec_controller_changed :: "bytes \<Rightarrow> body decoded" where
  "dec_controller_changed p =
     (if length p \<noteq> unat CONTROLLER_CHANGED_LEN then Inl (Err (ControllerChangedLen (len_u32 p)))
      else
      bindE (idx p 0) (\<lambda>status.
      if status > CONTROLLER_STATUS_OTHER then Inl (Err (ControllerChangedStatus status))
      else Inr (BControllerChanged status)))"

definition dec_list_sessions :: "bytes \<Rightarrow> body decoded" where
  "dec_list_sessions p =
     (if length p \<noteq> unat LIST_SESSIONS_LEN then Inl (Err (ListSessionsLen (len_u32 p)))
      else bindE (be32_at p 0) (\<lambda>request_id. Inr (BListSessions request_id)))"

text \<open>\<open>u32::saturating_add\<close>\<close>

definition saturating_add32 :: "u32 \<Rightarrow> u32 \<Rightarrow> u32" where
  "saturating_add32 a b = word_of_nat (min (unat a + unat b) (2 ^ 32 - 1))"

definition dec_session_list :: "bytes \<Rightarrow> body decoded" where
  "dec_session_list p =
     (if length p < 8 then Inl (Err (SessionListTruncated (len_u32 p)))
      else
      bindE (be32_at p 0) (\<lambda>request_id.
      bindE (be32_at p 4) (\<lambda>json_len.
      let json_actual = word_of_nat (length p - 8) in
      if json_len \<noteq> json_actual
      then Inl (Err (SessionListJsonLen json_len (len_u32 p) (saturating_add32 json_len 8)))
      else
      bindE (slice p 8 (length p)) (\<lambda>json.
      Inr (BSessionList request_id json)))))"

definition dec_kill_session :: "bytes \<Rightarrow> body decoded" where
  "dec_kill_session p =
     (if length p < 5 then Inl (Err (KillSessionTruncated (len_u32 p)))
      else
      bindE (be32_at p 0) (\<lambda>request_id.
      bindE (idx p 4) (\<lambda>id_len.
      let id_end = 5 + unat id_len in
      if length p \<noteq> id_end then Inl (Err (KillSessionIdLen id_len (len_u32 p)))
      else
      bindE (slice p 5 id_end) (\<lambda>id_bytes.
      bindE (ok_orE (from_utf8 id_bytes) (Err SessionIdNotUtf8)) (\<lambda>session_id.
      if \<not> is_valid_session_id session_id then Inl (Err InvalidSessionId)
      else Inr (BKillSession request_id session_id))))))"

definition dec_kill_session_ack :: "bytes \<Rightarrow> body decoded" where
  "dec_kill_session_ack p =
     (if length p \<noteq> unat KILL_SESSION_ACK_LEN then Inl (Err (KillSessionAckLen (len_u32 p)))
      else
      bindE (be32_at p 0) (\<lambda>request_id.
      bindE (idx p 4) (\<lambda>status.
      if status > KILL_STATUS_MAX then Inl (Err (KillSessionAckStatus status))
      else Inr (BKillSessionAck request_id status))))"

fun payload_body :: "frame_type \<Rightarrow> bytes \<Rightarrow> body decoded" where
  "payload_body FtData p = Inr (BData p)"
| "payload_body FtOpen p = dec_open p"
| "payload_body FtClose p = Inr BClose"
| "payload_body FtResize p = dec_resize p"
| "payload_body FtPing p = Inr (BPing p)"
| "payload_body FtPong p = Inr (BPong p)"
| "payload_body FtHello p = Inr (BHello p)"
| "payload_body FtPasteBegin p = dec_paste_begin p"
| "payload_body FtPasteChunk p = dec_paste_chunk p"
| "payload_body FtPasteEnd p = dec_paste_end p"
| "payload_body FtPasteReject p = dec_paste_reject p"
| "payload_body FtDownloadBegin p = dec_download_begin p"
| "payload_body FtDownloadChunk p = dec_download_chunk p"
| "payload_body FtDownloadEnd p = dec_download_end p"
| "payload_body FtAcquireControl p = Inr BAcquireControl"
| "payload_body FtReleaseControl p = Inr BReleaseControl"
| "payload_body FtTakeControl p = Inr BTakeControl"
| "payload_body FtControllerChanged p = dec_controller_changed p"
| "payload_body FtListSessions p = dec_list_sessions p"
| "payload_body FtSessionList p = dec_session_list p"
| "payload_body FtKillSession p = dec_kill_session p"
| "payload_body FtKillSessionAck p = dec_kill_session_ack p"

definition from_payload :: "stream_id \<Rightarrow> frame_type \<Rightarrow> bytes \<Rightarrow> frame decoded" where
  "from_payload sid ty p =
     bindE (payload_body ty p) (\<lambda>b. Inr \<lparr>fstream = sid, fbody = b\<rparr>)"

section \<open>Well-formed frames\<close>

text \<open>What a frame must satisfy for the protocol to carry it unchanged.\<close>

fun wf_body :: "stream_id \<Rightarrow> body \<Rightarrow> bool" where
  "wf_body sid (BData b) \<longleftrightarrow> sid \<noteq> 0 \<and> length b \<le> 65536"
| "wf_body sid (BResize _ _) \<longleftrightarrow> sid \<noteq> 0"
| "wf_body sid (BOpen s _) \<longleftrightarrow> sid \<noteq> 0 \<and> is_valid_session_id s"
| "wf_body sid BClose \<longleftrightarrow> sid \<noteq> 0"
| "wf_body sid (BPing b) \<longleftrightarrow> sid = 0 \<and> length b \<le> 64"
| "wf_body sid (BPong b) \<longleftrightarrow> sid = 0 \<and> length b \<le> 64"
| "wf_body sid (BHello b) \<longleftrightarrow> sid = 0 \<and> b \<noteq> [] \<and> length b \<le> 1024"
| "wf_body sid (BPasteBegin _ total_size _ group_size name) \<longleftrightarrow>
     sid \<noteq> 0 \<and> total_size \<le> MAX_PASTE_TOTAL_BYTES \<and> group_size \<noteq> 0 \<and>
     utf8_valid name \<and> length name \<le> 255"
| "wf_body sid (BPasteChunk _ b) \<longleftrightarrow> sid \<noteq> 0 \<and> length b \<le> 1048576"
| "wf_body sid (BPasteEnd _ st) \<longleftrightarrow> sid \<noteq> 0 \<and> (st = PASTE_STATUS_OK \<or> st = PASTE_STATUS_CANCEL)"
| "wf_body sid (BPasteReject _ r) \<longleftrightarrow> sid \<noteq> 0 \<and> r \<le> PASTE_REJECT_MAX_REASON"
| "wf_body sid (BDownloadBegin _ total_size name) \<longleftrightarrow>
     sid \<noteq> 0 \<and> total_size \<le> MAX_PASTE_TOTAL_BYTES \<and> utf8_valid name \<and> length name \<le> 255"
| "wf_body sid (BDownloadChunk _ b) \<longleftrightarrow> sid \<noteq> 0 \<and> length b \<le> 1048576"
| "wf_body sid (BDownloadEnd _ st) \<longleftrightarrow>
     sid \<noteq> 0 \<and> (st = DOWNLOAD_STATUS_OK \<or> st = DOWNLOAD_STATUS_CANCEL)"
| "wf_body sid BAcquireControl \<longleftrightarrow> sid \<noteq> 0"
| "wf_body sid BReleaseControl \<longleftrightarrow> sid \<noteq> 0"
| "wf_body sid BTakeControl \<longleftrightarrow> sid \<noteq> 0"
| "wf_body sid (BControllerChanged st) \<longleftrightarrow> sid \<noteq> 0 \<and> st \<le> CONTROLLER_STATUS_OTHER"
| "wf_body sid (BListSessions _) \<longleftrightarrow> sid = 0"
| "wf_body sid (BSessionList _ json) \<longleftrightarrow> sid = 0 \<and> length json \<le> 262144"
| "wf_body sid (BKillSession _ s) \<longleftrightarrow> sid = 0 \<and> is_valid_session_id s"
| "wf_body sid (BKillSessionAck _ st) \<longleftrightarrow> sid = 0 \<and> st \<le> KILL_STATUS_MAX"

definition wf_frame :: "frame \<Rightarrow> bool" where
  "wf_frame f \<longleftrightarrow> wf_body (fstream f) (fbody f)"

section \<open>Session identifiers\<close>

lemma valid_session_id_utf8: "is_valid_session_id s \<Longrightarrow> utf8_valid s"
  by (rule utf8_valid_ascii)
    (auto simp: is_valid_session_id_def list_all_iff is_ascii_alphanumeric_ascii split: if_splits
      dest!: bspec)

lemma valid_session_id_length: "is_valid_session_id s \<Longrightarrow> 1 \<le> length s \<and> length s \<le> 64"
  by (auto simp: is_valid_session_id_def Suc_le_eq split: if_splits)

section \<open>Each payload decoder inverts the encoder\<close>

text \<open>
  A payload that is long enough is a row of encoded fields (\<open>be32_prefix\<close> and its kin); on
  such a row the decoder computes, and the encoder is injective on its fields.
\<close>

lemma name_cut_short [simp]: "length name \<le> 255 \<Longrightarrow> name_cut name = length name"
  by (simp add: name_cut_def)

lemma dec_open_be:
  "dec_open (s @ be16 r @ be16 c) =
     (if s = [] then Inl (Err (PayloadTooLarge FtOpen 4 MAX_OPEN_LEN))
      else if \<not> utf8_valid s then Inl (Err SessionIdNotUtf8)
      else if \<not> is_valid_session_id s then Inl (Err InvalidSessionId)
      else Inr (BOpen s (r, c)))"
proof (cases "s = []")
  case True
  then show ?thesis by (simp add: dec_open_def len_u32_def)
next
  case False
  then have "\<not> length (s @ be16 r @ be16 c) < 5" by (cases s) simp_all
  then show ?thesis
    using False
    by (simp only: dec_open_def Let_def if_False) (simp add: be_at_append be_at_be slice_def from_utf8_def)
qed

lemma open_fields: "4 \<le> length p \<Longrightarrow> \<exists>s r c. p = s @ be16 r @ be16 c"
proof -
  assume "4 \<le> length p"
  then obtain s t where p: "p = s @ t" "length t = 4"
    by (metis append_take_drop_id diff_diff_cancel length_drop)
  then obtain r q where t: "t = be16 r @ q" "length q = 2"
    using be16_prefix [of t] by auto
  then obtain c where "q = be16 c" using be16_prefix [of q] by auto
  with p t show ?thesis by auto
qed

lemma dec_open_iff:
  "dec_open p = Inr b \<longleftrightarrow>
     (\<exists>s r c. b = BOpen s (r, c) \<and> is_valid_session_id s \<and> p = enc_open s (r, c))"
proof (cases "length p < 4")
  case True
  then show ?thesis by (auto simp: dec_open_def enc_open_def)
next
  case False
  then obtain s r c where "p = s @ be16 r @ be16 c"
    using open_fields [of p] by auto
  then show ?thesis
    using valid_session_id_length [of s] valid_session_id_utf8 [of s]
    by (auto simp: dec_open_be enc_open_def)
qed

lemma dec_resize_iff:
  "dec_resize p = Inr b \<longleftrightarrow> (\<exists>r c. b = BResize r c \<and> p = be16 r @ be16 c)"
proof (cases "length p = 4")
  case True
  then obtain s r c where "p = s @ be16 r @ be16 c" "s = []"
    using open_fields [of p] by auto
  then show ?thesis
    by (auto simp: dec_resize_def at_simps)
qed (auto simp: dec_resize_def)

lemma dec_paste_begin_be:
  "dec_paste_begin (be32 pid @ be64 tot @ be32 gid @ be32 gs @ n # name) =
     (if tot > MAX_PASTE_TOTAL_BYTES then Inl (Err (PasteBeginTotalSize tot))
      else if gs = 0 then Inl (Err (PasteBeginGroupSizeZero 0))
      else if \<not> (n = word_of_nat (length name) \<and> length name \<le> 255)
        then Inl (Err (PasteBeginTruncated (word_of_nat (21 + length name))))
      else if \<not> utf8_valid name then Inl (Err PasteBeginNameNotUtf8)
      else Inr (BPasteBegin pid tot gid gs name))"
  unfolding u8_length_iff [symmetric]
  by (simp add: dec_paste_begin_def at_simps from_utf8_def len_u32_def Let_def)

lemma paste_begin_fields:
  assumes "21 \<le> length p"
  shows "\<exists>pid tot gid gs n name. p = be32 pid @ be64 tot @ be32 gid @ be32 gs @ n # name"
proof -
  obtain pid q1 where 1: "p = be32 pid @ q1" using be32_prefix [of p] assms by auto
  obtain tot q2 where 2: "q1 = be64 tot @ q2" using be64_prefix [of q1] assms 1 by auto
  obtain gid q3 where 3: "q2 = be32 gid @ q3" using be32_prefix [of q2] assms 1 2 by auto
  obtain gs q4 where 4: "q3 = be32 gs @ q4" using be32_prefix [of q3] assms 1 2 3 by auto
  obtain n name where "q4 = n # name" using assms 1 2 3 4 by (cases q4) auto
  with 1 2 3 4 show ?thesis by blast
qed

lemma dec_paste_begin_iff:
  "dec_paste_begin p = Inr b \<longleftrightarrow>
     (\<exists>pid tot gid gs name. b = BPasteBegin pid tot gid gs name \<and> tot \<le> MAX_PASTE_TOTAL_BYTES \<and>
        gs \<noteq> 0 \<and> utf8_valid name \<and> length name \<le> 255 \<and> p = enc_paste_begin pid tot gid gs name)"
proof (cases "length p < 21")
  case True
  then show ?thesis by (auto simp: dec_paste_begin_def enc_paste_begin_def)
next
  case False
  then obtain pid tot gid gs n name where
    "p = be32 pid @ be64 tot @ be32 gid @ be32 gs @ n # name"
    using paste_begin_fields [of p] by auto
  then show ?thesis
    by (auto simp: dec_paste_begin_be enc_paste_begin_def Let_def simp del: MAX_PASTE_TOTAL_BYTES_def)
qed

lemma id_byte_fields: "length p = 5 \<Longrightarrow> \<exists>i st. p = be32 i @ [st]"
proof -
  assume "length p = 5"
  then obtain i q where "p = be32 i @ q" "length q = 1" using be32_prefix [of p] by auto
  then show ?thesis by (auto simp: length_Suc_conv)
qed

lemma dec_chunk_iff:
  "dec_paste_chunk p = Inr b \<longleftrightarrow>
     (\<exists>i d. b = BPasteChunk i d \<and> length d \<le> 1048576 \<and> p = be32 i @ d)"
  "dec_download_chunk p = Inr b \<longleftrightarrow>
     (\<exists>i d. b = BDownloadChunk i d \<and> length d \<le> 1048576 \<and> p = be32 i @ d)"
proof -
  consider "length p < 4" | i d where "p = be32 i @ d"
    using be32_prefix [of p] by fastforce
  then show "dec_paste_chunk p = Inr b \<longleftrightarrow>
     (\<exists>i d. b = BPasteChunk i d \<and> length d \<le> 1048576 \<and> p = be32 i @ d)"
    by cases (auto simp: dec_paste_chunk_def at_simps)
  consider "length p < 4" | i d where "p = be32 i @ d"
    using be32_prefix [of p] by fastforce
  then show "dec_download_chunk p = Inr b \<longleftrightarrow>
     (\<exists>i d. b = BDownloadChunk i d \<and> length d \<le> 1048576 \<and> p = be32 i @ d)"
    by cases (auto simp: dec_download_chunk_def at_simps)
qed

lemma dec_id_byte_iff:
  "dec_paste_end p = Inr b \<longleftrightarrow> (\<exists>i st. b = BPasteEnd i st \<and>
     (st = PASTE_STATUS_OK \<or> st = PASTE_STATUS_CANCEL) \<and> p = be32 i @ [st])"
  "dec_paste_reject p = Inr b \<longleftrightarrow> (\<exists>i st. b = BPasteReject i st \<and>
     st \<le> PASTE_REJECT_MAX_REASON \<and> p = be32 i @ [st])"
  "dec_download_end p = Inr b \<longleftrightarrow> (\<exists>i st. b = BDownloadEnd i st \<and>
     (st = DOWNLOAD_STATUS_OK \<or> st = DOWNLOAD_STATUS_CANCEL) \<and> p = be32 i @ [st])"
  "dec_kill_session_ack p = Inr b \<longleftrightarrow> (\<exists>i st. b = BKillSessionAck i st \<and>
     st \<le> KILL_STATUS_MAX \<and> p = be32 i @ [st])"
proof -
  have *: "(length p \<noteq> 5 \<Longrightarrow> Q) \<Longrightarrow> (\<And>i st. p = be32 i @ [st] \<Longrightarrow> Q) \<Longrightarrow> Q" for Q
    using id_byte_fields [of p] by auto
  show "dec_paste_end p = Inr b \<longleftrightarrow> (\<exists>i st. b = BPasteEnd i st \<and>
     (st = PASTE_STATUS_OK \<or> st = PASTE_STATUS_CANCEL) \<and> p = be32 i @ [st])"
    by (rule *) (auto simp: dec_paste_end_def at_simps)
  show "dec_paste_reject p = Inr b \<longleftrightarrow> (\<exists>i st. b = BPasteReject i st \<and>
     st \<le> PASTE_REJECT_MAX_REASON \<and> p = be32 i @ [st])"
    by (rule *) (auto simp: dec_paste_reject_def at_simps)
  show "dec_download_end p = Inr b \<longleftrightarrow> (\<exists>i st. b = BDownloadEnd i st \<and>
     (st = DOWNLOAD_STATUS_OK \<or> st = DOWNLOAD_STATUS_CANCEL) \<and> p = be32 i @ [st])"
    by (rule *) (auto simp: dec_download_end_def at_simps)
  show "dec_kill_session_ack p = Inr b \<longleftrightarrow> (\<exists>i st. b = BKillSessionAck i st \<and>
     st \<le> KILL_STATUS_MAX \<and> p = be32 i @ [st])"
    by (rule *) (auto simp: dec_kill_session_ack_def at_simps)
qed

lemma dec_download_begin_be:
  "dec_download_begin (be32 i @ be64 tot @ n # name) =
     (if tot > MAX_PASTE_TOTAL_BYTES then Inl (Err (DownloadBeginTotalSize tot))
      else if \<not> (n = word_of_nat (length name) \<and> length name \<le> 255)
        then Inl (Err (DownloadBeginTruncated (word_of_nat (13 + length name))))
      else if \<not> utf8_valid name then Inl (Err DownloadBeginNameNotUtf8)
      else Inr (BDownloadBegin i tot name))"
  unfolding u8_length_iff [symmetric]
  by (simp add: dec_download_begin_def at_simps from_utf8_def len_u32_def Let_def)

lemma download_begin_fields:
  assumes "13 \<le> length p"
  shows "\<exists>i tot n name. p = be32 i @ be64 tot @ n # name"
proof -
  obtain i q1 where 1: "p = be32 i @ q1" using be32_prefix [of p] assms by auto
  obtain tot q2 where 2: "q1 = be64 tot @ q2" using be64_prefix [of q1] assms 1 by auto
  obtain n name where "q2 = n # name" using assms 1 2 by (cases q2) auto
  with 1 2 show ?thesis by blast
qed

lemma dec_download_begin_iff:
  "dec_download_begin p = Inr b \<longleftrightarrow>
     (\<exists>i tot name. b = BDownloadBegin i tot name \<and> tot \<le> MAX_PASTE_TOTAL_BYTES \<and>
        utf8_valid name \<and> length name \<le> 255 \<and> p = enc_download_begin i tot name)"
proof (cases "length p < 13")
  case True
  then show ?thesis by (auto simp: dec_download_begin_def enc_download_begin_def)
next
  case False
  then obtain i tot n name where "p = be32 i @ be64 tot @ n # name"
    using download_begin_fields [of p] by auto
  then show ?thesis
    by (auto simp: dec_download_begin_be enc_download_begin_def Let_def
        simp del: MAX_PASTE_TOTAL_BYTES_def)
qed

lemma dec_controller_changed_iff:
  "dec_controller_changed p = Inr b \<longleftrightarrow>
     (\<exists>st. b = BControllerChanged st \<and> st \<le> CONTROLLER_STATUS_OTHER \<and> p = [st])"
  by (cases p) (auto simp: dec_controller_changed_def at_simps)

lemma dec_list_sessions_iff:
  "dec_list_sessions p = Inr b \<longleftrightarrow> (\<exists>i. b = BListSessions i \<and> p = be32 i)"
  using be32_prefix [of p] by (auto simp: dec_list_sessions_def at_simps)

lemma dec_session_list_iff:
  "dec_session_list p = Inr b \<longleftrightarrow> (\<exists>i json. b = BSessionList i json \<and> p = enc_session_list i json)"
proof (cases "length p < 8")
  case True
  then show ?thesis by (auto simp: dec_session_list_def enc_session_list_def)
next
  case False
  then obtain i q where 1: "p = be32 i @ q" using be32_prefix [of p] by auto
  then obtain n json where 2: "q = be32 n @ json" using be32_prefix [of q] False by auto
  show ?thesis
    unfolding 1 2 by (auto simp: dec_session_list_def enc_session_list_def len_u32_def at_simps Let_def)
qed

lemma enc_kill_session_valid:
  "is_valid_session_id s \<Longrightarrow> enc_kill_session i s = be32 i @ word_of_nat (length s) # s"
  using valid_session_id_length [of s] by (simp add: enc_kill_session_def Let_def min_def)

lemma dec_kill_session_iff:
  "dec_kill_session p = Inr b \<longleftrightarrow>
     (\<exists>i s. b = BKillSession i s \<and> is_valid_session_id s \<and> p = enc_kill_session i s)"
proof (cases "length p < 5")
  case True
  then show ?thesis by (auto simp: dec_kill_session_def enc_kill_session_def Let_def)
next
  case False
  then obtain i q where "p = be32 i @ q" using be32_prefix [of p] by auto
  moreover then obtain n s where "q = n # s" using False by (cases q) auto
  ultimately have p: "p = be32 i @ n # s" by simp
  have "dec_kill_session p =
     (if \<not> (n = word_of_nat (length s) \<and> length s \<le> 255)
      then Inl (Err (KillSessionIdLen n (word_of_nat (5 + length s))))
      else if \<not> utf8_valid s then Inl (Err SessionIdNotUtf8)
      else if \<not> is_valid_session_id s then Inl (Err InvalidSessionId)
      else Inr (BKillSession i s))"
    unfolding p u8_length_iff [symmetric]
    by (simp add: dec_kill_session_def at_simps from_utf8_def len_u32_def Let_def)
  then show ?thesis
    using valid_session_id_length [of s] valid_session_id_utf8 [of s]
    by (auto simp: p enc_kill_session_valid)
qed

lemmas dec_iffs =
  dec_open_iff dec_resize_iff dec_paste_begin_iff dec_chunk_iff dec_id_byte_iff
  dec_download_begin_iff dec_controller_changed_iff dec_list_sessions_iff
  dec_session_list_iff dec_kill_session_iff

section \<open>The codec\<close>

lemma from_u8_ty_u8 [simp]: "from_u8 (ty_u8 t) = Some t"
  by (cases t) (simp_all add: from_u8_def)

lemma from_u8_Some_iff: "from_u8 b = Some t \<longleftrightarrow> b = ty_u8 t"
  by (cases t) (auto simp: from_u8_def split: if_splits)

lemma len_u32_cmp:
  assumes "length p < 2 ^ 32"
  shows "len_u32 p < w \<longleftrightarrow> length p < unat w" "w < len_u32 p \<longleftrightarrow> unat w < length p"
    "len_u32 p \<le> w \<longleftrightarrow> length p \<le> unat w" "w \<le> len_u32 p \<longleftrightarrow> unat w \<le> length p"
    "len_u32 p = w \<longleftrightarrow> length p = unat w"
  using assms
  by (auto simp: len_u32_def word_less_nat_alt word_le_nat_alt unat_of_nat word_unat_eq_iff)

lemma payload_body_no_panic: "payload_body ty p \<noteq> Inl Panic"
  by (cases ty)
    (auto simp: dec_open_def dec_resize_def dec_paste_begin_def dec_paste_chunk_def dec_paste_end_def
      dec_paste_reject_def dec_download_begin_def dec_download_chunk_def dec_download_end_def
      dec_controller_changed_def dec_list_sessions_def dec_session_list_def dec_kill_session_def
      dec_kill_session_ack_def in_range Let_def bindE_Inl_iff ok_orE_def split: option.splits if_splits)

lemma payload_body_ty: "payload_body ty p = Inr b \<Longrightarrow> body_ty b = ty"
  by (cases ty) (auto simp: dec_iffs)

lemma codec_sound:
  assumes "length p < 2 ^ 32" "hdr_arm ty sid (len_u32 p) = Inr ()" "payload_body ty p = Inr b"
  shows "wf_body sid b \<and> p = encode_payload b"
  using assms(2,3)
  by (cases ty) (auto simp: dec_iffs hdr_defs len_u32_cmp [OF assms(1)] enc_session_list_def)

lemma wf_payload_length: "wf_body sid b \<Longrightarrow> length (encode_payload b) \<le> 1048580"
  by (cases b) (auto simp: enc_open_def enc_paste_begin_def enc_download_begin_def enc_session_list_def
    enc_kill_session_def Let_def split: prod.splits dest!: valid_session_id_length)

lemma codec_complete:
  assumes "wf_body sid b"
  shows "hdr_arm (body_ty b) sid (len_u32 (encode_payload b)) = Inr ()"
    and "payload_body (body_ty b) (encode_payload b) = Inr b"
proof -
  have len: "length (encode_payload b) < 2 ^ 32"
    using wf_payload_length [OF assms] by simp
  note cmp = len_u32_cmp [OF len]
  show "hdr_arm (body_ty b) sid (len_u32 (encode_payload b)) = Inr ()"
    using assms cmp
    by (cases b) (auto simp: hdr_defs enc_open_def enc_paste_begin_def enc_download_begin_def
      enc_session_list_def enc_kill_session_def Let_def split: prod.splits dest!: valid_session_id_length)
  show "payload_body (body_ty b) (encode_payload b) = Inr b"
    using assms
    by (cases b) (auto simp: dec_iffs)
qed
text \<open>
  The declared length a reader allocates for is at most 1 MiB and four bytes, whatever the
  header says.
\<close>

lemma validate_header_iff:
  "validate_header sid b len = Inr (ty, l) \<longleftrightarrow> b = ty_u8 ty \<and> l = len \<and> hdr_arm ty sid len = Inr ()"
  by (auto simp: validate_header_def result_simps from_u8_Some_iff)

lemma hdr_arm_bound: "hdr_arm ty sid len = Inr () \<Longrightarrow> unat len \<le> 1048580"
  by (cases ty) (auto simp: hdr_defs word_less_nat_alt word_le_nat_alt linorder_not_less)

lemma hdr_arm_stream: "hdr_arm ty sid len = Inr () \<Longrightarrow>
    sid = CONTROL_STREAM \<longleftrightarrow> ty \<in> {FtPing, FtPong, FtHello, FtListSessions, FtSessionList,
      FtKillSession, FtKillSessionAck}"
  by (cases ty) (auto simp: hdr_defs)

lemma name_cut_boundary: "is_char_boundary name (name_cut name)"
  by (simp add: name_cut_def Let_def is_char_boundary_def round_down_boundary_boundary)
    (simp add: is_char_boundary_def [symmetric] round_down_boundary_boundary)

lemma name_cut_le: "name_cut name \<le> 255" "name_cut name \<le> length name"
  using round_down_boundary_le [of name 255] by (auto simp: name_cut_def Let_def)

lemma name_cut_ge: "utf8_valid name \<Longrightarrow> min (length name) 252 \<le> name_cut name"
  using round_down_boundary_ge [of name 255] by (auto simp: name_cut_def Let_def)

text \<open>An over-long name is cut to a valid string before it is sent.\<close>

lemma enc_paste_begin_cut:
  "enc_paste_begin pid tot gid gs name = enc_paste_begin pid tot gid gs (take (name_cut name) name)"
  using name_cut_le [of name] by (simp add: enc_paste_begin_def Let_def)

lemma enc_download_begin_cut:
  "enc_download_begin i tot name = enc_download_begin i tot (take (name_cut name) name)"
  using name_cut_le [of name] by (simp add: enc_download_begin_def Let_def)

lemma name_cut_valid: "utf8_valid name \<Longrightarrow> utf8_valid (take (name_cut name) name)"
  by (rule utf8_valid_take [OF _ name_cut_boundary])

lemma from_payload_no_panic: "from_payload sid ty p \<noteq> Inl Panic"
  using payload_body_no_panic [of ty p] by (auto simp: from_payload_def result_simps)

lemma from_payload_Inr_iff:
  "from_payload sid ty p = Inr f \<longleftrightarrow> fstream f = sid \<and> payload_body ty p = Inr (fbody f)"
  by (cases f) (auto simp: from_payload_def result_simps)

lemma encode_download_chunk_eq:
  "encode_download_chunk sid i bs = encode (frame_download_chunk sid i bs)"
  by (simp add: encode_download_chunk_def encode_def frame_download_chunk_def ty_of_def len_u32_def)

end
