(* ===== verification/Wire_Transport.thy ===== *)
theory Wire_Transport
  imports Wire_Frame
begin

text \<open>
  The two transports of \<open>common/src/transport.rs\<close>: the length-delimited byte stream
  (\<open>ByteStreamRecv::recv\<close>, \<open>ByteStreamSend::send\<close>) and one frame per WebSocket message
  (\<open>frame_from_ws_payload\<close>).

  The asynchronous reader and writer under the byte stream belong to tokio and are parameters
  (\<open>read_exact\<close>, \<open>write_all\<close>). What the code relies on is stated by the locales
  \<open>exact_reader\<close> and \<open>appending_writer\<close>; both are interpreted on the in-memory buffer
  (\<open>std::io::Cursor\<close>, \<open>Vec<u8>\<close>) that the repository's own tests run the code on.
\<close>

section \<open>Operations\<close>

type_synonym 's reader = "nat \<Rightarrow> 's \<Rightarrow> (io_error + bytes) \<times> 's"
type_synonym 'w writer = "bytes \<Rightarrow> 'w \<Rightarrow> (io_error + unit) \<times> 'w"

text \<open>\<open>u32::from_be_bytes([h[0], ..])\<close>, \<open>h[4]\<close>, \<open>u32::from_be_bytes([h[5], ..])\<close>\<close>

definition header_fields :: "bytes \<Rightarrow> 'e fail + (stream_id \<times> u8 \<times> u32)" where
  "header_fields h =
     bindE (be32_at h 0) (\<lambda>sid.
     bindE (idx h 4) (\<lambda>ty_byte.
     bindE (be32_at h 5) (\<lambda>len.
     Inr (sid, ty_byte, len))))"

definition recv_body ::
    "'s reader \<Rightarrow> stream_id \<Rightarrow> frame_type \<Rightarrow> u32 \<Rightarrow> 's
       \<Rightarrow> (frame_error fail + (frame \<times> u64) option) \<times> 's" where
  "recv_body read_exact sid ty len s =
     (case (if 0 < len then read_exact (unat len) s else (Inr [], s)) of
        (Inl e, s') \<Rightarrow> (Inl (Err (Io e)), s')
      | (Inr payload, s') \<Rightarrow>
          let total = word_of_nat HEADER_LEN + ucast len in
          (bindE (from_payload sid ty payload) (\<lambda>f. Inr (Some (f, total))), s'))"

definition recv ::
    "'s reader \<Rightarrow> 's \<Rightarrow> (frame_error fail + (frame \<times> u64) option) \<times> 's" where
  "recv read_exact s =
     (case read_exact HEADER_LEN s of
        (Inl e, s') \<Rightarrow> if e = UnexpectedEof then (Inr None, s') else (Inl (Err (Io e)), s')
      | (Inr hdr, s') \<Rightarrow>
          (case header_fields hdr of
             Inl e \<Rightarrow> (Inl e, s')
           | Inr (sid, ty_byte, len) \<Rightarrow>
               (case validate_header sid ty_byte len of
                  Inl e \<Rightarrow> (Inl (Err e), s')
                | Inr (ty, len) \<Rightarrow> recv_body read_exact sid ty len s')))"

definition send :: "'w writer \<Rightarrow> bytes \<Rightarrow> 'w \<Rightarrow> (io_error + unit) \<times> 'w" where
  "send write_all bs w = write_all bs w"

definition frame_from_ws_payload :: "bytes \<Rightarrow> frame_error fail + (frame \<times> u64)" where
  "frame_from_ws_payload data =
     (if length data < HEADER_LEN
      then Inl (Err (Io (InvalidData ''websocket frame shorter than header'')))
      else
      bindE (header_fields data) (\<lambda>(sid, ty_byte, len).
      bindE (map_errE Err (validate_header sid ty_byte len)) (\<lambda>(ty, len).
      if length data \<noteq> HEADER_LEN + unat len
      then Inl (Err (Io (InvalidData ''websocket frame length mismatch'')))
      else
      bindE (slice data HEADER_LEN (length data)) (\<lambda>payload.
      let total = word_of_nat (HEADER_LEN + length payload) in
      bindE (from_payload sid ty payload) (\<lambda>f. Inr (f, total))))))"

text \<open>
  The read loop of both ends of the link, \<open>loop { match recv.recv().await .. }\<close>, as the list of
  frames it yields and the error that ends it, if any. It is bounded by fuel since a reader may
  deliver frames forever.
\<close>

fun recv_all :: "nat \<Rightarrow> 's reader \<Rightarrow> 's \<Rightarrow> (frame list \<times> frame_error fail option) option" where
  "recv_all 0 read_exact s = None"
| "recv_all (Suc fuel) read_exact s =
     (case recv read_exact s of
        (Inl e, _) \<Rightarrow> Some ([], Some e)
      | (Inr None, _) \<Rightarrow> Some ([], None)
      | (Inr (Some (f, _)), s') \<Rightarrow>
          map_option (\<lambda>(fs, r). (f # fs, r)) (recv_all fuel read_exact s'))"

section \<open>WebSocket messages\<close>

lemma header_fields_be:
  "header_fields (be32 sid @ b # be32 len) = Inr (sid, b, len)"
  "header_fields (be32 sid @ b # be32 len @ q) = Inr (sid, b, len)"
  by (simp_all add: header_fields_def at_simps)

lemma header_prefix: "9 \<le> length d \<Longrightarrow> \<exists>sid b len q. d = be32 sid @ b # be32 len @ q"
proof -
  assume d: "9 \<le> length d"
  then obtain sid q1 where 1: "d = be32 sid @ q1" using be32_prefix [of d] by auto
  then obtain b q2 where 2: "q1 = b # q2" using d by (cases q1) auto
  obtain len q where "q2 = be32 len @ q" using be32_prefix [of q2] d 1 2 by auto
  with 1 2 show ?thesis by blast
qed

lemma encode_fields:
  "encode f = be32 (fstream f) @ ty_u8 (body_ty (fbody f)) #
     be32 (len_u32 (encode_payload (fbody f))) @ encode_payload (fbody f)"
  by (simp add: encode_def ty_of_def Let_def)

lemma length_encode: "length (encode f) = 9 + length (encode_payload (fbody f))"
  by (simp add: encode_fields)

lemma unat_len_u32: "length p < 2 ^ 32 \<Longrightarrow> unat (len_u32 p) = length p"
  by (simp add: len_u32_def unat_of_nat)

text \<open>
  A payload delimited by its header decodes to \<open>f\<close> exactly when header and payload are the
  encoding of the well-formed frame \<open>f\<close>. Both transports rest on this one fact.
\<close>

definition delimited :: "stream_id \<Rightarrow> u8 \<Rightarrow> u32 \<Rightarrow> bytes \<Rightarrow> frame_error fail + frame" where
  "delimited sid b len p =
     bindE (map_errE Err (validate_header sid b len)) (\<lambda>(ty, _). from_payload sid ty p)"

lemma delimited_iff:
  assumes "length p = unat len"
  shows "delimited sid b len p = Inr f \<longleftrightarrow> wf_frame f \<and> be32 sid @ b # be32 len @ p = encode f"
proof -
  have p: "length p < 2 ^ 32" "len = len_u32 p"
    using assms unsigned_less [of len] by (simp_all add: len_u32_def)
  show ?thesis
    using codec_sound [OF p(1), of _ sid "fbody f"] codec_complete [of sid "fbody f"]
      payload_body_ty [of _ p "fbody f"]
    by (auto simp: delimited_def result_simps validate_header_iff from_payload_Inr_iff encode_fields
        wf_frame_def p(2))
qed

lemma delimited_no_panic: "delimited sid b len p \<noteq> Inl Panic"
  using from_payload_no_panic by (auto simp: delimited_def result_simps map_errE_def split: sum.splits)

lemma ws_payload_fields:
  "length p = unat len \<Longrightarrow> frame_from_ws_payload (be32 sid @ b # be32 len @ p) =
     bindE (delimited sid b len p) (\<lambda>f. Inr (f, word_of_nat (9 + length p)))"
  "length p \<noteq> unat len \<Longrightarrow> \<exists>e. frame_from_ws_payload (be32 sid @ b # be32 len @ p) = Inl (Err e)"
proof -
  show "length p = unat len \<Longrightarrow> frame_from_ws_payload (be32 sid @ b # be32 len @ p) =
     bindE (delimited sid b len p) (\<lambda>f. Inr (f, word_of_nat (9 + length p)))"
    by (cases "validate_header sid b len")
      (auto simp: frame_from_ws_payload_def header_fields_be delimited_def validate_header_iff
        slice_def)
  show "length p \<noteq> unat len \<Longrightarrow>
      \<exists>e. frame_from_ws_payload (be32 sid @ b # be32 len @ p) = Inl (Err e)"
    by (cases "validate_header sid b len")
      (auto simp: frame_from_ws_payload_def header_fields_be validate_header_iff)
qed

lemma wf_header_len:
  "wf_frame f \<Longrightarrow> unat (len_u32 (encode_payload (fbody f))) = length (encode_payload (fbody f))"
  using wf_payload_length [of "fstream f" "fbody f"] by (simp add: unat_len_u32 wf_frame_def)

lemma ws_payload_iff:
  "frame_from_ws_payload d = Inr (f, n) \<longleftrightarrow>
     wf_frame f \<and> d = encode f \<and> n = word_of_nat (length d)"
proof (cases "length d < 9")
  case True
  then show ?thesis by (auto simp: frame_from_ws_payload_def length_encode)
next
  case False
  then obtain sid b len p where d: "d = be32 sid @ b # be32 len @ p"
    using header_prefix [of d] by auto
  show ?thesis
  proof (cases "length p = unat len")
    case True
    then show ?thesis
      using delimited_iff [OF True, of sid b f] by (auto simp: d ws_payload_fields(1) result_simps)
  next
    case False
    then have "d \<noteq> encode f" if "wf_frame f"
      using wf_header_len [OF that] by (auto simp: d encode_fields)
    with ws_payload_fields(2) [OF False, of sid b] show ?thesis by (auto simp: d)
  qed
qed

lemma ws_payload_no_panic: "frame_from_ws_payload d \<noteq> Inl Panic"
proof (cases "length d < 9")
  case False
  then obtain sid b len p where "d = be32 sid @ b # be32 len @ p"
    using header_prefix [of d] by auto
  then show ?thesis
    using ws_payload_fields [of p len sid b] delimited_no_panic [of sid b len p]
    by (cases "length p = unat len") (auto simp: bindE_Inl_iff)
qed (simp add: frame_from_ws_payload_def)

section \<open>Byte streams\<close>

locale exact_reader =
  fixes read_exact :: "'s reader"
    and pending :: "'s \<Rightarrow> bytes"
  assumes read_full: "n \<le> length (pending s) \<Longrightarrow>
      fst (read_exact n s) = Inr (take n (pending s)) \<and>
      pending (snd (read_exact n s)) = drop n (pending s)"
    and read_short: "length (pending s) < n \<Longrightarrow> \<exists>e. fst (read_exact n s) = Inl e"
begin

lemma recv_short:
  "length (pending s) < 9 \<Longrightarrow> fst (recv read_exact s) = Inr None \<or>
     (\<exists>e. fst (recv read_exact s) = Inl (Err (Io e)))"
  using read_short [of s 9] by (auto simp: recv_def split: prod.splits if_splits)

lemma recv_fields:
  assumes "pending s = be32 sid @ b # be32 len @ q"
  shows "unat len \<le> length q \<Longrightarrow> fst (recv read_exact s) =
      bindE (delimited sid b len (take (unat len) q)) (\<lambda>f. Inr (Some (f, word_of_nat (9 + unat len))))"
    and "length q < unat len \<Longrightarrow> \<exists>e. fst (recv read_exact s) = Inl (Err e)"
    and "fst (recv read_exact s) = Inr (Some fn) \<Longrightarrow>
      pending (snd (recv read_exact s)) = drop (unat len) q"
proof -
  define s' where "s' = snd (read_exact 9 s)"
  have s': "read_exact 9 s = (Inr (be32 sid @ b # be32 len), s')" "pending s' = q"
    using read_full [of 9 s] assms by (simp_all add: s'_def prod_eq_iff)
  have full: "\<exists>s''. read_exact (unat len) s' = (Inr (take (unat len) q), s'') \<and>
      pending s'' = drop (unat len) q" if "unat len \<le> length q"
    using read_full [of "unat len" s'] that s'(2) by (metis prod.collapse)
  have short: "\<exists>e. fst (read_exact (unat len) s') = Inl e" if "length q < unat len"
    using read_short [of s' "unat len"] that s'(2) by simp
  have tot: "9 + ucast len = (word_of_nat (9 + unat len) :: u64)"
    by simp
  show "unat len \<le> length q \<Longrightarrow> fst (recv read_exact s) =
      bindE (delimited sid b len (take (unat len) q)) (\<lambda>f. Inr (Some (f, word_of_nat (9 + unat len))))"
    using full
    by (cases "validate_header sid b len"; cases "len = 0")
      (auto simp: recv_def s' header_fields_be recv_body_def validate_header_iff delimited_def
        word_gt_0 Let_def)
  show "length q < unat len \<Longrightarrow> \<exists>e. fst (recv read_exact s) = Inl (Err e)"
    using short
    by (cases "validate_header sid b len"; cases "len = 0")
      (auto simp: recv_def s' header_fields_be recv_body_def validate_header_iff
        word_gt_0 Let_def split: prod.splits)
  show "fst (recv read_exact s) = Inr (Some fn) \<Longrightarrow>
      pending (snd (recv read_exact s)) = drop (unat len) q"
    using full short s'(2)
    by (cases "validate_header sid b len"; cases "len = 0"; cases "unat len \<le> length q")
      (auto simp: recv_def s' header_fields_be recv_body_def validate_header_iff
        word_gt_0 Let_def split: prod.splits)
qed

lemma recv_iff:
  "fst (recv read_exact s) = Inr (Some (f, n)) \<and> pending (snd (recv read_exact s)) = q \<longleftrightarrow>
     wf_frame f \<and> pending s = encode f @ q \<and> n = word_of_nat (length (encode f))"
proof (cases "length (pending s) < 9")
  case True
  then show ?thesis using recv_short [OF True] by (auto simp: length_encode)
next
  case False
  then obtain sid b len r where s: "pending s = be32 sid @ b # be32 len @ r"
    using header_prefix [of "pending s"] by auto
  show ?thesis
  proof (cases "length r < unat len")
    case True
    then have "pending s \<noteq> encode f @ q" if "wf_frame f"
      using wf_header_len [OF that] by (auto simp: s encode_fields)
    with recv_fields(2) [OF s True] show ?thesis by auto
  next
    case False
    define p where "p = take (unat len) r"
    have r: "r = p @ drop (unat len) r" "length p = unat len"
      using False by (simp_all add: p_def)
    have *: "be32 sid @ b # be32 len @ p = encode f \<Longrightarrow> pending s = encode f @ q \<longleftrightarrow> q = drop (unat len) r"
      using r(1) by (metis append.assoc append_Cons s same_append_eq)
    have "pending s = encode f @ q \<Longrightarrow> wf_frame f \<Longrightarrow> be32 sid @ b # be32 len @ p = encode f"
      using wf_header_len [of f] by (auto simp: s encode_fields p_def)
    moreover have "word_of_nat (length (encode f)) = (9 + ucast len :: u64)"
      if "be32 sid @ b # be32 len @ p = encode f"
    proof -
      have "length (encode f) = 9 + unat len"
        using arg_cong [OF that, of length] r(2) by simp
      then show ?thesis by simp
    qed
    ultimately show ?thesis
      using recv_fields(1,3) [OF s] delimited_iff [OF r(2), of sid b f] * False
      by (auto simp: result_simps p_def [symmetric])
  qed
qed

lemma recv_all_encode:
  "list_all wf_frame fs \<Longrightarrow> pending s = concat (map encode fs) @ q \<Longrightarrow>
     \<exists>s'. pending s' = q \<and>
       recv_all (length fs + k) read_exact s =
         map_option (\<lambda>(gs, r). (fs @ gs, r)) (recv_all k read_exact s')"
proof (induction fs arbitrary: s)
  case Nil
  then show ?case by (auto simp: option.map_ident split_beta)
next
  case (Cons f fs)
  then have "fst (recv read_exact s) = Inr (Some (f, word_of_nat (length (encode f)))) \<and>
      pending (snd (recv read_exact s)) = concat (map encode fs) @ q"
    by (subst recv_iff) simp
  with Cons.IH [of "snd (recv read_exact s)"] Cons.prems obtain s' where
    "pending s' = q" "recv_all (length fs + k) read_exact (snd (recv read_exact s)) =
         map_option (\<lambda>(gs, r). (fs @ gs, r)) (recv_all k read_exact s')"
    "fst (recv read_exact s) = Inr (Some (f, word_of_nat (length (encode f))))"
    by auto
  then show ?case
    by (intro exI [of _ s'])
      (cases "recv read_exact s", auto simp: option.map_comp o_def split_beta)
qed

end

locale appending_writer =
  fixes write_all :: "'w writer"
    and written :: "'w \<Rightarrow> bytes"
  assumes write_ok: "fst (write_all bs w) = Inr ()"
    and write_appends: "written (snd (write_all bs w)) = written w @ bs"
begin

lemma sends_append:
  "written (fold (\<lambda>f w. snd (send write_all (encode f) w)) fs w) = written w @ concat (map encode fs)"
  by (induction fs arbitrary: w) (simp_all add: send_def write_appends)

end

section \<open>In-memory buffers\<close>

text \<open>
  \<open>Read::read_exact\<close> of a \<open>std::io::Cursor\<close> over the remaining bytes, and \<open>Write::write_all\<close>
  of a \<open>Vec<u8>\<close>. A short read reports \<open>UnexpectedEof\<close> and leaves the cursor at the end.
\<close>

definition cursor_read_exact :: "bytes reader" where
  "cursor_read_exact n s = (if n \<le> length s then (Inr (take n s), drop n s) else (Inl UnexpectedEof, []))"

definition vec_write_all :: "bytes writer" where
  "vec_write_all bs w = (Inr (), w @ bs)"

interpretation cursor: exact_reader cursor_read_exact id
  by unfold_locales (simp_all add: cursor_read_exact_def)

interpretation vec: appending_writer vec_write_all id
  by unfold_locales (simp_all add: vec_write_all_def)

lemma cursor_recv_iff:
  "recv cursor_read_exact s = (Inr (Some (f, n)), q) \<longleftrightarrow>
     wf_frame f \<and> s = encode f @ q \<and> n = word_of_nat (length (encode f))"
  using cursor.recv_iff [of s f n q] by (auto simp: prod_eq_iff)

lemma cursor_recv_short: "length s < 9 \<Longrightarrow> recv cursor_read_exact s = (Inr None, [])"
  by (simp add: recv_def cursor_read_exact_def)

lemma cursor_recv_no_panic: "fst (recv cursor_read_exact s) \<noteq> Inl Panic"
proof (cases "length s < 9")
  case False
  then obtain sid b len q where s: "s = be32 sid @ b # be32 len @ q"
    using header_prefix [of s] by auto
  then show ?thesis
    using cursor.recv_fields(1,2) [of s sid b len q] delimited_no_panic [of sid b len]
    by (cases "unat len \<le> length q") (auto simp: bindE_Inl_iff)
qed (simp add: cursor_recv_short)

lemma wf_paste_begin_cut:
  assumes "sid \<noteq> 0" "tot \<le> MAX_PASTE_TOTAL_BYTES" "gs \<noteq> 0" "utf8_valid name"
  shows "wf_frame (frame_paste_begin sid pid tot gid gs (take (name_cut name) name))"
  using assms name_cut_le(1) [of name] name_cut_valid
  by (simp add: wf_frame_def frame_paste_begin_def min_def)

section \<open>Properties\<close>

text \<open>
  C20. A WebSocket message decodes to a frame exactly when it is the encoding of that frame and
  the frame is well-formed, and the reported wire size is the size of the message: the decoder
  accepts nothing else, and decoding inverts \<open>Frame::encode\<close>.
\<close>

theorem ws_frame_codec:
  "frame_from_ws_payload d = Inr (f, n) \<longleftrightarrow>
     wf_frame f \<and> d = encode f \<and> n = word_of_nat (length d)"
  by (rule ws_payload_iff)

text \<open>
  C21. Over a byte stream, \<open>recv\<close> yields a frame exactly when the stream starts with the encoding
  of that (well-formed) frame; it consumes those bytes and no more, and reports their number.
\<close>

theorem stream_frame_codec:
  "recv cursor_read_exact s = (Inr (Some (f, n)), q) \<longleftrightarrow>
     wf_frame f \<and> s = encode f @ q \<and> n = word_of_nat (length (encode f))"
  by (rule cursor_recv_iff)

text \<open>
  C22. Well-formed frames sent one after the other over a byte stream are received as the same
  frames in the same order, after which the reader sees a clean end of stream; the read loop
  stops after one more iteration than there are frames.
\<close>

theorem stream_delivery:
  assumes "list_all wf_frame fs"
  shows "recv_all (length fs + 1) cursor_read_exact
           (fold (\<lambda>f w. snd (send vec_write_all (encode f) w)) fs []) = Some (fs, None)"
proof -
  have "fold (\<lambda>f w. snd (send vec_write_all (encode f) w)) fs [] = concat (map encode fs) @ []"
    using vec.sends_append [of fs "[]"] by simp
  then show ?thesis
    using cursor.recv_all_encode [OF assms, of _ "[]" 1]
    by (auto simp: cursor_recv_short)
qed

theorem stream_delivery_witness:
  "recv_all 3 cursor_read_exact
     (fold (\<lambda>f w. snd (send vec_write_all (encode f) w))
        [frame_data 7 [0x68, 0x69], frame_resize 7 24 80] []) =
   Some ([frame_data 7 [0x68, 0x69], frame_resize 7 24 80], None)"
  using stream_delivery [of "[frame_data 7 [0x68, 0x69], frame_resize 7 24 80]"]
  by (simp add: wf_frame_def frame_data_def frame_resize_def numeral_3_eq_3 del: recv_all.simps)

text \<open>
  C23. No input makes a decoder index out of range: not a WebSocket message, not a byte stream,
  and not a direct call of \<open>Frame::from_payload\<close> with a payload that no header check has seen.
\<close>

theorem decoders_never_panic:
  "frame_from_ws_payload d \<noteq> Inl Panic \<and>
   fst (recv cursor_read_exact s) \<noteq> Inl Panic \<and>
   from_payload sid ty p \<noteq> Inl Panic"
  by (simp add: ws_payload_no_panic cursor_recv_no_panic from_payload_no_panic)

text \<open>
  A header that passes \<open>Frame::validate_header\<close> declares at most 1 MiB + 4 bytes, which is
  what a reader allocates, and its stream is 0 exactly for the link-level frame types.
\<close>

theorem header_bounds:
  assumes "validate_header sid b len = Inr (ty, l)"
  shows "l = len \<and> b = ty_u8 ty \<and> unat len \<le> 1024 * 1024 + 4 \<and>
    (sid = CONTROL_STREAM \<longleftrightarrow> ty \<in> {FtPing, FtPong, FtHello, FtListSessions, FtSessionList,
      FtKillSession, FtKillSessionAck})"
  using assms hdr_arm_bound [of ty sid len] hdr_arm_stream [of ty sid len]
  by (auto simp: validate_header_iff)

theorem header_bounds_witness:
  "validate_header 5 8 1048580 = Inr (FtPasteChunk, 1048580) \<and> unat (1048580 :: u32) \<le> 1024 * 1024 + 4"
proof -
  have "validate_header 5 8 1048580 = Inr (FtPasteChunk, 1048580)"
    by (simp add: validate_header_def from_u8_def hdr_defs)
  from header_bounds [OF this] this show ?thesis by simp
qed

text \<open>
  A \<open>PasteBegin\<close> with any UTF-8 name survives the wire: the receiver gets the longest prefix of
  the name that ends on a character boundary and fits 255 bytes; nothing is lost from a name
  that fits, and at most three bytes below the limit from one that does not.
\<close>

theorem paste_begin_name_on_the_wire:
  assumes "sid \<noteq> 0" "tot \<le> MAX_PASTE_TOTAL_BYTES" "gs \<noteq> 0" "utf8_valid name"
  shows "\<exists>k n. frame_from_ws_payload (encode (frame_paste_begin sid pid tot gid gs name)) =
      Inr (frame_paste_begin sid pid tot gid gs (take k name), n) \<and>
    utf8_valid (take k name) \<and> k \<le> 255 \<and> min (length name) 252 \<le> k \<and>
    (length name \<le> 255 \<longrightarrow> take k name = name)"
proof -
  let ?f = "frame_paste_begin sid pid tot gid gs (take (name_cut name) name)"
  have "encode (frame_paste_begin sid pid tot gid gs name) = encode ?f"
    using enc_paste_begin_cut [of pid tot gid gs name]
    by (simp add: encode_def frame_paste_begin_def ty_of_def)
  then show ?thesis
    using wf_paste_begin_cut [OF assms] assms(4) name_cut_le(1) [of name]
    by (intro exI [of _ "name_cut name"]) (auto simp: ws_payload_iff name_cut_valid name_cut_ge)
qed

theorem paste_begin_name_on_the_wire_witness:
  "\<exists>k n. frame_from_ws_payload (encode (frame_paste_begin 1 2 3 4 1 (replicate 300 0x61))) =
      Inr (frame_paste_begin 1 2 3 4 1 (take k (replicate 300 0x61)), n) \<and>
    utf8_valid (take k (replicate 300 (0x61 :: u8))) \<and> k \<le> 255 \<and> 252 \<le> k"
proof -
  have "utf8_valid (replicate 300 0x61)" by (rule utf8_valid_ascii) simp
  from paste_begin_name_on_the_wire [OF _ _ _ this, of 1 3 1 2 4] show ?thesis by auto
qed

text \<open>
  The single-copy fast path \<open>encode_download_chunk\<close> produces the bytes of the general encoder,
  for every chunk (also one too large to be accepted).
\<close>

theorem encode_download_chunk_is_encode:
  "encode_download_chunk sid i bs = encode (frame_download_chunk sid i bs)"
  by (rule encode_download_chunk_eq)

text \<open>
  A byte stream cut anywhere inside a frame header ends the connection as a clean close; cut
  inside the payload it is an I/O error.
\<close>

theorem truncated_stream:
  assumes "wf_frame f" "k < length (encode f)"
  shows "fst (recv cursor_read_exact (take k (encode f))) =
    (if k < HEADER_LEN then Inr None else Inl (Err (Io UnexpectedEof)))"
proof (cases "k < 9")
  case True
  then show ?thesis by (simp add: cursor_recv_short)
next
  case False
  let ?p = "encode_payload (fbody f)"
  have len: "unat (len_u32 ?p) = length ?p" "k - 9 < length ?p"
    using wf_header_len [OF assms(1)] assms(2) False by (simp_all add: length_encode)
  have "take k (encode f) = be32 (fstream f) @ ty_u8 (body_ty (fbody f)) #
      be32 (len_u32 ?p) @ take (k - 9) ?p"
    using False by (simp add: encode_fields take_Cons' numeral_eq_Suc)
  moreover have "validate_header (fstream f) (ty_u8 (body_ty (fbody f))) (len_u32 ?p) =
      Inr (body_ty (fbody f), len_u32 ?p)"
    using codec_complete(1) [of "fstream f" "fbody f"] assms(1)
    by (simp add: validate_header_iff wf_frame_def)
  moreover have "0 < len_u32 ?p" using len by (metis gr_implies_not0 unat_0 word_gt_0)
  ultimately show ?thesis
    using False len by (simp add: recv_def cursor_read_exact_def header_fields_be recv_body_def)
qed

theorem truncated_stream_witness:
  "fst (recv cursor_read_exact (take 5 (encode (frame_data 7 [0x68, 0x69])))) = Inr None"
  using truncated_stream [of "frame_data 7 [0x68, 0x69]" 5]
  by (simp add: wf_frame_def frame_data_def length_encode)

end
