(* ===== verification/Seg_Scanner.thy ===== *)
theory Seg_Scanner
  imports Term_Prelude
begin

text \<open>
  Byte scanners that sit on the terminal output. The agent has two: the OSC scanner of
  \<open>common/src/osc.rs\<close> and, on Windows, the cursor-query scanner of \<open>agent/src/pty.rs\<close>. Both loop
  over a chunk, push bytes to an output and values to a second list, and carry their state to the
  next chunk. \<open>feed_with\<close> is that loop for an arbitrary step function, and the locale
  \<open>seg_scanner\<close> states what it means for the step function to implement a grammar of segments: one
  byte either extends the unfinished segment or completes it. The theorems of the two scanners are
  interpretations of it.
\<close>

fun feed_with :: "('s \<Rightarrow> u8 \<Rightarrow> 's \<times> bytes \<times> 'c list) \<Rightarrow> 's \<Rightarrow> bytes \<Rightarrow> 's \<times> bytes \<times> 'c list" where
  "feed_with f s [] = (s, [], [])"
| "feed_with f s (b # input) =
     (let (s1, out1, cap1) = f s b; (s2, out2, cap2) = feed_with f s1 input
      in (s2, out1 @ out2, cap1 @ cap2))"

lemma feed_with_append:
  "feed_with f s (xs @ ys) =
     (let (s1, out1, cap1) = feed_with f s xs; (s2, out2, cap2) = feed_with f s1 ys
      in (s2, out1 @ out2, cap1 @ cap2))"
  by (induction xs arbitrary: s) (auto simp: Let_def split: prod.splits)

fun feeds_with ::
    "('s \<Rightarrow> u8 \<Rightarrow> 's \<times> bytes \<times> 'c list) \<Rightarrow> 's \<Rightarrow> bytes list \<Rightarrow> 's \<times> bytes \<times> 'c list" where
  "feeds_with f s [] = (s, [], [])"
| "feeds_with f s (c # cs) =
     (let (s1, out1, cap1) = feed_with f s c; (s2, out2, cap2) = feeds_with f s1 cs
      in (s2, out1 @ out2, cap1 @ cap2))"

lemma feeds_with_concat: "feeds_with f s cs = feed_with f s (concat cs)"
  by (induction cs arbitrary: s) (auto simp: feed_with_append Let_def split: prod.splits)

locale seg_scanner =
  fixes step :: "'s \<Rightarrow> u8 \<Rightarrow> 's \<times> bytes \<times> 'c list"
    and inv :: "'s \<Rightarrow> bool"
    and pending :: "'s \<Rightarrow> bytes \<Rightarrow> bool"
    and gok :: "'g \<Rightarrow> bool"
    and raw :: "'g \<Rightarrow> bytes"
    and outp :: "'g \<Rightarrow> bytes"
    and capt :: "'g \<Rightarrow> 'c list"
  assumes step_inv: "inv s \<Longrightarrow> inv (fst (step s b))"
    and step_seg: "inv s \<Longrightarrow> pending s p \<Longrightarrow> step s b = (s', out, caps) \<Longrightarrow>
      (out = [] \<and> caps = [] \<and> pending s' (p @ [b])) \<or>
      (\<exists>g. gok g \<and> p @ [b] = raw g \<and> out = outp g \<and> caps = capt g \<and> pending s' [])"
begin

lemma feed_inv: "inv s \<Longrightarrow> inv (fst (feed_with step s xs))"
proof (induction xs arbitrary: s)
  case (Cons b xs)
  then have "inv (fst (feed_with step (fst (step s b)) xs))" by (simp add: step_inv)
  then show ?case by (simp add: Let_def split_beta)
qed simp

lemma feed_seg:
  assumes "inv s" "pending s p" "feed_with step s xs = (s', out, caps)"
  shows "\<exists>gs p'. list_all gok gs \<and> p @ xs = concat (map raw gs) @ p' \<and> pending s' p' \<and>
    out = concat (map outp gs) \<and> caps = concat (map capt gs)"
  using assms
proof (induction xs arbitrary: s p out caps)
  case Nil
  then show ?case by (intro exI [of _ "[]"] exI [of _ p]) auto
next
  case (Cons b xs)
  obtain s1 out1 cap1 where 1: "step s b = (s1, out1, cap1)" by (cases "step s b") auto
  obtain out2 cap2 where 2: "feed_with step s1 xs = (s', out2, cap2)" "out = out1 @ out2"
    "caps = cap1 @ cap2"
    using Cons.prems(3) 1 by (auto simp: Let_def split: prod.splits)
  have ok: "inv s1" using step_inv [OF Cons.prems(1), of b] 1 by simp
  from step_seg [OF Cons.prems(1,2) 1] show ?case
  proof (elim disjE exE conjE)
    assume "out1 = []" "cap1 = []" "pending s1 (p @ [b])"
    with Cons.IH [OF ok _ 2(1)] 2 show ?thesis by fastforce
  next
    fix g assume g: "gok g" "p @ [b] = raw g" "out1 = outp g" "cap1 = capt g" "pending s1 []"
    obtain gs p' where "list_all gok gs" "xs = concat (map raw gs) @ p'" "pending s' p'"
      "out2 = concat (map outp gs)" "cap2 = concat (map capt gs)"
      using Cons.IH [OF ok g(5) 2(1)] by auto
    moreover have "p @ b # xs = raw g @ xs" by (simp add: g(2) [symmetric])
    ultimately show ?thesis
      using g 2 by (intro exI [of _ "g # gs"] exI [of _ p']) simp
  qed
qed

text \<open>From a state that holds nothing, the input is a list of complete segments and a rest.\<close>

lemma feed_grammar:
  assumes "inv s" "pending s []"
  shows "\<exists>gs p. list_all gok gs \<and> xs = concat (map raw gs) @ p \<and>
     pending (fst (feed_with step s xs)) p \<and>
     fst (snd (feed_with step s xs)) = concat (map outp gs) \<and>
     snd (snd (feed_with step s xs)) = concat (map capt gs)"
  using feed_seg [OF assms, of xs "fst (feed_with step s xs)"] by simp

end

end
