(* ===== verification/Osc_Scanner.thy ===== *)
theory Osc_Scanner
  imports Seg_Scanner
begin

text \<open>
  The OSC scanner of \<open>common/src/osc.rs\<close>, which sits on the PTY output: it forwards every byte
  except application-private \<open>OSC 5111\<close> sequences, which it hands to the agent, and over-long
  OSCs, which it drops.

  \<open>feed_byte\<close> is one iteration of the loop of \<open>OscScanner::feed\<close>. The lemmas relate the scanner
  to a grammar of segments (\<open>seg\<close>): the input is cut into plain bytes, two-byte escapes, foreign
  OSCs, private OSCs and over-long OSCs, and the outputs are read off that list.
\<close>

section \<open>The scanner\<close>

definition MAX_OSC_LEN :: nat where "MAX_OSC_LEN = 64 * 1024"
definition ESC :: u8 where "ESC = 0x1b"
definition BEL :: u8 where "BEL = 0x07"

datatype osc_state = Normal | Esc | Osc | OscEsc | OscOverflow | OscOverflowEsc

datatype osc_term = TBel | TSt

record scanner =
  ostate :: osc_state
  obuf :: bytes

definition scanner_new :: scanner where
  "scanner_new = \<lparr>ostate = Normal, obuf = []\<rparr>"

definition scanner_reset :: "scanner \<Rightarrow> scanner" where
  "scanner_reset s = s\<lparr>ostate := Normal, obuf := []\<rparr>"

text \<open>\<open>split(|b| b == ';').next()\<close>\<close>

definition osc_prefix :: "bytes \<Rightarrow> bytes" where
  "osc_prefix buf = takeWhile (\<lambda>b. b \<noteq> 0x3B) buf"

definition finish_osc :: "osc_term \<Rightarrow> scanner \<Rightarrow> scanner \<times> bytes \<times> bytes list" where
  "finish_osc t s =
     (let (out, captured) =
        (if osc_prefix (obuf s) = [0x35, 0x31, 0x31, 0x31]
         then ([], [if length (obuf s) > 5 then drop 5 (obuf s) else []])
         else ([ESC, 0x5D] @ obuf s @ (case t of TBel \<Rightarrow> [BEL] | TSt \<Rightarrow> [ESC, 0x5C]), []))
      in (s\<lparr>obuf := [], ostate := Normal\<rparr>, out, captured))"

definition feed_byte :: "scanner \<Rightarrow> u8 \<Rightarrow> scanner \<times> bytes \<times> bytes list" where
  "feed_byte s b =
     (case ostate s of
        Normal \<Rightarrow>
          if b = ESC then (s\<lparr>ostate := Esc\<rparr>, [], []) else (s, [b], [])
      | Esc \<Rightarrow>
          if b = 0x5D then (s\<lparr>ostate := Osc, obuf := []\<rparr>, [], [])
          else (s\<lparr>ostate := Normal\<rparr>, [ESC, b], [])
      | Osc \<Rightarrow>
          if b = BEL then finish_osc TBel s
          else if b = ESC then (s\<lparr>ostate := OscEsc\<rparr>, [], [])
          else if length (obuf s) < MAX_OSC_LEN then (s\<lparr>obuf := obuf s @ [b]\<rparr>, [], [])
          else (s\<lparr>obuf := [], ostate := OscOverflow\<rparr>, [], [])
      | OscEsc \<Rightarrow>
          if b = 0x5C then finish_osc TSt s
          else if length (obuf s) + 2 \<le> MAX_OSC_LEN
            then (s\<lparr>obuf := obuf s @ [ESC, b], ostate := Osc\<rparr>, [], [])
          else (s\<lparr>obuf := [], ostate := OscOverflow\<rparr>, [], [])
      | OscOverflow \<Rightarrow>
          if b = BEL then (s\<lparr>ostate := Normal\<rparr>, [], [])
          else if b = ESC then (s\<lparr>ostate := OscOverflowEsc\<rparr>, [], [])
          else (s, [], [])
      | OscOverflowEsc \<Rightarrow>
          if b = 0x5C then (s\<lparr>ostate := Normal\<rparr>, [], [])
          else if b = ESC then (s, [], [])
          else (s\<lparr>ostate := OscOverflow\<rparr>, [], []))"

fun feed :: "scanner \<Rightarrow> bytes \<Rightarrow> scanner \<times> bytes \<times> bytes list" where
  "feed s [] = (s, [], [])"
| "feed s (b # input) =
     (let (s1, out1, cap1) = feed_byte s b; (s2, out2, cap2) = feed s1 input
      in (s2, out1 @ out2, cap1 @ cap2))"

section \<open>Feeding in pieces\<close>

lemma feed_is_feed_with: "feed s xs = feed_with feed_byte s xs"
  by (induction xs arbitrary: s) simp_all

lemma feed_append:
  "feed s (xs @ ys) =
     (let (s1, out1, cap1) = feed s xs; (s2, out2, cap2) = feed s1 ys
      in (s2, out1 @ out2, cap1 @ cap2))"
  by (simp only: feed_is_feed_with feed_with_append)

fun feeds :: "scanner \<Rightarrow> bytes list \<Rightarrow> scanner \<times> bytes \<times> bytes list" where
  "feeds s [] = (s, [], [])"
| "feeds s (c # cs) =
     (let (s1, out1, cap1) = feed s c; (s2, out2, cap2) = feeds s1 cs
      in (s2, out1 @ out2, cap1 @ cap2))"

lemma feeds_concat: "feeds s cs = feed s (concat cs)"
proof -
  have "feeds s cs = feeds_with feed_byte s cs"
    by (induction cs arbitrary: s) (simp_all add: feed_is_feed_with)
  then show ?thesis by (simp only: feeds_with_concat feed_is_feed_with)
qed

section \<open>The grammar\<close>

datatype seg =
    Plain u8
  | Escape u8
  | Foreign bytes osc_term
  | Private bytes osc_term
  | Oversize bytes osc_term

fun term_bytes :: "osc_term \<Rightarrow> bytes" where
  "term_bytes TBel = [BEL]"
| "term_bytes TSt = [ESC, 0x5C]"

definition osc_bytes :: "bytes \<Rightarrow> osc_term \<Rightarrow> bytes" where
  "osc_bytes body t = [ESC, 0x5D] @ body @ term_bytes t"

text \<open>
  A body has no terminator of its own: no \<open>BEL\<close> and no \<open>ESC \\<close>, where an \<open>ESC\<close> takes the next byte
  with it. Past the length limit the scanner no longer pairs an \<open>ESC\<close> with the byte after it, so
  the rest of an over-long body is read by the two-state automaton \<open>ovf_step\<close>.
\<close>

fun body_ok :: "bytes \<Rightarrow> bool" where
  "body_ok [] = True"
| "body_ok [b] = (b \<noteq> BEL \<and> b \<noteq> ESC)"
| "body_ok (b # c # bs) =
     (if b = ESC then c \<noteq> 0x5C \<and> body_ok bs else b \<noteq> BEL \<and> body_ok (c # bs))"

fun ovf_step :: "bool option \<Rightarrow> u8 \<Rightarrow> bool option" where
  "ovf_step None b = None"
| "ovf_step (Some False) b = (if b = BEL then None else Some (b = ESC))"
| "ovf_step (Some True) b = (if b = 0x5C then None else Some (b = ESC))"

definition ovf_body :: "bytes \<Rightarrow> bool \<Rightarrow> bool" where
  "ovf_body body esc \<longleftrightarrow>
     (\<exists>b1 b2. body = b1 @ b2 \<and> body_ok b1 \<and> MAX_OSC_LEN < length b1 \<and>
        foldl ovf_step (Some False) b2 = Some esc)"

fun seg_raw :: "seg \<Rightarrow> bytes" where
  "seg_raw (Plain b) = [b]"
| "seg_raw (Escape b) = [ESC, b]"
| "seg_raw (Foreign body t) = osc_bytes body t"
| "seg_raw (Private body t) = osc_bytes body t"
| "seg_raw (Oversize body t) = osc_bytes body t"

fun seg_ok :: "seg \<Rightarrow> bool" where
  "seg_ok (Plain b) \<longleftrightarrow> b \<noteq> ESC"
| "seg_ok (Escape b) \<longleftrightarrow> b \<noteq> 0x5D"
| "seg_ok (Foreign body t) \<longleftrightarrow>
     osc_prefix body \<noteq> bstr ''5111'' \<and> body_ok body \<and> length body \<le> MAX_OSC_LEN"
| "seg_ok (Private body t) \<longleftrightarrow>
     osc_prefix body = bstr ''5111'' \<and> body_ok body \<and> length body \<le> MAX_OSC_LEN"
| "seg_ok (Oversize body TBel) \<longleftrightarrow> ovf_body body False"
| "seg_ok (Oversize body TSt) \<longleftrightarrow> ovf_body body False \<or> ovf_body body True"

fun seg_out :: "seg \<Rightarrow> bytes" where
  "seg_out (Private _ _) = []"
| "seg_out (Oversize _ _) = []"
| "seg_out s = seg_raw s"

fun seg_cap :: "seg \<Rightarrow> bytes list" where
  "seg_cap (Private body _) = [drop 5 body]"
| "seg_cap _ = []"

text \<open>The bytes of an unfinished segment that a scanner may be holding.\<close>

definition pending_seg :: "scanner \<Rightarrow> bytes \<Rightarrow> bool" where
  "pending_seg s p =
     (case ostate s of
        Normal \<Rightarrow> p = []
      | Esc \<Rightarrow> p = [ESC]
      | Osc \<Rightarrow> p = [ESC, 0x5D] @ obuf s \<and> body_ok (obuf s)
      | OscEsc \<Rightarrow> p = [ESC, 0x5D] @ obuf s @ [ESC] \<and> body_ok (obuf s)
      | OscOverflow \<Rightarrow> (\<exists>body. p = [ESC, 0x5D] @ body \<and> ovf_body body False)
      | OscOverflowEsc \<Rightarrow>
          (\<exists>body esc. p = [ESC, 0x5D] @ body @ [ESC] \<and> ovf_body body esc))"

definition scanner_ok :: "scanner \<Rightarrow> bool" where
  "scanner_ok s \<longleftrightarrow> length (obuf s) \<le> MAX_OSC_LEN"

lemma feed_byte_ok: "scanner_ok s \<Longrightarrow> scanner_ok (fst (feed_byte s b))"
  by (auto simp: scanner_ok_def feed_byte_def finish_osc_def Let_def split: osc_state.splits)

lemma bstr_5111: "bstr ''5111'' = [0x35, 0x31, 0x31, 0x31]"
  by (simp add: bstr_def of_char_def)

lemma body_ok_snoc: "body_ok xs \<Longrightarrow> b \<noteq> BEL \<Longrightarrow> b \<noteq> ESC \<Longrightarrow> body_ok (xs @ [b])"
  by (induction xs rule: body_ok.induct) (auto split: if_splits)

lemma body_ok_snoc_esc: "body_ok xs \<Longrightarrow> b \<noteq> 0x5C \<Longrightarrow> body_ok (xs @ [ESC, b])"
  by (induction xs rule: body_ok.induct) (auto split: if_splits)

lemma ovf_body_start: "body_ok body \<Longrightarrow> MAX_OSC_LEN < length body \<Longrightarrow> ovf_body body False"
  unfolding ovf_body_def by (rule exI [of _ body], rule exI [of _ "[]"]) simp

lemma ovf_body_snoc: "ovf_body body esc \<Longrightarrow> ovf_step (Some esc) b = Some esc' \<Longrightarrow> ovf_body (body @ [b]) esc'"
proof -
  assume "ovf_body body esc" and b: "ovf_step (Some esc) b = Some esc'"
  then obtain b1 b2 where "body = b1 @ b2" "body_ok b1" "MAX_OSC_LEN < length b1"
    "foldl ovf_step (Some False) b2 = Some esc"
    unfolding ovf_body_def by blast
  with b show ?thesis
    unfolding ovf_body_def by (intro exI [of _ b1] exI [of _ "b2 @ [b]"]) simp
qed

lemma finish_osc_seg:
  assumes "length (obuf s) \<le> MAX_OSC_LEN" "body_ok (obuf s)"
  shows "\<exists>g. finish_osc t s = (s\<lparr>obuf := [], ostate := Normal\<rparr>, seg_out g, seg_cap g) \<and>
    seg_ok g \<and> seg_raw g = osc_bytes (obuf s) t"
proof (cases "osc_prefix (obuf s) = bstr ''5111''")
  case True
  then show ?thesis
    using assms by (intro exI [of _ "Private (obuf s) t"]) (simp add: finish_osc_def bstr_5111)
next
  case False
  then show ?thesis
    using assms
    by (intro exI [of _ "Foreign (obuf s) t"])
      (cases t, simp_all add: finish_osc_def bstr_5111 osc_bytes_def)
qed

text \<open>One byte either extends the unfinished segment or completes it.\<close>

lemma feed_byte_seg:
  assumes ok: "scanner_ok s" and p: "pending_seg s p" and f: "feed_byte s b = (s', out, caps)"
  shows "(out = [] \<and> caps = [] \<and> pending_seg s' (p @ [b])) \<or>
    (\<exists>g. seg_ok g \<and> p @ [b] = seg_raw g \<and> out = seg_out g \<and> caps = seg_cap g \<and> pending_seg s' [])"
proof -
  have len: "length (obuf s) \<le> MAX_OSC_LEN" using ok by (simp add: scanner_ok_def)
  show ?thesis
  proof (cases "ostate s")
    case Normal
    with p f show ?thesis
      by (cases "b = ESC") (auto simp: feed_byte_def pending_seg_def intro: exI [of _ "Plain b"])
  next
    case Esc
    with p f show ?thesis
      by (cases "b = 0x5D") (auto simp: feed_byte_def pending_seg_def intro: exI [of _ "Escape b"])
  next
    case Osc
    with p have bo: "body_ok (obuf s)" by (simp add: pending_seg_def)
    from Osc p f finish_osc_seg [OF len bo, of TBel] body_ok_snoc [OF bo, of b] show ?thesis
      by (auto simp: feed_byte_def osc_bytes_def pending_seg_def split: if_splits
          intro!: ovf_body_start)
  next
    case OscEsc
    with p have bo: "body_ok (obuf s)" by (simp add: pending_seg_def)
    from OscEsc p f finish_osc_seg [OF len bo, of TSt] body_ok_snoc_esc [OF bo, of b] show ?thesis
      by (auto simp: feed_byte_def osc_bytes_def pending_seg_def split: if_splits
          intro!: ovf_body_start)
  next
    case OscOverflow
    then obtain body where body: "p = [ESC, 0x5D] @ body" "ovf_body body False"
      using p by (auto simp: pending_seg_def)
    with OscOverflow f ovf_body_snoc [OF body(2), of b False] show ?thesis
      by (auto simp: feed_byte_def osc_bytes_def pending_seg_def split: if_splits
          intro!: exI [of _ "Oversize body TBel"])
  next
    case OscOverflowEsc
    then obtain body esc where body: "p = [ESC, 0x5D] @ body @ [ESC]" "ovf_body body esc"
      using p by (auto simp: pending_seg_def)
    show ?thesis
    proof (cases "b = 0x5C")
      case True
      have "seg_ok (Oversize body TSt)" using body(2) by (cases esc) auto
      with True OscOverflowEsc f body(1) show ?thesis
        by (auto simp: feed_byte_def osc_bytes_def pending_seg_def
            intro!: exI [of _ "Oversize body TSt"])
    next
      case False
      have "ovf_body (body @ [ESC]) True"
        by (rule ovf_body_snoc [OF body(2)]) (cases esc, simp_all add: ESC_def BEL_def)
      from this ovf_body_snoc [OF this, of b False] False OscOverflowEsc f body(1) show ?thesis
        by (auto simp: feed_byte_def pending_seg_def split: if_splits)
    qed
  qed
qed

interpretation osc: seg_scanner feed_byte scanner_ok pending_seg seg_ok seg_raw seg_out seg_cap
  by unfold_locales (simp add: feed_byte_ok, rule feed_byte_seg)

lemmas feed_ok = osc.feed_inv [folded feed_is_feed_with]

section \<open>Clean sequences\<close>

text \<open>A byte that can stand in an OSC payload without ending it or escaping anything.\<close>

definition osc_clean :: "u8 \<Rightarrow> bool" where
  "osc_clean b \<longleftrightarrow> b \<noteq> BEL \<and> b \<noteq> ESC"

lemma feed_plain:
  "ostate s = Normal \<Longrightarrow> list_all (\<lambda>b. b \<noteq> ESC) xs \<Longrightarrow> feed s xs = (s, xs, [])"
  by (induction xs) (auto simp: feed_byte_def)

lemma feed_clean:
  "ostate s = Osc \<Longrightarrow> list_all osc_clean xs \<Longrightarrow> length (obuf s) + length xs \<le> MAX_OSC_LEN \<Longrightarrow>
     feed s xs = (s\<lparr>obuf := obuf s @ xs\<rparr>, [], [])"
  by (induction xs arbitrary: s) (auto simp: feed_byte_def osc_clean_def)

lemma feed_osc_bel:
  assumes "ostate s = Normal" "list_all osc_clean body" "length body \<le> MAX_OSC_LEN"
  shows "feed s ([ESC, 0x5D] @ body @ [BEL]) = finish_osc TBel \<lparr>ostate = Osc, obuf = body\<rparr>"
proof -
  have "feed s [ESC, 0x5D] = (\<lparr>ostate = Osc, obuf = []\<rparr>, [], [])"
    using assms(1) by (cases s) (simp add: feed_byte_def)
  moreover have "feed \<lparr>ostate = Osc, obuf = []\<rparr> body = (\<lparr>ostate = Osc, obuf = body\<rparr>, [], [])"
    using feed_clean [of "\<lparr>ostate = Osc, obuf = []\<rparr>" body] assms(2,3) by simp
  moreover have "feed \<lparr>ostate = Osc, obuf = body\<rparr> [BEL] = finish_osc TBel \<lparr>ostate = Osc, obuf = body\<rparr>"
    by (simp add: feed_byte_def split_beta Let_def prod_eq_iff)
  ultimately show ?thesis
    by (simp add: feed_append [of s "[ESC, 0x5D]" "body @ [BEL]", simplified] feed_append Let_def split_beta)
qed

lemma feed_private:
  assumes "ostate s = Normal" "list_all osc_clean pay" "length pay + 5 \<le> MAX_OSC_LEN"
  shows "feed s ([ESC, 0x5D] @ bstr ''5111;'' @ pay @ [BEL]) =
    (\<lparr>ostate = Normal, obuf = []\<rparr>, [], [pay])"
proof -
  have b: "bstr ''5111;'' = [0x35, 0x31, 0x31, 0x31, 0x3B]"
    by (simp add: bstr_def of_char_def)
  have "list_all osc_clean (bstr ''5111;'' @ pay)" "length (bstr ''5111;'' @ pay) \<le> MAX_OSC_LEN"
    using assms(2,3) by (simp_all add: b osc_clean_def BEL_def ESC_def)
  from feed_osc_bel [OF assms(1) this] show ?thesis
    by (simp add: b finish_osc_def osc_prefix_def)
qed

section \<open>Properties\<close>

text \<open>
  How the PTY output is cut into reads does not matter: feeding it chunk by chunk leaves the
  scanner in the same state and yields the same forwarded bytes and captured payloads as feeding it
  at once.
\<close>

theorem feed_chunking: "feeds s cs = feed s (concat cs)"
  by (rule feeds_concat)

text \<open>
  C24. The scanner, from its start, implements the segment grammar: the output seen so far is a
  list of complete segments and an unfinished rest; plain bytes, other escapes and foreign OSCs
  are forwarded verbatim and in order, private OSCs are captured without their framing, and only
  OSCs longer than \<open>MAX_OSC_LEN\<close> are lost.
\<close>

theorem scanner_refines_grammar:
  "\<exists>gs p. list_all seg_ok gs \<and> xs = concat (map seg_raw gs) @ p \<and>
     pending_seg (fst (feed scanner_new xs)) p \<and>
     fst (snd (feed scanner_new xs)) = concat (map seg_out gs) \<and>
     snd (snd (feed scanner_new xs)) = concat (map seg_cap gs)"
  unfolding feed_is_feed_with
  by (rule osc.feed_grammar) (simp_all add: scanner_new_def scanner_ok_def pending_seg_def)

text \<open>
  The scanner buffers at most \<open>MAX_OSC_LEN\<close> bytes, whatever the terminal prints.
\<close>

theorem scanner_buffer_bounded: "length (obuf (fst (feeds scanner_new cs))) \<le> MAX_OSC_LEN"
  using feed_ok [of scanner_new "concat cs"]
  by (simp add: feeds_concat scanner_ok_def scanner_new_def)

text \<open>
  Output without an escape byte is forwarded unchanged, and a private OSC with an ordinary
  payload is captured whole and never reaches the screen.
\<close>

theorem private_osc_captured:
  assumes "list_all (\<lambda>b. b \<noteq> ESC) xs" "list_all osc_clean pay" "length pay + 5 \<le> MAX_OSC_LEN"
  shows "feed scanner_new (xs @ [ESC, 0x5D] @ bstr ''5111;'' @ pay @ [BEL]) = (scanner_new, xs, [pay])"
  using feed_plain [of scanner_new xs] feed_private [of scanner_new pay] assms
  by (simp add: feed_append [of _ xs] Let_def scanner_new_def)

theorem private_osc_captured_witness:
  "feed scanner_new (bstr ''ok'' @ [ESC, 0x5D] @ bstr ''5111;'' @ bstr ''dl;t;/etc'' @ [BEL]) =
     (scanner_new, bstr ''ok'', [bstr ''dl;t;/etc''])"
  by (rule private_osc_captured)
    (simp_all add: bstr_def of_char_def ESC_def BEL_def osc_clean_def MAX_OSC_LEN_def)

end
