(* ===== verification/Agent_Session.thy ===== *)
theory Agent_Session
  imports Wire_Frame Osc_Scanner
begin

text \<open>
  The session manager of \<open>agent/src/session.rs\<close>: the scrollback \<open>ByteRing\<close>, the \<open>Session\<close> with its
  attached streams and its controller, the PTY reader task, the download OSC with its token gate,
  \<open>stream_download\<close>, and the \<open>SessionManager\<close> registry.

  A \<open>Session\<close> is a record of its fields; what it does to the outside (values sent on the two
  tokio broadcast channels, calls on the PTY handle, tasks spawned) is a list of effects that every
  operation returns, in the order the code performs them. Clock readings (\<open>Instant::now()\<close>, as a
  number of milliseconds), the random token, the outcome of spawning the shell and the file system
  are arguments.
\<close>

section \<open>Scrollback\<close>

record byte_ring =
  rbuf :: bytes
  rcap :: nat

definition ring_new :: "nat \<Rightarrow> byte_ring" where
  "ring_new cap = \<lparr>rbuf = [], rcap = cap\<rparr>"

definition ring_extend :: "byte_ring \<Rightarrow> bytes \<Rightarrow> byte_ring" where
  "ring_extend r bs =
     (let buf = rbuf r @ bs in
      if length buf > rcap r
      then let excess = length buf - rcap r in r\<lparr>rbuf := drop excess buf\<rparr>
      else r\<lparr>rbuf := buf\<rparr>)"

definition ring_snapshot :: "byte_ring \<Rightarrow> bytes" where
  "ring_snapshot r = rbuf r"

definition ring_len :: "byte_ring \<Rightarrow> nat" where
  "ring_len r = length (rbuf r)"

text \<open>The last \<open>n\<close> elements of a list.\<close>

definition last_n :: "nat \<Rightarrow> 'a list \<Rightarrow> 'a list" where
  "last_n n xs = drop (length xs - n) xs"

lemma last_n_append: "last_n n (last_n n xs @ ys) = last_n n (xs @ ys)"
  by (cases "length xs \<le> n") (auto simp: last_n_def add.commute)

lemma last_n_suffix: "\<exists>pre. xs = pre @ last_n n xs"
  unfolding last_n_def by (rule exI [of _ "take (length xs - n) xs"]) simp

lemma length_last_n [simp]: "length (last_n n xs) = min (length xs) n"
  by (simp add: last_n_def)

text \<open>
  The contract of a scrollback buffer: what it replays is the tail of what was written to it. The
  client fact is that a run of writes keeps the last \<open>cap\<close> bytes of everything written.
\<close>

locale scrollback_buffer =
  fixes extend :: "'r \<Rightarrow> bytes \<Rightarrow> 'r"
    and snapshot :: "'r \<Rightarrow> bytes"
    and cap :: "'r \<Rightarrow> nat"
  assumes snapshot_extend: "snapshot (extend r bs) = last_n (cap r) (snapshot r @ bs)"
    and cap_extend: "cap (extend r bs) = cap r"
begin

lemma cap_fold: "cap (fold (\<lambda>bs r. extend r bs) cs r) = cap r"
  by (induction cs arbitrary: r) (simp_all add: cap_extend)

lemma snapshot_fold:
  "length (snapshot r) \<le> cap r \<Longrightarrow>
     snapshot (fold (\<lambda>bs r. extend r bs) cs r) = last_n (cap r) (snapshot r @ concat cs)"
proof (induction cs arbitrary: r)
  case Nil
  then show ?case by (simp add: last_n_def)
next
  case (Cons c cs)
  have "length (snapshot (extend r c)) \<le> cap (extend r c)"
    by (simp add: snapshot_extend cap_extend)
  from Cons.IH [OF this] show ?case
    by (simp add: snapshot_extend cap_extend last_n_append)
qed

end

interpretation ring: scrollback_buffer ring_extend ring_snapshot rcap
  by unfold_locales (auto simp: ring_extend_def ring_snapshot_def last_n_def Let_def)

section \<open>Events and effects\<close>

datatype session_event = SData bytes | SControllerChanged stream_id | SClosed

datatype download_event = DlBegin u32 u64 bytes | DlChunk u32 bytes | DlEnd u32 u8

datatype paste_style = Bracketed | PlainStyle

datatype effect =
    Broadcast session_event
  | BroadcastDl download_event
  | PtyResize u16 u16
  | PtyTrySend bytes
  | PtySend bytes
  | PtyKill
  | SpawnDownload bytes

section \<open>Sessions\<close>

record session =
  sess_id :: bytes
  created_at :: nat
  dl_token :: bytes
  paste_style :: paste_style
  next_download_id :: u32
  controller :: "stream_id option"
  last_size :: term_size
  attached :: "(stream_id, term_size) hash_map"
  scrollback :: byte_ring
  last_attached_at :: nat
  exited :: bool
  reader_osc :: scanner

record attach_result =
  ar_scrollback :: bytes
  ar_became_controller :: bool
  ar_current_controller :: "stream_id option"

definition session_spawn ::
    "bytes \<Rightarrow> term_size \<Rightarrow> nat \<Rightarrow> bytes \<Rightarrow> paste_style \<Rightarrow> nat \<Rightarrow> session" where
  "session_spawn sess initial_size scrollback_cap token style now =
     \<lparr>sess_id = sess, created_at = now, dl_token = token, paste_style = style, next_download_id = 1,
      controller = None, last_size = initial_size, attached = [],
      scrollback = ring_new scrollback_cap, last_attached_at = now, exited = False,
      reader_osc = scanner_new\<rparr>"

definition attach ::
    "stream_id \<Rightarrow> term_size \<Rightarrow> nat \<Rightarrow> session \<Rightarrow> session \<times> effect list \<times> attach_result" where
  "attach sid geom now s =
     (let snap = ring_snapshot (scrollback s);
          s1 = s\<lparr>attached := hm_insert sid geom (attached s), last_attached_at := now\<rparr>;
          became = (controller s1 = None);
          s2 = (if became then s1\<lparr>controller := Some sid, last_size := geom\<rparr> else s1);
          effs = (if became then [PtyResize (fst geom) (snd geom), Broadcast (SControllerChanged sid)]
                  else [])
      in (s2, effs, \<lparr>ar_scrollback = snap, ar_became_controller = became,
                     ar_current_controller = controller s2\<rparr>))"

definition detach :: "stream_id \<Rightarrow> nat \<Rightarrow> session \<Rightarrow> session \<times> effect list" where
  "detach sid now s =
     (let s1 = s\<lparr>attached := hm_remove sid (attached s), last_attached_at := now\<rparr>;
          was = (controller s1 = Some sid);
          s2 = (if was then s1\<lparr>controller := None\<rparr> else s1)
      in (s2, if was then [Broadcast (SControllerChanged CONTROLLER_NONE_STREAM_ID)] else []))"

definition write_input_from :: "stream_id \<Rightarrow> bytes \<Rightarrow> session \<Rightarrow> session \<times> effect list" where
  "write_input_from sid bs s =
     (if controller s \<noteq> Some sid then (s, []) else (s, [PtyTrySend bs]))"

definition write_internal :: "bytes \<Rightarrow> session \<Rightarrow> session \<times> effect list" where
  "write_internal bs s = (s, [PtySend bs])"

definition resize_for :: "stream_id \<Rightarrow> u16 \<Rightarrow> u16 \<Rightarrow> session \<Rightarrow> session \<times> effect list" where
  "resize_for sid rows cols s =
     (let s1 = s\<lparr>attached := hm_insert sid (rows, cols) (attached s)\<rparr> in
      if controller s1 \<noteq> Some sid then (s1, [])
      else (s1\<lparr>last_size := (rows, cols)\<rparr>, [PtyResize rows cols]))"

definition acquire_control :: "stream_id \<Rightarrow> session \<Rightarrow> session \<times> effect list \<times> bool" where
  "acquire_control sid s =
     (case hm_get (attached s) sid of
        None \<Rightarrow> (s, [], False)
      | Some geom \<Rightarrow>
          if controller s \<noteq> None then (s, [], False)
          else (s\<lparr>controller := Some sid, last_size := geom\<rparr>,
                [PtyResize (fst geom) (snd geom), Broadcast (SControllerChanged sid)], True))"

definition release_control :: "stream_id \<Rightarrow> session \<Rightarrow> session \<times> effect list \<times> bool" where
  "release_control sid s =
     (if controller s \<noteq> Some sid then (s, [], False)
      else (s\<lparr>controller := None\<rparr>, [Broadcast (SControllerChanged CONTROLLER_NONE_STREAM_ID)], True))"

definition take_control :: "stream_id \<Rightarrow> session \<Rightarrow> session \<times> effect list \<times> bool" where
  "take_control sid s =
     (case hm_get (attached s) sid of
        None \<Rightarrow> (s, [], False)
      | Some geom \<Rightarrow>
          (s\<lparr>controller := Some sid, last_size := geom\<rparr>,
           [PtyResize (fst geom) (snd geom), Broadcast (SControllerChanged sid)], True))"

definition is_controller :: "stream_id \<Rightarrow> session \<Rightarrow> bool" where
  "is_controller sid s \<longleftrightarrow> controller s = Some sid"

definition session_kill :: "session \<Rightarrow> session \<times> effect list" where
  "session_kill s = (s, [PtyKill])"

section \<open>The download OSC and the PTY reader\<close>

definition ct_eq_str :: "bytes \<Rightarrow> bytes \<Rightarrow> bool" where
  "ct_eq_str a b = (if length a \<noteq> length b then False else ct_diff a b = 0)"

text \<open>\<open>iter().position(|b| b == ';')\<close> and the two slices around it.\<close>

fun split_semi :: "bytes \<Rightarrow> (bytes \<times> bytes) option" where
  "split_semi [] = None"
| "split_semi (b # bs) =
     (if b = 0x3B then Some ([], bs)
      else map_option (\<lambda>(l, r). (b # l, r)) (split_semi bs))"

definition parse_dl_osc :: "bytes \<Rightarrow> (bytes \<times> bytes) option" where
  "parse_dl_osc payload =
     (case split_semi payload of
        None \<Rightarrow> None
      | Some (cmd, rest) \<Rightarrow>
          if cmd \<noteq> [0x64, 0x6C] then None
          else (case split_semi rest of
                  None \<Rightarrow> None
                | Some (t, p) \<Rightarrow>
                    (case from_utf8 t of
                       None \<Rightarrow> None
                     | Some token \<Rightarrow> map_option (\<lambda>path. (token, path)) (from_utf8 p))))"

definition dispatch_captured :: "session \<Rightarrow> bytes \<Rightarrow> effect list" where
  "dispatch_captured s payload =
     (case parse_dl_osc payload of
        None \<Rightarrow> []
      | Some (token, path) \<Rightarrow>
          if \<not> ct_eq_str token (dl_token s) then [] else [SpawnDownload path])"

definition reader_chunk :: "bytes \<Rightarrow> session \<Rightarrow> session \<times> effect list" where
  "reader_chunk buf s =
     (let (osc, fwd, captured) = feed (reader_osc s) buf;
          s1 = s\<lparr>reader_osc := osc\<rparr>;
          (s2, effs) = (if fwd \<noteq> []
                        then (s1\<lparr>scrollback := ring_extend (scrollback s1) fwd\<rparr>, [Broadcast (SData fwd)])
                        else (s1, []))
      in (s2, effs @ concat (map (dispatch_captured s2) captured)))"

definition reader_eof :: "session \<Rightarrow> session \<times> effect list" where
  "reader_eof s = (s\<lparr>exited := True\<rparr>, [Broadcast SClosed])"

section \<open>Downloads\<close>

text \<open>
  The file behind a download: whether it opens, its metadata, and the results of the successive
  \<open>read\<close> calls, each with whether the channel still has a receiver when the chunk is sent. When
  the list is exhausted the next read reports the end of the file.
\<close>

record dl_file =
  df_meta :: "(bool \<times> u64) option"
  df_begin_rx :: bool
  df_reads :: "(bytes option \<times> bool) list"

datatype dl_error =
    DlOpen | DlStat | DlNotRegular | DlOverCap u64 | DlRead | DlGrew u64 u64 | DlShrank u64 u64

definition saturating_add64 :: "u64 \<Rightarrow> u64 \<Rightarrow> u64" where
  "saturating_add64 a b = word_of_nat (min (unat a + unat b) (2 ^ 64 - 1))"

fun download_loop ::
    "u32 \<Rightarrow> u64 \<Rightarrow> u64 \<Rightarrow> (bytes option \<times> bool) list
       \<Rightarrow> download_event list \<times> (dl_error + u64 option)" where
  "download_loop i total_size sent [] = ([], Inr (Some sent))"
| "download_loop i total_size sent ((r, rx) # reads) =
     (case r of
        None \<Rightarrow> ([], Inl DlRead)
      | Some buf \<Rightarrow>
          let n = length buf in
          if n = 0 then ([], Inr (Some sent))
          else if saturating_add64 sent (word_of_nat n) > total_size
            then ([], Inl (DlGrew total_size (sent + word_of_nat n)))
          else let sent = saturating_add64 sent (word_of_nat n) in
            if \<not> rx then ([], Inr None)
            else let (evs, res) = download_loop i total_size sent reads in (DlChunk i buf # evs, res))"

definition download_name :: "bytes \<Rightarrow> bytes" where
  "download_name path = (case path_file_name path of None \<Rightarrow> bstr ''download'' | Some n \<Rightarrow> n)"

definition stream_download ::
    "(bytes \<Rightarrow> dl_file option) \<Rightarrow> u32 \<Rightarrow> bytes
       \<Rightarrow> download_event list \<times> (dl_error + unit)" where
  "stream_download open_file i path =
     (case open_file path of
        None \<Rightarrow> ([], Inl DlOpen)
      | Some file \<Rightarrow>
        (case df_meta file of
           None \<Rightarrow> ([], Inl DlStat)
         | Some (is_file, total_size) \<Rightarrow>
             if \<not> is_file then ([], Inl DlNotRegular)
             else if total_size > MAX_PASTE_TOTAL_BYTES then ([], Inl (DlOverCap total_size))
             else if \<not> df_begin_rx file then ([], Inr ())
             else
               let begin_ev = DlBegin i total_size (download_name path);
                   (evs, res) = download_loop i total_size 0 (df_reads file)
               in (case res of
                     Inl e \<Rightarrow> (begin_ev # evs, Inl e)
                   | Inr None \<Rightarrow> (begin_ev # evs, Inr ())
                   | Inr (Some sent) \<Rightarrow>
                       if sent \<noteq> total_size then (begin_ev # evs, Inl (DlShrank total_size sent))
                       else (begin_ev # evs @ [DlEnd i DOWNLOAD_STATUS_OK], Inr ()))))"

text \<open>
  The task spawned for an accepted download OSC, and the line it types into the shell when the
  download fails.
\<close>

fun dl_error_text :: "bytes \<Rightarrow> dl_error \<Rightarrow> bytes" where
  "dl_error_text path DlOpen = bstr ''opening '' @ path"
| "dl_error_text path DlStat = bstr ''stat '' @ path"
| "dl_error_text path DlNotRegular = path @ bstr '' is not a regular file''"
| "dl_error_text path (DlOverCap n) =
     path @ bstr '' is '' @ dec_of_nat (unat n) @ bstr '' bytes; over 4 GiB cap''"
| "dl_error_text path DlRead = bstr ''reading '' @ path"
| "dl_error_text path (DlGrew d n) =
     path @ bstr '' grew during read: declared '' @ dec_of_nat (unat d) @ bstr '', would send '' @
       dec_of_nat (unat n)"
| "dl_error_text path (DlShrank d n) =
     path @ bstr '' shrank during read: declared '' @ dec_of_nat (unat d) @ bstr '', sent '' @
       dec_of_nat (unat n)"

definition download_task ::
    "(bytes \<Rightarrow> dl_file option) \<Rightarrow> bytes \<Rightarrow> session \<Rightarrow> session \<times> effect list" where
  "download_task open_file path s =
     (let i = next_download_id s;
          s1 = s\<lparr>next_download_id := i + 1\<rparr>;
          (evs, res) = stream_download open_file i path
      in (s1, map BroadcastDl evs @
            (case res of
               Inr _ \<Rightarrow> []
             | Inl e \<Rightarrow>
                 [BroadcastDl (DlEnd i DOWNLOAD_STATUS_CANCEL),
                  PtySend ([0x0D] @ bstr ''term-dl: '' @ path @ bstr '': '' @ dl_error_text path e
                    @ [0x0D, 0x0A])])))"

section \<open>Runs of one session\<close>

text \<open>
  The calls other tasks make on a session, and the events of its own reader task. Each critical
  section together with the effects that follow it is one step here; the two parts of an
  operation are separated further below.
\<close>

datatype sess_op =
    OpAttach stream_id term_size nat
  | OpDetach stream_id nat
  | OpInput stream_id bytes
  | OpInternal bytes
  | OpResize stream_id u16 u16
  | OpAcquire stream_id
  | OpRelease stream_id
  | OpTake stream_id
  | OpOutput bytes
  | OpExit
  | OpKill

fun sess_step :: "sess_op \<Rightarrow> session \<Rightarrow> session \<times> effect list" where
  "sess_step (OpAttach sid geom now) s = (let (s', effs, _) = attach sid geom now s in (s', effs))"
| "sess_step (OpDetach sid now) s = detach sid now s"
| "sess_step (OpInput sid bs) s = write_input_from sid bs s"
| "sess_step (OpInternal bs) s = write_internal bs s"
| "sess_step (OpResize sid rows cols) s = resize_for sid rows cols s"
| "sess_step (OpAcquire sid) s = (let (s', effs, _) = acquire_control sid s in (s', effs))"
| "sess_step (OpRelease sid) s = (let (s', effs, _) = release_control sid s in (s', effs))"
| "sess_step (OpTake sid) s = (let (s', effs, _) = take_control sid s in (s', effs))"
| "sess_step (OpOutput buf) s = reader_chunk buf s"
| "sess_step OpExit s = reader_eof s"
| "sess_step OpKill s = session_kill s"

fun sess_run :: "sess_op list \<Rightarrow> session \<Rightarrow> session \<times> effect list" where
  "sess_run [] s = (s, [])"
| "sess_run (a # as) s =
     (let (s1, e1) = sess_step a s; (s2, e2) = sess_run as s1 in (s2, e1 @ e2))"

lemmas sess_defs =
  attach_def detach_def write_input_from_def write_internal_def resize_for_def acquire_control_def
  release_control_def take_control_def session_kill_def reader_chunk_def reader_eof_def

lemma sess_run_append:
  "sess_run (as @ bs) s =
     (let (s1, e1) = sess_run as s; (s2, e2) = sess_run bs s1 in (s2, e1 @ e2))"
  by (induction as arbitrary: s) (auto simp: Let_def split: prod.splits)

lemma sess_run_snoc:
  "sess_run (as @ [a]) s =
     (let (s1, e1) = sess_run as s; (s2, e2) = sess_step a s1 in (s2, e1 @ e2))"
  by (simp add: sess_run_append Let_def split_beta)

subsection \<open>Invariants\<close>

definition sess_inv :: "session \<Rightarrow> bool" where
  "sess_inv s \<longleftrightarrow> hm_ok (attached s) \<and> scanner_ok (reader_osc s) \<and>
     length (ring_snapshot (scrollback s)) \<le> rcap (scrollback s) \<and>
     (\<forall>c. controller s = Some c \<longrightarrow> hm_get (attached s) c \<noteq> None)"

lemma ring_bound:
  "length (ring_snapshot (ring_extend r bs)) \<le> rcap (ring_extend r bs)"
  by (simp add: ring.snapshot_extend ring.cap_extend)

lemma sess_inv_spawn: "sess_inv (session_spawn i geom cap tok style now)"
  by (simp add: sess_inv_def session_spawn_def ring_new_def ring_snapshot_def scanner_new_def
      scanner_ok_def)

lemma sess_inv_step: "sess_inv s \<Longrightarrow> sess_inv (fst (sess_step a s))"
proof (cases a)
  case (OpOutput buf)
  assume "sess_inv s"
  with OpOutput ring_bound feed_ok [of "reader_osc s" buf] show ?thesis
    by (auto simp: sess_inv_def reader_chunk_def Let_def split: prod.splits)
qed (auto simp: sess_inv_def sess_defs Let_def split: option.splits)

lemma sess_inv_run: "sess_inv s \<Longrightarrow> sess_inv (fst (sess_run as s))"
proof (induction as arbitrary: s)
  case (Cons a as)
  from Cons.IH [OF sess_inv_step [OF Cons.prems, of a]] show ?case
    by (simp add: Let_def split_beta)
qed simp

subsection \<open>What a trace says\<close>

fun is_data :: "effect \<Rightarrow> bool" where
  "is_data (Broadcast (SData _)) = True"
| "is_data _ = False"

fun data_of :: "effect list \<Rightarrow> bytes" where
  "data_of [] = []"
| "data_of (Broadcast (SData bs) # es) = bs @ data_of es"
| "data_of (_ # es) = data_of es"

text \<open>The controller the attached browsers were last told about.\<close>

fun announced :: "stream_id option \<Rightarrow> effect list \<Rightarrow> stream_id option" where
  "announced c [] = c"
| "announced c (Broadcast (SControllerChanged n) # es) =
     announced (if n = CONTROLLER_NONE_STREAM_ID then None else Some n) es"
| "announced c (_ # es) = announced c es"

text \<open>The geometry last set on the PTY.\<close>

fun pty_geometry :: "term_size \<Rightarrow> effect list \<Rightarrow> term_size" where
  "pty_geometry g [] = g"
| "pty_geometry g (PtyResize rows cols # es) = pty_geometry (rows, cols) es"
| "pty_geometry g (_ # es) = pty_geometry g es"

fun op_stream_ok :: "sess_op \<Rightarrow> bool" where
  "op_stream_ok (OpAttach sid _ _) = (sid \<noteq> 0)"
| "op_stream_ok (OpAcquire sid) = (sid \<noteq> 0)"
| "op_stream_ok (OpTake sid) = (sid \<noteq> 0)"
| "op_stream_ok _ = True"

fun output_of :: "sess_op list \<Rightarrow> bytes list" where
  "output_of [] = []"
| "output_of (OpOutput buf # as) = buf # output_of as"
| "output_of (_ # as) = output_of as"

lemma data_of_append [simp]: "data_of (es @ fs) = data_of es @ data_of fs"
  by (induction es rule: data_of.induct) simp_all

lemma announced_append [simp]: "announced c (es @ fs) = announced (announced c es) fs"
  by (induction c es rule: announced.induct) simp_all

lemma pty_geometry_append [simp]: "pty_geometry g (es @ fs) = pty_geometry (pty_geometry g es) fs"
  by (induction g es rule: pty_geometry.induct) simp_all

lemma dispatch_captured_cases: "dispatch_captured s p = [] \<or> (\<exists>path. dispatch_captured s p = [SpawnDownload path])"
  by (auto simp: dispatch_captured_def split: option.splits)

lemma dispatch_trace:
  "data_of (concat (map (dispatch_captured s) ps)) = []"
  "announced c (concat (map (dispatch_captured s) ps)) = c"
  "pty_geometry g (concat (map (dispatch_captured s) ps)) = g"
  "filter is_data (concat (map (dispatch_captured s) ps)) = []"
proof (induction ps)
  case (Cons p ps)
  case 1 with Cons dispatch_captured_cases [of s p] show ?case by auto
  case 2 with Cons dispatch_captured_cases [of s p] show ?case by auto
  case 3 with Cons dispatch_captured_cases [of s p] show ?case by auto
  case 4 with Cons dispatch_captured_cases [of s p] show ?case by auto
qed simp_all

lemma step_announced:
  "op_stream_ok a \<Longrightarrow> announced (controller s) (snd (sess_step a s)) = controller (fst (sess_step a s))"
  by (cases a) (auto simp: sess_defs Let_def dispatch_trace split: option.splits prod.splits)

lemma step_geometry:
  "pty_geometry (last_size s) (snd (sess_step a s)) = last_size (fst (sess_step a s))"
  by (cases a) (auto simp: sess_defs Let_def dispatch_trace split: option.splits prod.splits)

lemma reader_chunk_data:
  "data_of (snd (reader_chunk buf s)) = fst (snd (feed (reader_osc s) buf))"
  "reader_osc (fst (reader_chunk buf s)) = fst (feed (reader_osc s) buf)"
  by (auto simp: reader_chunk_def Let_def dispatch_trace split: prod.splits)

lemma step_scrollback:
  assumes "length (ring_snapshot (scrollback s)) \<le> rcap (scrollback s)"
  shows "ring_snapshot (scrollback (fst (sess_step a s))) =
      last_n (rcap (scrollback s)) (ring_snapshot (scrollback s) @ data_of (snd (sess_step a s)))"
    and "rcap (scrollback (fst (sess_step a s))) = rcap (scrollback s)"
  using assms
  by (cases a; auto simp: sess_defs Let_def dispatch_trace ring.snapshot_extend ring.cap_extend last_n_def
      split: option.splits prod.splits)+

lemma run_announced:
  "list_all op_stream_ok as \<Longrightarrow>
     announced (controller s) (snd (sess_run as s)) = controller (fst (sess_run as s))"
proof (induction as arbitrary: s)
  case (Cons a as)
  from Cons.IH [of "fst (sess_step a s)"] Cons.prems step_announced [of a s] show ?case
    by (simp add: Let_def split_beta)
qed simp

lemma run_geometry:
  "pty_geometry (last_size s) (snd (sess_run as s)) = last_size (fst (sess_run as s))"
proof (induction as arbitrary: s)
  case (Cons a as)
  from Cons.IH [of "fst (sess_step a s)"] step_geometry [of s a] show ?case
    by (simp add: Let_def split_beta)
qed simp

lemma step_data:
  "data_of (snd (sess_step a s)) = fst (snd (feeds (reader_osc s) (output_of [a])))"
  "reader_osc (fst (sess_step a s)) = fst (feeds (reader_osc s) (output_of [a]))"
  by (cases a; auto simp: sess_defs Let_def dispatch_trace split: option.splits prod.splits)+

lemma feeds_append:
  "feeds s (cs @ ds) =
     (let (s1, out1, cap1) = feeds s cs; (s2, out2, cap2) = feeds s1 ds
      in (s2, out1 @ out2, cap1 @ cap2))"
  by (simp add: feeds_concat feed_append)

lemma output_of_Cons: "output_of (a # as) = output_of [a] @ output_of as"
  by (cases a) simp_all

lemma run_data:
  "data_of (snd (sess_run as s)) = fst (snd (feeds (reader_osc s) (output_of as)))"
proof (induction as arbitrary: s)
  case (Cons a as)
  from Cons.IH [of "fst (sess_step a s)"] step_data [of a s] show ?case
    by (subst output_of_Cons) (simp add: Let_def split_beta feeds_append)
qed simp

text \<open>The scrollback is the tail of what it held before and of what the scanner forwarded since.\<close>

lemma run_replay:
  assumes "length (ring_snapshot (scrollback s)) \<le> rcap (scrollback s)"
  shows "ring_snapshot (scrollback (fst (sess_run as s))) =
    last_n (rcap (scrollback s)) (ring_snapshot (scrollback s) @ fst (snd (feed (reader_osc s) (concat (output_of as)))))"
proof -
  have "ring_snapshot (scrollback (fst (sess_run as s))) =
      last_n (rcap (scrollback s)) (ring_snapshot (scrollback s) @ data_of (snd (sess_run as s)))"
    using assms
  proof (induction as arbitrary: s)
    case (Cons a as)
    note st = step_scrollback [OF Cons.prems, of a]
    from Cons.IH [of "fst (sess_step a s)"] st show ?case
      by (simp add: Let_def split_beta last_n_append)
  qed (simp add: last_n_def)
  then show ?thesis by (simp add: run_data feeds_concat)
qed

section \<open>Interleavings\<close>

text \<open>
  The operations run as concurrent tasks. Each takes the session lock once; all its effects happen
  after the lock is released, except that the reader sends \<open>Data\<close> while it holds the lock. A
  configuration holds the effects of the operations in flight; a step is a critical section or one
  pending effect of some operation.
\<close>

record conc =
  csess :: session
  cpend :: "effect list list"
  ctrace :: "effect list"

inductive cstep :: "conc \<Rightarrow> conc \<Rightarrow> bool" where
  lock: "sess_step a s = (s', effs) \<Longrightarrow>
    cstep \<lparr>csess = s, cpend = P, ctrace = tr\<rparr>
          \<lparr>csess = s', cpend = filter (\<lambda>e. \<not> is_data e) effs # P, ctrace = tr @ filter is_data effs\<rparr>"
| flush: "cstep \<lparr>csess = s, cpend = P1 @ (e # es) # P2, ctrace = tr\<rparr>
               \<lparr>csess = s, cpend = P1 @ es # P2, ctrace = tr @ [e]\<rparr>"

definition conc_init :: "session \<Rightarrow> conc" where
  "conc_init s = \<lparr>csess = s, cpend = [], ctrace = []\<rparr>"

definition conc_inv :: "conc \<Rightarrow> bool" where
  "conc_inv c \<longleftrightarrow> sess_inv (csess c) \<and> (\<forall>es \<in> set (cpend c). \<forall>e \<in> set es. \<not> is_data e) \<and>
     ring_snapshot (scrollback (csess c)) = last_n (rcap (scrollback (csess c))) (data_of (ctrace c))"

lemma data_of_filter: "data_of (filter is_data es) = data_of es"
  by (induction es rule: data_of.induct) simp_all

lemma data_of_not_data: "\<not> is_data e \<Longrightarrow> data_of [e] = []"
  by (cases "[e]" rule: data_of.cases) simp_all

lemma conc_inv_init: "conc_inv (conc_init (session_spawn i geom cap tok style now))"
  using sess_inv_spawn by (simp add: conc_inv_def conc_init_def session_spawn_def ring_new_def
      ring_snapshot_def last_n_def)

lemma conc_inv_step:
  assumes "conc_inv c" "cstep c c'"
  shows "conc_inv c' \<and> rcap (scrollback (csess c')) = rcap (scrollback (csess c))"
  using assms(2)
proof (cases rule: cstep.cases)
  case (lock a s s' effs P tr)
  have inv: "sess_inv s" using assms(1) lock(1) by (simp add: conc_inv_def)
  then have "length (ring_snapshot (scrollback s)) \<le> rcap (scrollback s)"
    by (simp add: sess_inv_def)
  from step_scrollback [OF this, of a] sess_inv_step [OF inv, of a] assms(1) lock show ?thesis
    by (auto simp: conc_inv_def data_of_filter last_n_append)
next
  case (flush s P1 e es P2 tr)
  then have "\<not> is_data e" using assms(1) by (simp add: conc_inv_def)
  with flush assms(1) show ?thesis by (auto simp: conc_inv_def data_of_not_data)
qed

lemma conc_inv_steps:
  assumes "cstep\<^sup>*\<^sup>* c c'" "conc_inv c"
  shows "conc_inv c' \<and> rcap (scrollback (csess c')) = rcap (scrollback (csess c))"
  using assms by (induction rule: rtranclp_induct) (use conc_inv_step in auto)

lemma cstep_trace: "cstep c c' \<Longrightarrow> \<exists>es. ctrace c' = ctrace c @ es"
  by (erule cstep.cases) auto

lemma csteps_trace: "cstep\<^sup>*\<^sup>* c c' \<Longrightarrow> \<exists>es. ctrace c' = ctrace c @ es"
proof (induction rule: rtranclp_induct)
  case (step c1 c2)
  then show ?case using cstep_trace [of c1 c2] by auto
qed simp

lemma csteps_flush:
  "cstep\<^sup>*\<^sup>* \<lparr>csess = s, cpend = P1 @ es # P2, ctrace = tr\<rparr>
     \<lparr>csess = s, cpend = P1 @ [] # P2, ctrace = tr @ es\<rparr>"
proof (induction es arbitrary: tr)
  case (Cons e es)
  have "cstep \<lparr>csess = s, cpend = P1 @ (e # es) # P2, ctrace = tr\<rparr>
      \<lparr>csess = s, cpend = P1 @ es # P2, ctrace = tr @ [e]\<rparr>"
    by (rule cstep.flush)
  from converse_rtranclp_into_rtranclp [OF this Cons.IH [of "tr @ [e]"]] show ?case by simp
qed simp

section \<open>The registry\<close>

text \<open>
  Sessions are shared (\<open>Arc\<close>): \<open>arena\<close> holds every session ever spawned and the map refers to it by
  index, so that a stream task may still hold a session the map has dropped.
\<close>

record manager =
  arena :: "session list"
  smap :: "(bytes, nat) hash_map"
  max_sessions :: nat
  idle_ttl :: nat
  scrollback_cap :: nat

datatype mgr_error = SessionLimit | SpawnFailed

definition mgr_new :: "nat \<Rightarrow> nat \<Rightarrow> nat \<Rightarrow> manager" where
  "mgr_new maxs ttl cap =
     \<lparr>arena = [], smap = [], max_sessions = maxs, idle_ttl = ttl, scrollback_cap = cap\<rparr>"

text \<open>
  \<open>spawned\<close> is the outcome of starting the shell: the token drawn and the paste style of the shell,
  or \<open>None\<close> when the PTY could not be created.
\<close>

definition lookup_or_spawn ::
    "bytes \<Rightarrow> term_size \<Rightarrow> nat \<Rightarrow> (bytes \<times> paste_style) option \<Rightarrow> manager \<Rightarrow> manager \<times> (mgr_error + nat)" where
  "lookup_or_spawn i initial_size now spawned m =
     (let fresh = (\<lambda>m.
        if length (smap m) \<ge> max_sessions m then (m, Inl SessionLimit)
        else (case spawned of
                None \<Rightarrow> (m, Inl SpawnFailed)
              | Some (tok, style) \<Rightarrow>
                  let s = session_spawn i initial_size (scrollback_cap m) tok style now;
                      h = length (arena m)
                  in (m\<lparr>arena := arena m @ [s], smap := hm_insert i h (smap m)\<rparr>, Inr h)))
      in (case hm_get (smap m) i of
            Some h \<Rightarrow>
              if \<not> exited (arena m ! h) then (m, Inr h)
              else fresh (m\<lparr>smap := hm_remove i (smap m)\<rparr>)
          | None \<Rightarrow> fresh m))"

definition mgr_remove :: "bytes \<Rightarrow> manager \<Rightarrow> manager \<times> nat option" where
  "mgr_remove i m = (m\<lparr>smap := hm_remove i (smap m)\<rparr>, hm_get (smap m) i)"

text \<open>\<open>gc_pass\<close>: the collection under the map lock, then one removal and kill at a time.\<close>

definition gc_due :: "nat \<Rightarrow> nat \<Rightarrow> session \<Rightarrow> bool" where
  "gc_due ttl now s \<longleftrightarrow> exited s \<or> (attached s = [] \<and> now - last_attached_at s > ttl)"

definition gc_collect :: "nat \<Rightarrow> manager \<Rightarrow> (bytes \<times> nat) list" where
  "gc_collect now m = filter (\<lambda>(i, h). gc_due (idle_ttl m) now (arena m ! h)) (smap m)"

definition gc_drop :: "bytes \<times> nat \<Rightarrow> manager \<Rightarrow> manager \<times> (nat \<times> effect) list" where
  "gc_drop d m = (case d of (i, h) \<Rightarrow> (m\<lparr>smap := hm_remove i (smap m)\<rparr>, [(h, PtyKill)]))"

fun gc_drops :: "(bytes \<times> nat) list \<Rightarrow> manager \<Rightarrow> manager \<times> (nat \<times> effect) list" where
  "gc_drops [] m = (m, [])"
| "gc_drops (d # ds) m = (let (m1, e1) = gc_drop d m; (m2, e2) = gc_drops ds m1 in (m2, e1 @ e2))"

definition gc_pass :: "nat \<Rightarrow> manager \<Rightarrow> manager \<times> (nat \<times> effect) list" where
  "gc_pass now m = (let to_drop = gc_collect now m in if to_drop = [] then (m, []) else gc_drops to_drop m)"

definition mgr_inv :: "manager \<Rightarrow> bool" where
  "mgr_inv m \<longleftrightarrow> hm_ok (smap m) \<and> length (smap m) \<le> max_sessions m \<and>
     (\<forall>i h. hm_get (smap m) i = Some h \<longrightarrow> h < length (arena m) \<and> sess_id (arena m ! h) = i)"

lemma mgr_inv_new: "mgr_inv (mgr_new maxs ttl cap)"
  by (simp add: mgr_inv_def mgr_new_def)

lemma mgr_inv_remove: "mgr_inv m \<Longrightarrow> mgr_inv (m\<lparr>smap := hm_remove i (smap m)\<rparr>)"
  using hm_length_remove_le [of i "smap m"] by (auto simp: mgr_inv_def)

lemma mgr_inv_spawn:
  assumes "mgr_inv m" "length (smap m) < max_sessions m" "hm_get (smap m) i = None"
  shows "mgr_inv (m\<lparr>arena := arena m @ [session_spawn i geom cap tok style now],
    smap := hm_insert i (length (arena m)) (smap m)\<rparr>)"
  using assms by (auto simp: mgr_inv_def hm_length_insert nth_append session_spawn_def less_SucI)

lemma mgr_inv_lookup:
  assumes "mgr_inv m"
  shows "mgr_inv (fst (lookup_or_spawn i geom now spawned m))"
proof -
  have rm: "mgr_inv (m\<lparr>smap := hm_remove i (smap m)\<rparr>)"
    by (rule mgr_inv_remove [OF assms])
  show ?thesis
    using assms rm mgr_inv_spawn [OF assms] mgr_inv_spawn [OF rm]
    by (auto simp: lookup_or_spawn_def Let_def not_le split: option.splits)
qed

lemma gc_drops_smap:
  "fst (gc_drops ds m) = m\<lparr>smap := fold (\<lambda>(i, h). hm_remove i) ds (smap m)\<rparr>"
  "snd (gc_drops ds m) = map (\<lambda>(i, h). (h, PtyKill)) ds"
  by (induction ds arbitrary: m) (auto simp: gc_drop_def Let_def split_beta)

lemma mgr_inv_gc_drops: "mgr_inv m \<Longrightarrow> mgr_inv (fst (gc_drops ds m))"
  by (induction ds arbitrary: m) (auto simp: gc_drop_def mgr_inv_remove Let_def split_beta)

lemma mgr_inv_gc: "mgr_inv m \<Longrightarrow> mgr_inv (fst (gc_pass now m))"
  by (simp add: gc_pass_def mgr_inv_gc_drops Let_def)

lemma hm_get_fold_remove:
  "hm_get (fold (\<lambda>(i, h). hm_remove i) ds m) k = (if k \<in> fst ` set ds then None else hm_get m k)"
  by (induction ds arbitrary: m) auto

lemma gc_pass_get:
  assumes "mgr_inv m"
  shows "hm_get (smap (fst (gc_pass now m))) i =
    (case hm_get (smap m) i of
       None \<Rightarrow> None
     | Some h \<Rightarrow> if gc_due (idle_ttl m) now (arena m ! h) then None else Some h)"
proof -
  have ok: "hm_ok (smap m)" using assms by (simp add: mgr_inv_def)
  have "hm_get (smap (fst (gc_pass now m))) i =
      (if i \<in> fst ` set (gc_collect now m) then None else hm_get (smap m) i)"
    by (auto simp: gc_pass_def Let_def gc_drops_smap hm_get_fold_remove)
  moreover have "i \<in> fst ` set (gc_collect now m) \<longleftrightarrow>
      (\<exists>h. hm_get (smap m) i = Some h \<and> gc_due (idle_ttl m) now (arena m ! h))"
    using ok by (force simp: gc_collect_def hm_get_iff_mem)
  ultimately show ?thesis by (auto split: option.splits)
qed

text \<open>Runs of the registry: the calls the agent makes, and operations on the sessions themselves.\<close>

datatype mgr_op =
    MLookup bytes term_size nat "(bytes \<times> paste_style) option"
  | MRemove bytes
  | MGc nat
  | MSession nat sess_op

fun mgr_step :: "mgr_op \<Rightarrow> manager \<Rightarrow> manager" where
  "mgr_step (MLookup i geom now spawned) m = fst (lookup_or_spawn i geom now spawned m)"
| "mgr_step (MRemove i) m = fst (mgr_remove i m)"
| "mgr_step (MGc now) m = fst (gc_pass now m)"
| "mgr_step (MSession h a) m =
     (if h < length (arena m) then m\<lparr>arena := (arena m)[h := fst (sess_step a (arena m ! h))]\<rparr> else m)"

lemma step_sess_id: "sess_id (fst (sess_step a s)) = sess_id s"
  by (cases a) (auto simp: sess_defs Let_def split: option.splits prod.splits)

lemma mgr_inv_step: "mgr_inv m \<Longrightarrow> mgr_inv (mgr_step a m)"
proof (cases a)
  case (MSession h x)
  assume "mgr_inv m"
  with MSession show ?thesis
    by (auto simp: mgr_inv_def nth_list_update step_sess_id)
qed (auto simp: mgr_inv_lookup mgr_inv_remove mgr_inv_gc mgr_remove_def)

lemma mgr_step_limits: "max_sessions (mgr_step a m) = max_sessions m \<and> idle_ttl (mgr_step a m) = idle_ttl m"
  by (cases a) (auto simp: lookup_or_spawn_def mgr_remove_def gc_pass_def gc_drops_smap Let_def
      split: option.splits)

lemma mgr_inv_run:
  "mgr_inv m \<Longrightarrow> mgr_inv (fold mgr_step as m) \<and> max_sessions (fold mgr_step as m) = max_sessions m"
  by (induction as arbitrary: m) (simp_all add: mgr_inv_step mgr_step_limits)

section \<open>Further facts\<close>

lemma ct_eq_str_iff: "ct_eq_str a b \<longleftrightarrow> a = b"
  using ct_diff_0_iff [of a b] by (auto simp: ct_eq_str_def)

lemma split_semi_app: "0x3B \<notin> set l \<Longrightarrow> split_semi (l @ 0x3B # r) = Some (l, r)"
  by (induction l) auto

lemma split_semi_Some: "split_semi bs = Some (l, r) \<Longrightarrow> bs = l @ 0x3B # r \<and> 0x3B \<notin> set l"
  by (induction bs arbitrary: l) (auto split: if_splits)

lemma bstr_dl: "bstr ''dl;'' = [0x64, 0x6C, 0x3B]"
  by (simp add: bstr_def of_char_def)

lemma parse_dl_osc_iff:
  "parse_dl_osc p = Some (token, path) \<longleftrightarrow>
     p = bstr ''dl;'' @ token @ 0x3B # path \<and> 0x3B \<notin> set token \<and> utf8_valid token \<and> utf8_valid path"
proof
  show "parse_dl_osc p = Some (token, path) \<Longrightarrow> p = bstr ''dl;'' @ token @ 0x3B # path \<and>
      0x3B \<notin> set token \<and> utf8_valid token \<and> utf8_valid path"
    by (auto simp: parse_dl_osc_def bstr_dl split: option.splits if_splits dest!: split_semi_Some)
  show "p = bstr ''dl;'' @ token @ 0x3B # path \<and> 0x3B \<notin> set token \<and> utf8_valid token \<and>
      utf8_valid path \<Longrightarrow> parse_dl_osc p = Some (token, path)"
    by (simp add: parse_dl_osc_def bstr_dl split_semi_app from_utf8_def)
qed

fun chunk_bytes :: "download_event list \<Rightarrow> bytes" where
  "chunk_bytes [] = []"
| "chunk_bytes (DlChunk _ bs # es) = bs @ chunk_bytes es"
| "chunk_bytes (_ # es) = chunk_bytes es"

lemma saturating_add64_le:
  assumes "saturating_add64 a b \<le> c" "unat c < 2 ^ 64 - 1"
  shows "unat (saturating_add64 a b) = unat a + unat b"
  using assms by (auto simp: saturating_add64_def word_le_nat_alt unat_of_nat min_def split: if_splits)

text \<open>
  The loop sends the reads one by one; when it ends normally, what it sent is all there was and
  the counter agrees with it.
\<close>

lemma download_loop_sent:
  assumes "list_all (\<lambda>(r, _). \<forall>b. r = Some b \<longrightarrow> length b \<le> 1048576) reads"
    and "unat tot < 2 ^ 64 - 1" and "sent \<le> tot"
    and "download_loop i tot sent reads = (evs, res)"
  shows "unat sent + length (chunk_bytes evs) \<le> unat tot" (is ?A)
    and "res = Inr (Some n) \<Longrightarrow> unat n = unat sent + length (chunk_bytes evs)" (is "_ \<Longrightarrow> ?B")
    and "\<forall>e \<in> set evs. \<exists>b. e = DlChunk i b \<and> 0 < length b \<and> length b \<le> 1048576" (is ?C)
    and "\<exists>m. chunk_bytes evs = concat (map (\<lambda>a. the (fst a)) (take m reads))" (is ?D)
proof -
  have "?A \<and> (res = Inr (Some n) \<longrightarrow> ?B) \<and> ?C \<and> ?D"
    using assms(1,3,4)
  proof (induction reads arbitrary: sent evs)
    case Nil
    then show ?case by (auto simp: word_le_nat_alt)
  next
    case (Cons r reads)
    obtain rd rx where r: "r = (rd, rx)" by (cases r)
    show ?case
    proof (cases "\<exists>buf. rd = Some buf \<and> buf \<noteq> [] \<and>
        \<not> saturating_add64 sent (word_of_nat (length buf)) > tot \<and> rx")
      case False
      then have "evs = []" "res = Inr (Some n) \<Longrightarrow> n = sent"
        using Cons.prems(3) by (auto simp: r Let_def split: option.splits if_splits)
      moreover have "\<exists>m. [] = concat (map (\<lambda>a. the (fst a)) (take m (r # reads)))"
        by (rule exI [of _ 0]) simp
      ultimately show ?thesis using Cons.prems(2) by (simp add: word_le_nat_alt)
    next
      case True
      then obtain buf where buf: "rd = Some buf" "buf \<noteq> []" "rx"
        "saturating_add64 sent (word_of_nat (length buf)) \<le> tot"
        by (auto simp: linorder_not_less)
      define sent' where "sent' = saturating_add64 sent (word_of_nat (length buf))"
      obtain evs' where ev: "download_loop i tot sent' reads = (evs', res)" "evs = DlChunk i buf # evs'"
        using Cons.prems(3) buf(1-3) leD [OF buf(4)]
        by (auto simp: r Let_def sent'_def split: prod.splits)
      have len: "length buf \<le> 1048576" using Cons.prems(1) buf by (simp add: r)
      then have s': "unat sent' = unat sent + length buf"
        using saturating_add64_le [OF buf(4) assms(2)] by (simp add: sent'_def unat_of_nat)
      from Cons.IH [OF _ buf(4) [folded sent'_def] ev(1)] Cons.prems(1)
      have IH: "unat sent' + length (chunk_bytes evs') \<le> unat tot"
        "res = Inr (Some n) \<longrightarrow> unat n = unat sent' + length (chunk_bytes evs')"
        "\<forall>e \<in> set evs'. \<exists>b. e = DlChunk i b \<and> 0 < length b \<and> length b \<le> 1048576"
        "\<exists>m. chunk_bytes evs' = concat (map (\<lambda>a. the (fst a)) (take m reads))"
        by auto
      then obtain m where "chunk_bytes evs' = concat (map (\<lambda>a. the (fst a)) (take m reads))" by blast
      then have "\<exists>m. chunk_bytes evs = concat (map (\<lambda>a. the (fst a)) (take m (r # reads)))"
        using buf by (intro exI [of _ "Suc m"]) (simp add: ev(2) r)
      with IH(1-3) s' ev(2) buf(2) len show ?thesis by auto
    qed
  qed
  then show ?A "res = Inr (Some n) \<Longrightarrow> ?B" ?C ?D by blast+
qed

lemma chunk_bytes_append [simp]: "chunk_bytes (es @ fs) = chunk_bytes es @ chunk_bytes fs"
  by (induction es rule: chunk_bytes.induct) simp_all

definition reads_ok :: "dl_file \<Rightarrow> bool" where
  "reads_ok file \<longleftrightarrow> list_all (\<lambda>(r, _). \<forall>b. r = Some b \<longrightarrow> length b \<le> 1048576) (df_reads file)"

text \<open>Every run of \<open>stream_download\<close> that announces a file has this shape.\<close>

lemma stream_download_shape:
  assumes "stream_download open_file i path = (evs, res)" "evs \<noteq> []"
  obtains fl tot evs' r where "open_file path = Some fl" "df_meta fl = Some (True, tot)"
    "tot \<le> MAX_PASTE_TOTAL_BYTES" "download_loop i tot 0 (df_reads fl) = (evs', r)"
    "r = Inr (Some tot) \<and> res = Inr () \<and>
       evs = DlBegin i tot (download_name path) # evs' @ [DlEnd i DOWNLOAD_STATUS_OK]
     \<or> r \<noteq> Inr (Some tot) \<and> evs = DlBegin i tot (download_name path) # evs' \<and>
       (res = Inr () \<longleftrightarrow> r = Inr None)"
  using assms
  by (auto simp: stream_download_def Let_def linorder_not_less
      split: option.splits if_splits prod.splits sum.splits)

lemma step_types: "PtyTrySend b \<in> set (snd (sess_step a s)) \<Longrightarrow> \<exists>sid. a = OpInput sid b"
proof (cases a)
  case (OpOutput buf)
  have "PtyTrySend b \<notin> set (concat (map (dispatch_captured s') ps))" for s' ps
  proof
    assume "PtyTrySend b \<in> set (concat (map (dispatch_captured s') ps))"
    then obtain p where "PtyTrySend b \<in> set (dispatch_captured s' p)" by auto
    with dispatch_captured_cases [of s' p] show False by auto
  qed
  moreover assume "PtyTrySend b \<in> set (snd (sess_step a s))"
  ultimately show ?thesis
    using OpOutput by (auto simp: reader_chunk_def Let_def split: prod.splits if_splits)
qed (auto simp: sess_defs Let_def split: option.splits if_splits)

section \<open>Properties\<close>

text \<open>
  C7. Under every interleaving of attaches, input, resizes, control requests and PTY output: when a
  stream attaches, its replayed scrollback followed by the \<open>Data\<close> events it receives live is a
  contiguous piece of the session's output that reaches to the present. Nothing is missing and
  nothing is sent twice; only output older than the scrollback cap is skipped.
\<close>

theorem attach_replay_then_live:
  assumes "cstep\<^sup>*\<^sup>* (conc_init (session_spawn i geom cap tok style now)) c"
    and "attach sid g now' (csess c) = (s', effs, r)"
    and "cstep\<^sup>*\<^sup>* (c\<lparr>csess := s', cpend := effs # cpend c\<rparr>) c'"
  shows "\<exists>skipped es. ctrace c' = ctrace c @ es \<and>
    data_of (ctrace c') = skipped @ ar_scrollback r @ data_of es \<and>
    length (ar_scrollback r) = min (length (data_of (ctrace c))) cap"
proof -
  have c: "conc_inv c" "rcap (scrollback (csess c)) = cap"
    using conc_inv_steps [OF assms(1) conc_inv_init]
    by (simp_all add: conc_init_def session_spawn_def ring_new_def)
  have r: "ar_scrollback r = last_n cap (data_of (ctrace c))"
    using assms(2) c by (auto simp: attach_def Let_def conc_inv_def)
  obtain es where "ctrace c' = ctrace c @ es"
    using csteps_trace [OF assms(3)] by auto
  moreover obtain skipped where "data_of (ctrace c) = skipped @ last_n cap (data_of (ctrace c))"
    using last_n_suffix by blast
  ultimately show ?thesis
    using r by (intro exI [of _ skipped] exI [of _ es]) (simp del: append_assoc add: append_assoc [symmetric])
qed

theorem attach_replay_then_live_witness:
  "\<exists>skipped es. [Broadcast (SData [1, 2, 3]), Broadcast (SData [4])] =
       [Broadcast (SData [1, 2, 3])] @ es \<and> [1, 2, 3, 4] = skipped @ [2, 3] @ data_of es"
proof -
  let ?s0 = "session_spawn [0x61] (24, 80) 2 [0x74] Bracketed 0"
  let ?d1 = "Broadcast (SData [1, 2, 3])" and ?d2 = "Broadcast (SData [4])"
  have out: "\<exists>s'. reader_chunk (b # bs) s = (s', [Broadcast (SData (b # bs))]) \<and>
      reader_osc s' = scanner_new \<and> scrollback s' = ring_extend (scrollback s) (b # bs)"
    if "reader_osc s = scanner_new" "list_all (\<lambda>b. b \<noteq> ESC) (b # bs)" for s b bs
    using that feed_plain [of scanner_new "b # bs"]
    by (simp add: reader_chunk_def scanner_new_def)
  obtain s1 where s1: "reader_chunk [1, 2, 3] ?s0 = (s1, [?d1])" "reader_osc s1 = scanner_new"
    "scrollback s1 = ring_extend (ring_new 2) [1, 2, 3]"
    using out [of ?s0 1 "[2, 3]"] by (auto simp: session_spawn_def ESC_def)
  obtain s2 effs r where s2: "attach 5 (24, 80) 1 s1 = (s2, effs, r)" by (metis prod_cases3)
  then have r: "ar_scrollback r = [2, 3]" "reader_osc s2 = scanner_new"
    using s1 by (auto simp: attach_def Let_def ring_extend_def ring_snapshot_def ring_new_def)
  obtain s3 where s3: "reader_chunk [4] s2 = (s3, [?d2])"
    using out [of s2 4 "[]"] r by (auto simp: ESC_def)
  let ?c1 = "\<lparr>csess = s1, cpend = [[]], ctrace = [?d1]\<rparr>"
  have 1: "cstep\<^sup>*\<^sup>* (conc_init ?s0) ?c1"
    using cstep.lock [of "OpOutput [1, 2, 3]" ?s0 s1 "[?d1]" "[]" "[]"] s1(1)
    by (simp add: conc_init_def r_into_rtranclp)
  have 2: "cstep\<^sup>*\<^sup>* (?c1\<lparr>csess := s2, cpend := effs # cpend ?c1\<rparr>)
      \<lparr>csess = s3, cpend = [[], effs, []], ctrace = [?d1, ?d2]\<rparr>"
    using cstep.lock [of "OpOutput [4]" s2 s3 "[?d2]" "[effs, []]" "[?d1]"] s3
    by (simp add: r_into_rtranclp)
  from attach_replay_then_live [OF 1 _ 2, of 5 "(24, 80)" 1 r] s2 r(1) show ?thesis by simp
qed

text \<open>
  After any sequence of operations the scrollback holds exactly the last \<open>cap\<close> bytes of what the
  OSC scanner forwarded from the PTY output.
\<close>

theorem scrollback_is_output_tail:
  "ring_snapshot (scrollback (fst (sess_run as (session_spawn i geom cap tok style now)))) =
     last_n cap (fst (snd (feed scanner_new (concat (output_of as)))))"
  using run_replay [of "session_spawn i geom cap tok style now" as]
  by (simp add: session_spawn_def ring_new_def ring_snapshot_def)

text \<open>
  C10. Under every interleaving the controller is one of the attached streams: a detached browser never
  keeps the control lease.
\<close>

theorem controller_is_attached:
  assumes "cstep\<^sup>*\<^sup>* (conc_init (session_spawn i geom cap tok style now)) c"
    and "controller (csess c) = Some sid"
  shows "hm_get (attached (csess c)) sid \<noteq> None"
  using conc_inv_steps [OF assms(1) conc_inv_init] assms(2)
  by (simp add: conc_inv_def sess_inv_def)

theorem controller_is_attached_witness:
  "hm_get (attached (fst (sess_step (OpAttach 5 (24, 80) 7)
     (session_spawn [0x61] (30, 90) 2 [0x74] Bracketed 0)))) 5 \<noteq> None"
proof -
  let ?s0 = "session_spawn [0x61] (30, 90) 2 [0x74] Bracketed 0"
  obtain s1 effs where s1: "sess_step (OpAttach 5 (24, 80) 7) ?s0 = (s1, effs)" by fastforce
  then have "controller s1 = Some 5" by (auto simp: attach_def session_spawn_def Let_def)
  with controller_is_attached [OF r_into_rtranclp, OF cstep.lock [OF s1, of "[]" "[]", folded conc_init_def]]
  show ?thesis by (simp add: s1 del: sess_step.simps)
qed



text \<open>
  After any sequence of operations, the controller the browsers were last told about is the
  controller, and the geometry last set on the PTY is the recorded one, which is the size of the
  stream that took control or resized last.
\<close>

theorem announcements_agree:
  assumes "list_all op_stream_ok as"
  shows "announced None (snd (sess_run as (session_spawn i geom cap tok style now))) =
      controller (fst (sess_run as (session_spawn i geom cap tok style now))) \<and>
    pty_geometry geom (snd (sess_run as (session_spawn i geom cap tok style now))) =
      last_size (fst (sess_run as (session_spawn i geom cap tok style now)))"
  using run_announced [OF assms, of "session_spawn i geom cap tok style now"]
    run_geometry [of "session_spawn i geom cap tok style now" as]
  by (simp add: session_spawn_def)

theorem announcements_agree_witness:
  "announced None (snd (sess_run [OpAttach 3 (24, 80) 1, OpDetach 3 2]
      (session_spawn [0x61] (24, 80) 8 [0x74] Bracketed 0))) =
   controller (fst (sess_run [OpAttach 3 (24, 80) 1, OpDetach 3 2]
      (session_spawn [0x61] (24, 80) 8 [0x74] Bracketed 0)))"
  using announcements_agree [of "[OpAttach 3 (24, 80) 1, OpDetach 3 2]"] by simp

text \<open>
  The broadcast and the resize of an operation happen after it has released the lock, so two
  concurrent \<open>take_control\<close> calls may announce in the other order: every browser is then told
  that the loser controls the session, and the PTY keeps the loser's geometry.
\<close>

theorem take_control_race:
  assumes "hm_get (attached s) x = Some gx" "hm_get (attached s) y = Some gy" "x \<noteq> y" "x \<noteq> 0"
  shows "\<exists>c. cstep\<^sup>*\<^sup>* (conc_init s) c \<and> cpend c = [[], []] \<and> controller (csess c) = Some y \<and>
    announced (controller s) (ctrace c) = Some x \<and> pty_geometry (last_size s) (ctrace c) = gx"
proof -
  let ?effs = "\<lambda>z g. [PtyResize (fst g) (snd g), Broadcast (SControllerChanged z)] :: effect list"
  let ?s1 = "s\<lparr>controller := Some x, last_size := gx\<rparr>"
  let ?s2 = "s\<lparr>controller := Some y, last_size := gy\<rparr>"
  have l1: "cstep (conc_init s) \<lparr>csess = ?s1, cpend = [?effs x gx], ctrace = []\<rparr>"
    using cstep.lock [of "OpTake x" s ?s1 "?effs x gx" "[]" "[]"] assms(1)
    by (simp add: take_control_def conc_init_def)
  have l2: "cstep \<lparr>csess = ?s1, cpend = [?effs x gx], ctrace = []\<rparr>
      \<lparr>csess = ?s2, cpend = [?effs y gy, ?effs x gx], ctrace = []\<rparr>"
    using cstep.lock [of "OpTake y" ?s1 ?s2 "?effs y gy" "[?effs x gx]" "[]"] assms(2)
    by (simp add: take_control_def)
  let ?c = "\<lparr>csess = ?s2, cpend = [[], []], ctrace = ?effs y gy @ ?effs x gx\<rparr>"
  have "cstep\<^sup>*\<^sup>* (conc_init s) ?c"
    using l1 l2 csteps_flush [of ?s2 "[]" "?effs y gy" "[?effs x gx]" "[]"]
      csteps_flush [of ?s2 "[[]]" "?effs x gx" "[]" "?effs y gy"]
    by (auto intro: converse_rtranclp_into_rtranclp rtranclp_trans)
  then show ?thesis using assms(4) by (intro exI [of _ ?c]) auto
qed

theorem take_control_race_witness:
  "\<exists>c. cstep\<^sup>*\<^sup>* (conc_init ((session_spawn [0x61] (24, 80) 8 [0x74] Bracketed 0)
       \<lparr>attached := [(3, (24, 80)), (5, (30, 90))]\<rparr>)) c \<and>
     controller (csess c) = Some 5 \<and> announced None (ctrace c) = Some 3"
  using take_control_race [of "(session_spawn [0x61] (24, 80) 8 [0x74] Bracketed 0)
       \<lparr>attached := [(3, (24, 80)), (5, (30, 90))]\<rparr>" 3 "(24, 80)" 5 "(30, 90)"]
  by (auto simp: session_spawn_def)

text \<open>
  C30. A download starts exactly for the captured private OSCs of the form \<open>dl;token;path\<close> whose token is
  the session's: text that some program prints cannot start one without knowing the token.
\<close>

theorem download_needs_token:
  "SpawnDownload path \<in> set (snd (reader_chunk buf s)) \<longleftrightarrow>
     bstr ''dl;'' @ dl_token s @ 0x3B # path \<in> set (snd (snd (feed (reader_osc s) buf))) \<and>
     0x3B \<notin> set (dl_token s) \<and> utf8_valid (dl_token s) \<and> utf8_valid path"
proof -
  have d: "SpawnDownload path \<in> set (dispatch_captured s' p) \<longleftrightarrow>
      parse_dl_osc p = Some (dl_token s', path)" for s' p
    by (auto simp: dispatch_captured_def ct_eq_str_iff split: option.splits)
  show ?thesis
    by (auto simp: reader_chunk_def Let_def d parse_dl_osc_iff split: prod.splits)
qed

text \<open>
  C31. A download that is reported complete has delivered exactly the announced number of bytes, in
  chunks the frame format can carry, and they are the bytes read from the file; one that ends any
  other way has never sent more than it announced. No download above 4 GiB - 1 is announced.
\<close>

theorem download_delivery:
  assumes "stream_download open_file i path = (evs, res)"
    and "open_file path = Some f" and "reads_ok f"
    and "DlBegin i tot name \<in> set evs"
  shows "length (chunk_bytes evs) \<le> unat tot \<and> tot \<le> MAX_PASTE_TOTAL_BYTES \<and>
    (DlEnd i DOWNLOAD_STATUS_OK \<in> set evs \<longrightarrow> length (chunk_bytes evs) = unat tot) \<and>
    (\<exists>m. chunk_bytes evs = concat (map (\<lambda>a. the (fst a)) (take m (df_reads f)))) \<and>
    (\<forall>j b. DlChunk j b \<in> set evs \<longrightarrow> 0 < length b \<and> length b \<le> 1048576)"
proof -
  from assms(4) have "evs \<noteq> []" by auto
  from stream_download_shape [OF assms(1) this] obtain tot' evs' r where
    sh: "tot' \<le> MAX_PASTE_TOTAL_BYTES" "download_loop i tot' 0 (df_reads f) = (evs', r)"
    "r = Inr (Some tot') \<and> evs = DlBegin i tot' (download_name path) # evs' @ [DlEnd i DOWNLOAD_STATUS_OK]
     \<or> r \<noteq> Inr (Some tot') \<and> evs = DlBegin i tot' (download_name path) # evs'"
    using assms(2) by (metis option.inject)
  have "unat tot' < 2 ^ 64 - 1" using sh(1) by (simp add: word_le_nat_alt)
  note loop = download_loop_sent [OF assms(3) [unfolded reads_ok_def] this _ sh(2)]
  have "tot' = tot" using sh(3) loop(3) assms(4) by auto
  then show ?thesis using sh loop by fastforce
qed

theorem download_delivery_witness:
  "length (chunk_bytes [DlBegin 1 3 (bstr ''download''), DlChunk 1 [7, 8], DlChunk 1 [9],
      DlEnd 1 DOWNLOAD_STATUS_OK]) = 3"
proof -
  let ?f = "\<lparr>df_meta = Some (True, 3), df_begin_rx = True,
    df_reads = [(Some [7, 8], True), (Some [9], True), (Some [], True)]\<rparr>"
  have "stream_download (\<lambda>_. Some ?f) 1 [0x2F] =
      ([DlBegin 1 3 (bstr ''download''), DlChunk 1 [7, 8], DlChunk 1 [9], DlEnd 1 DOWNLOAD_STATUS_OK], Inr ())"
    by (simp add: stream_download_def download_name_def path_file_name_def saturating_add64_def)
  from download_delivery [OF this refl, of 3 "bstr ''download''"] show ?thesis
    by (auto simp: reads_ok_def)
qed

text \<open>
  C32. Whatever the agent is asked to open, close, collect or do inside its sessions, it never keeps
  more live sessions than \<open>max_sessions\<close>, every entry of the registry refers to a session of that
  name, and attaching to a running session is never refused.
\<close>

theorem session_limit:
  "length (smap (fold mgr_step as (mgr_new maxs ttl cap))) \<le> maxs \<and>
   (hm_get (smap (fold mgr_step as (mgr_new maxs ttl cap))) i = Some h \<longrightarrow>
      h < length (arena (fold mgr_step as (mgr_new maxs ttl cap))) \<and>
      sess_id (arena (fold mgr_step as (mgr_new maxs ttl cap)) ! h) = i \<and>
      (\<not> exited (arena (fold mgr_step as (mgr_new maxs ttl cap)) ! h) \<longrightarrow>
         lookup_or_spawn i geom now spawned (fold mgr_step as (mgr_new maxs ttl cap)) =
           (fold mgr_step as (mgr_new maxs ttl cap), Inr h)))"
proof -
  let ?m = "fold mgr_step as (mgr_new maxs ttl cap)"
  have "mgr_inv ?m" "max_sessions ?m = maxs"
    using mgr_inv_run [OF mgr_inv_new] by (simp_all add: mgr_new_def)
  then show ?thesis
    by (auto simp: mgr_inv_def lookup_or_spawn_def Let_def)
qed

theorem session_limit_witness:
  "lookup_or_spawn [0x61] (30, 90) 5 None
      (fold mgr_step [MLookup [0x61] (24, 80) 0 (Some ([0x74], Bracketed))] (mgr_new 1 60 8)) =
    (fold mgr_step [MLookup [0x61] (24, 80) 0 (Some ([0x74], Bracketed))] (mgr_new 1 60 8), Inr 0)"
  using session_limit [of "[MLookup [0x61] (24, 80) 0 (Some ([0x74], Bracketed))]" 1 60 8 "[0x61]" 0
      "(30, 90)" 5 None]
  by (simp add: lookup_or_spawn_def mgr_new_def session_spawn_def)

text \<open>
  A garbage-collection pass that no other task interrupts drops exactly the sessions whose shell has
  exited or that have had no attached stream for longer than the idle limit, and kills exactly
  the shells it drops.
\<close>

theorem gc_pass_exact:
  assumes "mgr_inv m"
  shows "hm_get (smap (fst (gc_pass now m))) i =
      (case hm_get (smap m) i of
         None \<Rightarrow> None
       | Some h \<Rightarrow> if exited (arena m ! h) \<or>
             attached (arena m ! h) = [] \<and> idle_ttl m < now - last_attached_at (arena m ! h)
           then None else Some h) \<and>
    ((h, PtyKill) \<in> set (snd (gc_pass now m)) \<longleftrightarrow>
      (\<exists>k. hm_get (smap m) k = Some h \<and> hm_get (smap (fst (gc_pass now m))) k = None))"
proof -
  have ok: "hm_ok (smap m)" using assms by (simp add: mgr_inv_def)
  have "(h, PtyKill) \<in> set (snd (gc_pass now m)) \<longleftrightarrow>
      (\<exists>k. hm_get (smap m) k = Some h \<and> gc_due (idle_ttl m) now (arena m ! h))"
    using ok by (auto simp: gc_pass_def Let_def gc_drops_smap gc_collect_def hm_get_iff_mem
        filter_empty_conv image_iff split: prod.splits) (force+)?
  then show ?thesis
    using gc_pass_get [OF assms, of now] by (auto simp: gc_due_def split: option.splits)
qed

theorem gc_pass_exact_witness:
  "hm_get (smap (fst (gc_pass 100
      (fst (lookup_or_spawn [0x61] (24, 80) 0 (Some ([0x74], Bracketed)) (mgr_new 1 60 8)))))) [0x61] = None"
proof -
  let ?m = "fst (lookup_or_spawn [0x61] (24, 80) 0 (Some ([0x74], Bracketed)) (mgr_new 1 60 8))"
  have m: "smap ?m = [([0x61], 0)]" "idle_ttl ?m = 60"
    "arena ?m = [session_spawn [0x61] (24, 80) 8 [0x74] Bracketed 0]"
    by (simp_all add: lookup_or_spawn_def mgr_new_def)
  have "mgr_inv ?m" by (rule mgr_inv_lookup [OF mgr_inv_new])
  from gc_pass_exact [OF this, of 100 "[0x61]"] m show ?thesis
    by (simp add: session_spawn_def)
qed

text \<open>
  \<open>gc_pass\<close> decides under the map lock but removes and kills after releasing it, and does not look
  again: a stream that attaches in between loses its shell, and a session that was spawned in
  place of an exited one under the same name is dropped from the registry.
\<close>

lemma gc_kills_attached:
  assumes "(i, h) \<in> set (gc_collect now m)" "h < length (arena m)"
  shows "(h, PtyKill) \<in> set (snd (gc_drops (gc_collect now m) (mgr_step (MSession h (OpAttach sid geom now)) m)))
    \<and> attached (arena (mgr_step (MSession h (OpAttach sid geom now)) m) ! h) \<noteq> []"
proof -
  have "hm_get (attached (fst (sess_step (OpAttach sid geom now) s))) sid \<noteq> None" for s
    by (simp add: attach_def Let_def)
  then have "attached (fst (sess_step (OpAttach sid geom now) s)) \<noteq> []" for s
    by (metis map_of.simps(1))
  then show ?thesis
    using assms by (force simp: gc_drops_smap simp del: sess_step.simps)
qed

end
