(* ===== verification/Agent_Paste.thy ===== *)
theory Agent_Paste
  imports Agent_Session
begin

text \<open>
  Pasted files, from \<open>agent/src/main.rs\<close>: \<open>sanitize_paste_name\<close>, \<open>split_ext\<close>, \<open>open_paste_file\<close>,
  \<open>ensure_paste_dir\<close> and \<open>sweep_old_paste_files\<close>, the handlers \<open>handle_paste_begin\<close>,
  \<open>handle_paste_chunk\<close> and \<open>handle_paste_end\<close>, \<open>inject_paste_paths\<close>, and the clean-up at the end
  of a stream task.

  The paste directory is a map from paths to contents (\<open>store\<close>). What else the operating system
  decides is an argument (\<open>paste_env\<close>): the directory and whether it could be prepared, which paths
  cannot be created for a reason other than that they exist, whether a write succeeds, the
  directory listing the sweep sees, and the clock.
\<close>

section \<open>Names\<close>

text \<open>\<open>{:016x}\<close>\<close>

definition hex_digit :: "nat \<Rightarrow> u8" where
  "hex_digit d = (if d < 10 then word_of_nat (48 + d) else word_of_nat (87 + d))"

fun hex_of_nat :: "nat \<Rightarrow> nat \<Rightarrow> bytes" where
  "hex_of_nat 0 v = []"
| "hex_of_nat (Suc n) v = hex_of_nat n (v div 16) @ [hex_digit (v mod 16)]"

definition safe_char :: "u8 \<Rightarrow> bool" where
  "safe_char b \<longleftrightarrow> is_ascii_alphanumeric b \<or> b = 0x2E \<or> b = 0x5F \<or> b = 0x2D"

text \<open>
  \<open>chars().map(..)\<close> over a valid string: one output character per input character, which is one
  per byte that does not continue a character.
\<close>

definition sanitize_paste_name :: "u64 \<Rightarrow> bytes \<Rightarrow> bytes" where
  "sanitize_paste_name nanos input =
     (let basename = (case path_file_name input of None \<Rightarrow> [] | Some n \<Rightarrow> n);
          cleaned = map (\<lambda>b. if safe_char b then b else 0x5F) (filter (\<lambda>b. \<not> is_cont b) basename);
          trimmed = dropWhile (\<lambda>b. b = 0x2E \<or> b = 0x2D) cleaned;
          truncated = take 200 trimmed
      in if truncated = [] then bstr ''term-paste-'' @ hex_of_nat 16 (unat nanos) else truncated)"

text \<open>\<open>rsplit_once('.')\<close>\<close>

definition rsplit_dot :: "bytes \<Rightarrow> (bytes \<times> bytes) option" where
  "rsplit_dot name =
     (if 0x2E \<in> set name
      then let ext = rev (takeWhile (\<lambda>b. b \<noteq> 0x2E) (rev name))
           in Some (take (length name - length ext - 1) name, ext)
      else None)"

definition split_ext :: "bytes \<Rightarrow> bytes \<times> bytes" where
  "split_ext name =
     (case rsplit_dot name of
        Some (stem, ext) \<Rightarrow> if stem \<noteq> [] \<and> ext \<noteq> [] then (stem, ext) else (name, [])
      | None \<Rightarrow> (name, []))"

definition suffixed :: "bytes \<Rightarrow> bytes \<Rightarrow> bytes \<Rightarrow> bytes" where
  "suffixed stem tag ext = (if ext = [] then stem @ [0x2D] @ tag else stem @ [0x2D] @ tag @ [0x2E] @ ext)"

definition candidate :: "bytes \<Rightarrow> nat \<Rightarrow> bytes" where
  "candidate base i =
     (let (stem, ext) = split_ext base in
      if i = 0 then base else suffixed stem (dec_of_nat i) ext)"

definition join_path :: "bytes \<Rightarrow> bytes \<Rightarrow> bytes" where
  "join_path dir name = dir @ [0x2F] @ name"

section \<open>The paste directory\<close>

type_synonym store = "(bytes, bytes) hash_map"

record dir_entry =
  de_name :: "bytes option"
  de_is_file :: "bool option"
  de_age_secs :: "nat option"

record paste_env =
  pe_root :: bytes
  pe_dir_ok :: bool
  pe_denied :: "bytes list"
  pe_write_ok :: bool
  pe_entries :: "dir_entry list"
  pe_nanos :: u64

definition PASTE_TTL_SECS :: nat where "PASTE_TTL_SECS = 60 * 60"

definition sweep_entry :: "bytes \<Rightarrow> dir_entry \<Rightarrow> store \<Rightarrow> store" where
  "sweep_entry dir e st =
     (case de_name e of
        None \<Rightarrow> st
      | Some name \<Rightarrow>
          if \<not> starts_with (bstr ''term-paste-'') name then st
          else (case de_is_file e of
                  None \<Rightarrow> st
                | Some is_file \<Rightarrow>
                    if \<not> is_file then st
                    else (case de_age_secs e of
                            None \<Rightarrow> st
                          | Some age \<Rightarrow>
                              if age > PASTE_TTL_SECS then hm_remove (join_path dir name) st else st)))"

definition sweep_old_paste_files :: "bytes \<Rightarrow> dir_entry list \<Rightarrow> store \<Rightarrow> store" where
  "sweep_old_paste_files dir es st = fold (sweep_entry dir) es st"

definition ensure_paste_dir :: "paste_env \<Rightarrow> store \<Rightarrow> (bytes \<times> store) option" where
  "ensure_paste_dir env st =
     (if \<not> pe_dir_ok env then None
      else Some (pe_root env, sweep_old_paste_files (pe_root env) (pe_entries env) st))"

text \<open>
  \<open>create_new\<close>: fails with \<open>AlreadyExists\<close> on a path that is taken, else creates an empty file.
  The result of a candidate list: the path created, \<open>None\<close> for another error, or that every
  candidate is taken.
\<close>

datatype open_result = Opened bytes store | Denied | AllTaken

fun try_open :: "paste_env \<Rightarrow> bytes \<Rightarrow> bytes list \<Rightarrow> store \<Rightarrow> open_result" where
  "try_open env dir [] st = AllTaken"
| "try_open env dir (c # cs) st =
     (let path = join_path dir c in
      if path \<in> set (pe_denied env) then Denied
      else if hm_get st path \<noteq> None then try_open env dir cs st
      else Opened path (hm_insert path [] st))"

definition open_paste_file :: "paste_env \<Rightarrow> bytes \<Rightarrow> store \<Rightarrow> (bytes option) \<times> store" where
  "open_paste_file env name st =
     (case ensure_paste_dir env st of
        None \<Rightarrow> (None, st)
      | Some (dir, st1) \<Rightarrow>
          let base = sanitize_paste_name (pe_nanos env) name;
              (stem, ext) = split_ext base
          in (case try_open env dir (map (candidate base) [0..<1024]) st1 of
                Opened path st2 \<Rightarrow> (Some path, st2)
              | Denied \<Rightarrow> (None, st1)
              | AllTaken \<Rightarrow>
                  (case try_open env dir [suffixed stem (hex_of_nat 16 (unat (pe_nanos env))) ext] st1 of
                     Opened path st2 \<Rightarrow> (Some path, st2)
                   | _ \<Rightarrow> (None, st1))))"

section \<open>Handlers\<close>

record limits =
  scrollback_cap_bytes :: nat
  idle_ttl_secs :: nat
  max_pending_pastes_per_stream :: nat
  max_pending_groups_per_stream :: nat
  lim_max_sessions :: nat

record pending_paste =
  p_path :: bytes
  p_total_size :: u64
  p_written :: u64
  p_group_id :: u32

record pending_group =
  g_group_size :: u32
  g_finished :: "bytes list"
  g_total_declared :: u64

record paste_state =
  pastes :: "(u32, pending_paste) hash_map"
  groups :: "(u32, pending_group) hash_map"
  files :: store

type_synonym paste_result = "paste_state \<times> frame list \<times> effect list"

definition remove_files :: "bytes list \<Rightarrow> store \<Rightarrow> store" where
  "remove_files ps st = fold hm_remove ps st"

definition reject :: "stream_id \<Rightarrow> u32 \<Rightarrow> u8 \<Rightarrow> frame list" where
  "reject sid paste_id reason = [frame_paste_reject sid paste_id reason]"

definition begin_open ::
    "paste_env \<Rightarrow> stream_id \<Rightarrow> u32 \<Rightarrow> u64 \<Rightarrow> u32 \<Rightarrow> bytes \<Rightarrow> paste_state \<Rightarrow> paste_result" where
  "begin_open env sid paste_id total_size group_id name s =
     (case open_paste_file env name (files s) of
        (Some path, st) \<Rightarrow>
          (s\<lparr>files := st,
             pastes := hm_insert paste_id
               \<lparr>p_path = path, p_total_size = total_size, p_written = 0, p_group_id = group_id\<rparr>
               (pastes s)\<rparr>, [], [])
      | (None, st) \<Rightarrow>
          (s\<lparr>files := st,
             groups := (case hm_get (groups s) group_id of
                None \<Rightarrow> groups s
              | Some g \<Rightarrow> hm_insert group_id
                  (g\<lparr>g_total_declared := saturating_sub64 (g_total_declared g) total_size\<rparr>) (groups s))\<rparr>,
           reject sid paste_id PASTE_REJECT_OPEN_FAILED, []))"

definition handle_paste_begin ::
    "limits \<Rightarrow> paste_env \<Rightarrow> stream_id \<Rightarrow> u32 \<Rightarrow> u64 \<Rightarrow> u32 \<Rightarrow> u32 \<Rightarrow> bytes \<Rightarrow> paste_state \<Rightarrow> paste_result" where
  "handle_paste_begin lim env sid paste_id total_size group_id group_size name s =
     (if length (pastes s) \<ge> max_pending_pastes_per_stream lim
      then (s, reject sid paste_id PASTE_REJECT_REGISTRY_FULL, [])
      else if hm_get (pastes s) paste_id \<noteq> None
      then (s, reject sid paste_id PASTE_REJECT_DUPLICATE_PASTE, [])
      else (case hm_get (groups s) group_id of
        Some g \<Rightarrow>
          if saturating_add64 (g_total_declared g) total_size > MAX_PASTE_TOTAL_BYTES
          then (s\<lparr>groups := hm_remove group_id (groups s),
                  files := remove_files (g_finished g) (files s)\<rparr>,
                reject sid paste_id PASTE_REJECT_GROUP_OVERSIZE, [])
          else begin_open env sid paste_id total_size group_id name
                 (s\<lparr>groups := hm_insert group_id
                    (g\<lparr>g_total_declared := saturating_add64 (g_total_declared g) total_size\<rparr>) (groups s)\<rparr>)
      | None \<Rightarrow>
          if length (groups s) \<ge> max_pending_groups_per_stream lim
          then (s, reject sid paste_id PASTE_REJECT_REGISTRY_FULL, [])
          else if total_size > MAX_PASTE_TOTAL_BYTES
          then (s, reject sid paste_id PASTE_REJECT_GROUP_OVERSIZE, [])
          else begin_open env sid paste_id total_size group_id name
                 (s\<lparr>groups := hm_insert group_id
                    \<lparr>g_group_size = group_size, g_finished = [], g_total_declared = total_size\<rparr>
                    (groups s)\<rparr>)))"

definition append_file :: "bytes \<Rightarrow> bytes \<Rightarrow> store \<Rightarrow> store" where
  "append_file path bs st =
     (case hm_get st path of None \<Rightarrow> st | Some c \<Rightarrow> hm_insert path (c @ bs) st)"

definition handle_paste_chunk ::
    "paste_env \<Rightarrow> stream_id \<Rightarrow> u32 \<Rightarrow> bytes \<Rightarrow> paste_state \<Rightarrow> paste_result" where
  "handle_paste_chunk env sid paste_id bs s =
     (case hm_get (pastes s) paste_id of
        None \<Rightarrow> (s, [], [])
      | Some p \<Rightarrow>
          if saturating_add64 (p_written p) (word_of_nat (length bs)) > p_total_size p
          then (s\<lparr>pastes := hm_remove paste_id (pastes s), files := hm_remove (p_path p) (files s)\<rparr>,
                reject sid paste_id PASTE_REJECT_SIZE_MISMATCH, [])
          else if \<not> pe_write_ok env
          then (s\<lparr>pastes := hm_remove paste_id (pastes s), files := hm_remove (p_path p) (files s)\<rparr>,
                reject sid paste_id PASTE_REJECT_WRITE_FAILED, [])
          else (s\<lparr>files := append_file (p_path p) bs (files s),
                  pastes := hm_insert paste_id
                    (p\<lparr>p_written := p_written p + word_of_nat (length bs)\<rparr>) (pastes s)\<rparr>, [], []))"

fun join_spaced :: "bytes list \<Rightarrow> bytes" where
  "join_spaced [] = []"
| "join_spaced [p] = p"
| "join_spaced (p # ps) = p @ [0x20] @ join_spaced ps"

definition quote_path :: "bytes \<Rightarrow> bytes" where
  "quote_path p = (if list_ex (\<lambda>b. b = 0x20 \<or> b = 0x09) p then [0x22] @ p @ [0x22] else p)"

definition paste_sequence :: "paste_style \<Rightarrow> bytes list \<Rightarrow> bytes" where
  "paste_sequence style paths =
     (case style of
        Bracketed \<Rightarrow> [ESC] @ bstr ''[200~'' @ join_spaced paths @ [0x20, ESC] @ bstr ''[201~''
      | PlainStyle \<Rightarrow> join_spaced (map quote_path paths) @ [0x20])"

definition inject_paste_paths ::
    "stream_id \<Rightarrow> bytes list \<Rightarrow> session \<Rightarrow> paste_state \<Rightarrow> paste_result" where
  "inject_paste_paths sid paths sess s =
     (if \<not> is_controller sid sess then (s\<lparr>files := remove_files paths (files s)\<rparr>, [], [])
      else (s, [], snd (write_internal (paste_sequence (paste_style sess) paths) sess)))"

definition drop_group :: "u32 \<Rightarrow> paste_state \<Rightarrow> paste_state" where
  "drop_group group_id s =
     (case hm_get (groups s) group_id of
        None \<Rightarrow> s
      | Some g \<Rightarrow> s\<lparr>groups := hm_remove group_id (groups s),
                   files := remove_files (g_finished g) (files s)\<rparr>)"

definition handle_paste_end ::
    "stream_id \<Rightarrow> u32 \<Rightarrow> u8 \<Rightarrow> session \<Rightarrow> paste_state \<Rightarrow> paste_result" where
  "handle_paste_end sid paste_id status sess s =
     (case hm_get (pastes s) paste_id of
        None \<Rightarrow> (s, [], [])
      | Some p \<Rightarrow>
          let s1 = s\<lparr>pastes := hm_remove paste_id (pastes s)\<rparr>; group_id = p_group_id p in
          if status = PASTE_STATUS_CANCEL
          then (drop_group group_id (s1\<lparr>files := hm_remove (p_path p) (files s1)\<rparr>), [], [])
          else if p_written p \<noteq> p_total_size p
          then (drop_group group_id (s1\<lparr>files := hm_remove (p_path p) (files s1)\<rparr>),
                reject sid paste_id PASTE_REJECT_SIZE_MISMATCH, [])
          else (case hm_get (groups s1) group_id of
            Some g \<Rightarrow>
              let fin = g_finished g @ [p_path p] in
              if word_of_nat (length fin) \<ge> g_group_size g
              then inject_paste_paths sid fin sess (s1\<lparr>groups := hm_remove group_id (groups s1)\<rparr>)
              else (s1\<lparr>groups := hm_insert group_id (g\<lparr>g_finished := fin\<rparr>) (groups s1)\<rparr>, [], [])
          | None \<Rightarrow> inject_paste_paths sid [p_path p] sess s1))"

text \<open>The end of the stream task.\<close>

definition paste_cleanup :: "paste_state \<Rightarrow> paste_state" where
  "paste_cleanup s =
     (let st1 = remove_files (map (p_path \<circ> snd) (pastes s)) (files s);
          st2 = remove_files (concat (map (g_finished \<circ> snd) (groups s))) st1
      in s\<lparr>pastes := [], groups := [], files := st2\<rparr>)"

section \<open>Names are safe\<close>

text \<open>
  A name that can be typed at a shell prompt as it is: no separator, space, quote or control
  character, and neither hidden nor mistaken for an option.
\<close>

definition safe_name :: "bytes \<Rightarrow> bool" where
  "safe_name n \<longleftrightarrow> n \<noteq> [] \<and> list_all safe_char n \<and> hd n \<noteq> 0x2E \<and> hd n \<noteq> 0x2D"

definition safe_path :: "bytes \<Rightarrow> bytes \<Rightarrow> bool" where
  "safe_path root p \<longleftrightarrow> (\<exists>n. p = join_path root n \<and> safe_name n)"

lemma safe_path_join: "safe_name n \<Longrightarrow> safe_path root (join_path root n)"
  by (auto simp: safe_path_def)

lemma is_ascii_alphanumeric_nat:
  "is_ascii_alphanumeric b \<longleftrightarrow>
     (48 \<le> unat b \<and> unat b \<le> 57) \<or> (65 \<le> unat b \<and> unat b \<le> 90) \<or> (97 \<le> unat b \<and> unat b \<le> 122)"
  by (simp add: is_ascii_alphanumeric_def word_le_nat_alt)

lemma safe_char_of_nat:
  "(48 \<le> n \<and> n \<le> 57) \<or> (65 \<le> n \<and> n \<le> 90) \<or> (97 \<le> n \<and> n \<le> 122) \<Longrightarrow> safe_char (word_of_nat n)"
  by (auto simp: safe_char_def is_ascii_alphanumeric_nat unat_of_nat)

lemma hex_digit_safe: "d < 16 \<Longrightarrow> safe_char (hex_digit d)"
  unfolding hex_digit_def by (cases "d < 10") (simp_all only: if_True if_False, (rule safe_char_of_nat, simp)+)

lemma hex_of_nat_safe: "list_all safe_char (hex_of_nat n v)"
  by (induction n v rule: hex_of_nat.induct) (simp_all add: hex_digit_safe)

lemma length_hex_of_nat [simp]: "length (hex_of_nat n v) = n"
  by (induction n v rule: hex_of_nat.induct) simp_all

lemma dec_digit_safe: "d < 10 \<Longrightarrow> safe_char (word_of_nat (48 + d))"
  by (rule safe_char_of_nat) simp

lemma dec_of_nat_safe: "list_all safe_char (dec_of_nat n)"
proof (induction n rule: dec_of_nat.induct)
  case (1 n)
  then show ?case
    using dec_digit_safe [of n] dec_digit_safe [of "n mod 10"]
    by (subst dec_of_nat.simps) auto
qed

lemma bstr_term_paste: "bstr ''term-paste-'' = [0x74, 0x65, 0x72, 0x6D, 0x2D, 0x70, 0x61, 0x73, 0x74, 0x65, 0x2D]"
  by (simp add: bstr_def of_char_def)

lemma sanitize_safe: "safe_name (sanitize_paste_name nanos input)"
proof -
  have gen: "safe_name (bstr ''term-paste-'' @ hex_of_nat 16 v)" for v
    using hex_of_nat_safe [of 16 v]
    by (simp add: safe_name_def bstr_term_paste safe_char_def is_ascii_alphanumeric_def)
  have clean: "list_all safe_char (map (\<lambda>b. if safe_char b then b else 0x5F) bs)" for bs
    by (auto simp: list_all_iff) (simp add: safe_char_def)
  have trim: "safe_name (take 200 (dropWhile (\<lambda>b. b = 0x2E \<or> b = 0x2D) cs))"
    if "list_all safe_char cs" "take 200 (dropWhile (\<lambda>b. b = 0x2E \<or> b = 0x2D) cs) \<noteq> []" for cs
  proof -
    have "list_all safe_char (take 200 (dropWhile (\<lambda>b. b = 0x2E \<or> b = 0x2D) cs))"
      using that(1) by (auto simp: list_all_iff dest!: in_set_takeD set_dropWhileD)
    then show ?thesis
      using that(2) hd_dropWhile [of "\<lambda>b. b = 0x2E \<or> b = 0x2D" cs] by (auto simp: safe_name_def)
  qed
  show ?thesis
    using gen trim [OF clean] by (auto simp: sanitize_paste_name_def Let_def)
qed

lemma sanitize_length: "length (sanitize_paste_name nanos input) \<le> 200"
  by (simp add: sanitize_paste_name_def Let_def bstr_term_paste)

lemma split_ext_cases:
  assumes "split_ext base = (stem, ext)" "base \<noteq> []"
  shows "stem \<noteq> []" "hd stem = hd base" "set stem \<subseteq> set base" "set ext \<subseteq> set base"
proof -
  have *: "stem = base \<and> ext = [] \<or> (\<exists>k. stem = take k base \<and> stem \<noteq> [] \<and>
      ext = rev (takeWhile (\<lambda>b. b \<noteq> 0x2E) (rev base)))"
    using assms by (auto simp: split_ext_def rsplit_dot_def Let_def split: option.splits if_splits)
  then show "stem \<noteq> []" "hd stem = hd base" "set stem \<subseteq> set base" "set ext \<subseteq> set base"
    using assms(2) by (auto dest: in_set_takeD dest!: set_takeWhileD)
qed

lemma suffixed_safe:
  assumes "split_ext base = (stem, ext)" "safe_name base" "list_all safe_char tag"
  shows "safe_name (suffixed stem tag ext)"
  using split_ext_cases [OF assms(1)] assms(2,3)
  by (auto simp: suffixed_def safe_name_def list_all_iff safe_char_def)

lemma candidate_safe: "safe_name base \<Longrightarrow> safe_name (candidate base i)"
  using suffixed_safe [of base _ _ "dec_of_nat i"] dec_of_nat_safe
  by (auto simp: candidate_def Let_def split: prod.splits)

lemma try_open_Opened:
  "try_open env dir cs st = Opened path st' \<Longrightarrow>
     \<exists>c \<in> set cs. path = join_path dir c \<and> hm_get st path = None \<and> st' = hm_insert path [] st"
  by (induction cs) (auto simp: Let_def split: if_splits)

lemma open_paste_file_Some:
  assumes "open_paste_file env name st = (Some path, st')"
  shows "\<exists>st1. ensure_paste_dir env st = Some (pe_root env, st1) \<and> safe_path (pe_root env) path \<and>
    hm_get st1 path = None \<and> st' = hm_insert path [] st1"
proof -
  let ?base = "sanitize_paste_name (pe_nanos env) name"
  obtain stem ext where se: "split_ext ?base = (stem, ext)" by fastforce
  let ?fb = "suffixed stem (hex_of_nat 16 (unat (pe_nanos env))) ext"
  have safe: "safe_name (candidate ?base i)" "safe_name ?fb" for i
    by (simp_all add: candidate_safe sanitize_safe suffixed_safe [OF se] hex_of_nat_safe)
  obtain st1 where st1: "ensure_paste_dir env st = Some (pe_root env, st1)"
    using assms by (auto simp: open_paste_file_def ensure_paste_dir_def split: if_splits)
  consider "try_open env (pe_root env) (map (candidate ?base) [0..<1024]) st1 = Opened path st'"
    | "try_open env (pe_root env) [?fb] st1 = Opened path st'"
    using assms st1 se by (auto simp: open_paste_file_def Let_def split: open_result.splits)
  then show ?thesis
    by cases (use st1 safe in \<open>auto dest!: try_open_Opened simp: safe_path_join simp del: try_open.simps\<close>)
qed

lemma open_paste_file_None: "open_paste_file env name st = (None, st') \<Longrightarrow>
   st' = st \<or> ensure_paste_dir env st = Some (pe_root env, st')"
  by (auto simp: open_paste_file_def ensure_paste_dir_def Let_def split: if_splits open_result.splits prod.splits)

lemma sweep_entry_get: "hm_get (sweep_entry dir e st) p = Some c \<Longrightarrow> hm_get st p = Some c"
  by (auto simp: sweep_entry_def split: option.splits if_splits)

lemma sweep_get: "hm_get (sweep_old_paste_files dir es st) p = Some c \<Longrightarrow> hm_get st p = Some c"
  unfolding sweep_old_paste_files_def
  by (induction es arbitrary: st) (auto dest: sweep_entry_get)

lemma ensure_get: "ensure_paste_dir env st = Some (d, st1) \<Longrightarrow> hm_get st1 p = Some c \<Longrightarrow> hm_get st p = Some c"
  by (auto simp: ensure_paste_dir_def split: if_splits dest: sweep_get)
section \<open>Registry bounds\<close>

datatype paste_op =
    PBegin paste_env u32 u64 u32 u32 bytes
  | PChunk paste_env u32 bytes
  | PEnd u32 u8 session

fun paste_step :: "limits \<Rightarrow> stream_id \<Rightarrow> paste_op \<Rightarrow> paste_state \<Rightarrow> paste_result" where
  "paste_step lim sid (PBegin env pid tot gid gs name) s = handle_paste_begin lim env sid pid tot gid gs name s"
| "paste_step lim sid (PChunk env pid bs) s = handle_paste_chunk env sid pid bs s"
| "paste_step lim sid (PEnd pid status sess) s = handle_paste_end sid pid status sess s"

fun paste_run :: "limits \<Rightarrow> stream_id \<Rightarrow> paste_op list \<Rightarrow> paste_state \<Rightarrow> paste_result" where
  "paste_run lim sid [] s = (s, [], [])"
| "paste_run lim sid (a # as) s =
     (let (s1, f1, e1) = paste_step lim sid a s; (s2, f2, e2) = paste_run lim sid as s1
      in (s2, f1 @ f2, e1 @ e2))"

definition paste_init :: "store \<Rightarrow> paste_state" where
  "paste_init st = \<lparr>pastes = [], groups = [], files = st\<rparr>"

definition paste_ok :: "pending_paste \<Rightarrow> bool" where
  "paste_ok p \<longleftrightarrow> p_written p \<le> p_total_size p \<and> p_total_size p \<le> MAX_PASTE_TOTAL_BYTES"

definition group_ok :: "pending_group \<Rightarrow> bool" where
  "group_ok g \<longleftrightarrow> g_total_declared g \<le> MAX_PASTE_TOTAL_BYTES"

definition reg_inv :: "limits \<Rightarrow> paste_state \<Rightarrow> bool" where
  "reg_inv lim s \<longleftrightarrow> hm_ok (pastes s) \<and> hm_ok (groups s) \<and>
     length (pastes s) \<le> max_pending_pastes_per_stream lim \<and>
     length (groups s) \<le> max_pending_groups_per_stream lim \<and>
     (\<forall>k p. hm_get (pastes s) k = Some p \<longrightarrow> paste_ok p) \<and>
     (\<forall>k g. hm_get (groups s) k = Some g \<longrightarrow> group_ok g)"

lemma saturating_add64_small:
  assumes "saturating_add64 a b \<le> c" "c \<le> MAX_PASTE_TOTAL_BYTES"
  shows "a + b = saturating_add64 a b" "b \<le> c"
proof -
  have c: "unat c < 2 ^ 64 - 1" using assms(2) by (simp add: word_le_nat_alt)
  have s: "unat (saturating_add64 a b) = unat a + unat b"
    by (rule saturating_add64_le [OF assms(1) c])
  then have le: "unat a + unat b \<le> unat c" using assms(1) by (simp add: word_le_nat_alt)
  then show "b \<le> c" by (simp add: word_le_nat_alt)
  have "unat (a + b) = unat a + unat b"
    using le c by (simp add: unat_word_ariths(1) mod_less)
  with s show "a + b = saturating_add64 a b" by (simp add: word_unat_eq_iff)
qed

lemma saturating_sub64_le: "saturating_sub64 a b \<le> a"
  by (auto simp: saturating_sub64_def word_le_nat_alt unat_sub)

lemma remove_files_simps [simp]:
  "remove_files [] st = st" "remove_files (p # ps) st = remove_files ps (hm_remove p st)"
  by (simp_all add: remove_files_def)

lemma hm_get_remove_files: "hm_get (remove_files ps st) p = (if p \<in> set ps then None else hm_get st p)"
  by (induction ps arbitrary: st) auto

lemma reg_inv_remove_paste:
  "reg_inv lim s \<Longrightarrow> reg_inv lim (s\<lparr>pastes := hm_remove k (pastes s), files := st\<rparr>)"
  using hm_length_remove_le [of k "pastes s"] by (auto simp: reg_inv_def)

lemma reg_inv_files: "reg_inv lim s \<Longrightarrow> reg_inv lim (s\<lparr>files := st\<rparr>)"
  by (simp add: reg_inv_def)

lemma reg_inv_remove_group: "reg_inv lim s \<Longrightarrow> reg_inv lim (s\<lparr>groups := hm_remove k (groups s)\<rparr>)"
  using hm_length_remove_le [of k "groups s"] by (auto simp: reg_inv_def)

lemma reg_inv_update_group:
  "reg_inv lim s \<Longrightarrow> hm_get (groups s) k \<noteq> None \<or> length (groups s) < max_pending_groups_per_stream lim \<Longrightarrow>
     group_ok g \<Longrightarrow> reg_inv lim (s\<lparr>groups := hm_insert k g (groups s)\<rparr>)"
  by (auto simp: reg_inv_def hm_length_insert)

lemma reg_inv_update_paste:
  "reg_inv lim s \<Longrightarrow> hm_get (pastes s) k \<noteq> None \<or> length (pastes s) < max_pending_pastes_per_stream lim \<Longrightarrow>
     paste_ok p \<Longrightarrow> reg_inv lim (s\<lparr>pastes := hm_insert k p (pastes s)\<rparr>)"
  by (auto simp: reg_inv_def hm_length_insert)

lemmas reg_inv_intros = reg_inv_files reg_inv_remove_group reg_inv_update_group reg_inv_update_paste

lemma reg_inv_begin_open:
  assumes inv: "reg_inv lim s" and room: "length (pastes s) < max_pending_pastes_per_stream lim"
    and tot: "tot \<le> MAX_PASTE_TOTAL_BYTES"
  shows "reg_inv lim (fst (begin_open env sid pid tot gid name s))"
proof (cases "open_paste_file env name (files s)")
  case (Pair r st)
  show ?thesis
  proof (cases r)
    case (Some path)
    have "reg_inv lim (s\<lparr>files := st\<rparr>\<lparr>pastes := hm_insert pid
        \<lparr>p_path = path, p_total_size = tot, p_written = 0, p_group_id = gid\<rparr> (pastes (s\<lparr>files := st\<rparr>))\<rparr>)"
      by (rule reg_inv_update_paste) (use reg_inv_files [OF inv] room tot in \<open>simp_all add: paste_ok_def\<close>)
    then show ?thesis by (simp add: begin_open_def Pair Some)
  next
    case None
    show ?thesis
    proof (cases "hm_get (groups s) gid")
      case (Some g)
      then have "group_ok g" using inv by (simp add: reg_inv_def)
      then have "group_ok (g\<lparr>g_total_declared := saturating_sub64 (g_total_declared g) tot\<rparr>)"
        using saturating_sub64_le [of "g_total_declared g" tot]
        by (simp add: group_ok_def del: MAX_PASTE_TOTAL_BYTES_def)
      from reg_inv_update_group [OF reg_inv_files [OF inv] _ this, of st gid] show ?thesis
        by (simp add: begin_open_def Pair None Some)
    qed (simp add: begin_open_def Pair None inv reg_inv_files)
  qed
qed

lemma reg_inv_drop_group: "reg_inv lim s \<Longrightarrow> reg_inv lim (drop_group k s)"
  using reg_inv_files [OF reg_inv_remove_group]
  by (auto simp: drop_group_def split: option.splits)

lemma reg_inv_inject: "reg_inv lim s \<Longrightarrow> reg_inv lim (fst (inject_paste_paths sid ps sess s))"
  by (simp add: inject_paste_paths_def reg_inv_files)

lemma reg_inv_begin:
  assumes inv: "reg_inv lim s"
  shows "reg_inv lim (fst (handle_paste_begin lim env sid pid tot gid gs name s))"
proof -
  let ?room = "length (pastes s) < max_pending_pastes_per_stream lim"
  have new: "reg_inv lim (fst (begin_open env sid pid tot gid name (s\<lparr>groups := hm_insert gid g (groups s)\<rparr>)))"
    if "?room" "group_ok g" "tot \<le> MAX_PASTE_TOTAL_BYTES"
      "hm_get (groups s) gid \<noteq> None \<or> length (groups s) < max_pending_groups_per_stream lim" for g
    using reg_inv_begin_open [OF reg_inv_update_group [OF inv that(4,2)] _ that(3)] that(1) by simp
  have drop: "reg_inv lim (s\<lparr>groups := hm_remove gid (groups s), files := st\<rparr>)" for st
    using reg_inv_files [OF reg_inv_remove_group [OF inv]] by simp
  show ?thesis
  proof (cases "hm_get (groups s) gid")
    case None
    then show ?thesis
      using inv new [of "\<lparr>g_group_size = gs, g_finished = [], g_total_declared = tot\<rparr>"]
      by (auto simp: handle_paste_begin_def group_ok_def linorder_not_less not_le)
  next
    case (Some g)
    have "saturating_add64 (g_total_declared g) tot \<le> MAX_PASTE_TOTAL_BYTES \<Longrightarrow> tot \<le> MAX_PASTE_TOTAL_BYTES"
      by (rule saturating_add64_small(2)) simp_all
    then show ?thesis
      using inv drop Some new [of "g\<lparr>g_total_declared := saturating_add64 (g_total_declared g) tot\<rparr>"]
      by (auto simp: handle_paste_begin_def group_ok_def linorder_not_less not_le
          simp del: MAX_PASTE_TOTAL_BYTES_def)
  qed
qed

lemma reg_inv_chunk:
  assumes inv: "reg_inv lim s"
  shows "reg_inv lim (fst (handle_paste_chunk env sid pid bs s))"
proof (cases "hm_get (pastes s) pid")
  case (Some p)
  let ?n = "word_of_nat (length bs) :: u64"
  have p: "paste_ok p" using inv Some by (simp add: reg_inv_def)
  have "paste_ok (p\<lparr>p_written := p_written p + ?n\<rparr>)"
    if "saturating_add64 (p_written p) ?n \<le> p_total_size p"
    using saturating_add64_small(1) [OF that] p that by (simp add: paste_ok_def del: MAX_PASTE_TOTAL_BYTES_def)
  then have "reg_inv lim (s\<lparr>files := st, pastes := hm_insert pid (p\<lparr>p_written := p_written p + ?n\<rparr>) (pastes s)\<rparr>)"
    if "saturating_add64 (p_written p) ?n \<le> p_total_size p" for st
    using reg_inv_update_paste [OF reg_inv_files [OF inv], of st pid] that Some by simp
  with Some inv reg_inv_remove_paste [OF inv] show ?thesis
    by (auto simp: handle_paste_chunk_def linorder_not_less)
qed (simp add: handle_paste_chunk_def inv)

lemma reg_inv_end:
  assumes inv: "reg_inv lim s"
  shows "reg_inv lim (fst (handle_paste_end sid pid status sess s))"
proof (cases "hm_get (pastes s) pid")
  case (Some p)
  let ?s1 = "s\<lparr>pastes := hm_remove pid (pastes s)\<rparr>"
  have 1: "reg_inv lim (?s1\<lparr>files := st\<rparr>)" for st
    using reg_inv_remove_paste [OF inv] by simp
  have 2: "reg_inv lim ?s1" using 1 [of "files s"] by simp
  show ?thesis
  proof (cases "hm_get (groups s) (p_group_id p)")
    case None
    with Some 1 2 show ?thesis
      by (auto simp: handle_paste_end_def Let_def reg_inv_drop_group reg_inv_inject)
  next
    case g: (Some g)
    then have "group_ok (g\<lparr>g_finished := fin\<rparr>)" for fin
      using inv by (auto simp: reg_inv_def group_ok_def)
    then have "reg_inv lim (?s1\<lparr>groups := hm_insert (p_group_id p) (g\<lparr>g_finished := fin\<rparr>) (groups ?s1)\<rparr>)" for fin
      using reg_inv_update_group [OF 2, of "p_group_id p"] g by simp
    with Some g 1 2 reg_inv_remove_group [OF 2] show ?thesis
      by (auto simp: handle_paste_end_def Let_def reg_inv_drop_group reg_inv_inject)
  qed
qed (simp add: handle_paste_end_def inv)

lemma reg_inv_run: "reg_inv lim s \<Longrightarrow> reg_inv lim (fst (paste_run lim sid as s))"
proof (induction as arbitrary: s)
  case (Cons a as)
  have "reg_inv lim (fst (paste_step lim sid a s))"
    using Cons.prems by (cases a) (simp_all add: reg_inv_begin reg_inv_chunk reg_inv_end)
  from Cons.IH [OF this] show ?case by (simp add: Let_def split_beta)
qed simp

section \<open>Nothing leaks\<close>

text \<open>The files the registries refer to.\<close>

definition ppaths :: "(u32, pending_paste) hash_map \<Rightarrow> bytes set" where
  "ppaths m = {q. \<exists>k p. hm_get m k = Some p \<and> q = p_path p}"

definition gpaths :: "(u32, pending_group) hash_map \<Rightarrow> bytes set" where
  "gpaths m = {q. \<exists>k g. hm_get m k = Some g \<and> q \<in> set (g_finished g)}"

definition live :: "paste_state \<Rightarrow> bytes set" where
  "live s = ppaths (pastes s) \<union> gpaths (groups s)"

lemma ppaths_insert_new: "hm_get m k = None \<Longrightarrow> ppaths (hm_insert k p m) = insert (p_path p) (ppaths m)"
  by (auto simp: ppaths_def) (metis option.distinct(1))+

lemma ppaths_insert_same:
  "hm_get m k = Some p \<Longrightarrow> p_path p' = p_path p \<Longrightarrow> ppaths (hm_insert k p' m) = ppaths m"
  by (auto simp: ppaths_def) (metis option.inject)+

lemma ppaths_remove: "hm_get m k = Some p \<Longrightarrow> ppaths m = insert (p_path p) (ppaths (hm_remove k m))"
  by (auto simp: ppaths_def) (metis option.inject)+

lemma gpaths_insert_new: "hm_get m k = None \<Longrightarrow> gpaths (hm_insert k g m) = set (g_finished g) \<union> gpaths m"
  by (auto simp: gpaths_def) (metis option.distinct(1))+

lemma gpaths_insert: 
  "hm_get m k = Some g \<Longrightarrow> set (g_finished g) \<subseteq> set (g_finished g') \<Longrightarrow>
     gpaths (hm_insert k g' m) = set (g_finished g') \<union> gpaths m"
  by (auto simp: gpaths_def) (metis option.inject subsetD)+

lemma gpaths_remove: "hm_get m k = Some g \<Longrightarrow> gpaths m = set (g_finished g) \<union> gpaths (hm_remove k m)"
  by (auto simp: gpaths_def) (metis option.inject)+

lemma gpaths_mem: "hm_get m k = Some g \<Longrightarrow> set (g_finished g) \<subseteq> gpaths m"
  by (auto simp: gpaths_def)

text \<open>What a handler may type into the PTY: whole batches of paths.\<close>

definition typed_batches :: "(paste_style \<times> bytes list) list \<Rightarrow> effect list" where
  "typed_batches bt = map (\<lambda>(style, ps). PtySend (paste_sequence style ps)) bt"

definition batches_safe :: "bytes \<Rightarrow> (paste_style \<times> bytes list) list \<Rightarrow> bool" where
  "batches_safe root bt \<longleftrightarrow> (\<forall>(style, ps) \<in> set bt. ps \<noteq> [] \<and> (\<forall>p \<in> set ps. safe_path root p))"

definition batch_paths :: "(paste_style \<times> bytes list) list \<Rightarrow> bytes set" where
  "batch_paths bt = (\<Union>(style, ps) \<in> set bt. set ps)"

lemma batches_append:
  "typed_batches (bs @ cs) = typed_batches bs @ typed_batches cs"
  "batches_safe root (bs @ cs) \<longleftrightarrow> batches_safe root bs \<and> batches_safe root cs"
  "batch_paths (bs @ cs) = batch_paths bs \<union> batch_paths cs"
  by (auto simp: typed_batches_def batches_safe_def batch_paths_def)

definition step_ok :: "bytes \<Rightarrow> paste_state \<Rightarrow> paste_result \<Rightarrow> bool" where
  "step_ok root s r \<longleftrightarrow> (\<exists>bt. snd (snd r) = typed_batches bt \<and> batches_safe root bt \<and>
     (\<forall>p \<in> live (fst r). safe_path root p) \<and>
     (\<forall>p. hm_get (files (fst r)) p \<noteq> None \<longrightarrow>
        (hm_get (files s) p \<noteq> None \<and> p \<notin> live s) \<or> p \<in> live (fst r) \<or> p \<in> batch_paths bt))"

lemma step_ok_quiet:
  assumes "\<And>p. p \<in> live s' \<Longrightarrow> safe_path root p"
    and "\<And>p c. hm_get (files s') p = Some c \<Longrightarrow> p \<notin> live s' \<Longrightarrow> hm_get (files s) p \<noteq> None \<and> p \<notin> live s"
  shows "step_ok root s (s', fr, [])"
  unfolding step_ok_def
  by (rule exI [of _ "[]"]) (use assms in \<open>fastforce simp: typed_batches_def batches_safe_def\<close>)

lemma live_simps:
  "live (s\<lparr>files := st\<rparr>) = live s"
  by (simp add: live_def)

lemma step_ok_begin_open:
  assumes "\<And>p. p \<in> live s \<Longrightarrow> safe_path (pe_root env) p" "hm_get (pastes s) pid = None"
  shows "step_ok (pe_root env) s (begin_open env sid pid tot gid name s)"
proof (cases "open_paste_file env name (files s)")
  case (Pair r st)
  show ?thesis
  proof (cases r)
    case (Some path)
    with Pair obtain st1 where st1: "ensure_paste_dir env (files s) = Some (pe_root env, st1)"
      "safe_path (pe_root env) path" "st = hm_insert path [] st1"
      using open_paste_file_Some [of env name "files s" path st] by auto
    let ?s' = "s\<lparr>files := st, pastes := hm_insert pid
      \<lparr>p_path = path, p_total_size = tot, p_written = 0, p_group_id = gid\<rparr> (pastes s)\<rparr>"
    have live: "live ?s' = insert path (live s)"
      using assms(2) by (simp add: live_def ppaths_insert_new)
    show ?thesis
      unfolding begin_open_def Pair Some
      by (simp, rule step_ok_quiet)
        (use assms(1) st1 live ensure_get [OF st1(1)] in \<open>auto split: if_splits\<close>)
  next
    case None
    let ?gs = "case hm_get (groups s) gid of None \<Rightarrow> groups s
      | Some g \<Rightarrow> hm_insert gid (g\<lparr>g_total_declared := saturating_sub64 (g_total_declared g) tot\<rparr>) (groups s)"
    have live: "live (s\<lparr>files := st, groups := ?gs\<rparr>) = live s"
      using gpaths_mem [of "groups s" gid] by (auto simp: live_def gpaths_insert split: option.splits)
    have "hm_get st p = Some c \<Longrightarrow> hm_get (files s) p = Some c" for p c
      using open_paste_file_None [of env name "files s" st] Pair None ensure_get by auto
    with assms(1) live show ?thesis
      unfolding begin_open_def Pair None
      by (simp, intro step_ok_quiet) auto
  qed
qed
lemma step_ok_begin:
  assumes safe: "\<And>p. p \<in> live s \<Longrightarrow> safe_path (pe_root env) p"
  shows "step_ok (pe_root env) s (handle_paste_begin lim env sid pid tot gid gs name s)"
proof -
  have refl: "step_ok (pe_root env) s (s, fr, [])" for fr
    by (rule step_ok_quiet) (use safe in auto)
  have same: "step_ok (pe_root env) s r \<longleftrightarrow> step_ok (pe_root env) s' r"
    if "live s' = live s" "files s' = files s" for s' r
    using that by (simp add: step_ok_def)
  show ?thesis
  proof (cases "hm_get (pastes s) pid = None \<and> length (pastes s) < max_pending_pastes_per_stream lim")
    case False
    then show ?thesis by (auto simp: handle_paste_begin_def refl)
  next
    case True
    show ?thesis
    proof (cases "hm_get (groups s) gid")
      case None
      let ?s' = "s\<lparr>groups := hm_insert gid
        \<lparr>g_group_size = gs, g_finished = [], g_total_declared = tot\<rparr> (groups s)\<rparr>"
      have l: "live ?s' = live s" using None by (simp add: live_def gpaths_insert_new)
      have "step_ok (pe_root env) s (begin_open env sid pid tot gid name ?s')"
        using step_ok_begin_open [of ?s' env pid sid tot gid name] True l safe same [OF l] by simp
      then show ?thesis using True None refl by (auto simp: handle_paste_begin_def not_le)
    next
      case (Some g)
      let ?s' = "s\<lparr>groups := hm_insert gid
        (g\<lparr>g_total_declared := saturating_add64 (g_total_declared g) tot\<rparr>) (groups s)\<rparr>"
      have l: "live ?s' = live s"
        using Some gpaths_mem [OF Some] by (auto simp: live_def gpaths_insert)
      have 1: "step_ok (pe_root env) s (begin_open env sid pid tot gid name ?s')"
        using step_ok_begin_open [of ?s' env pid sid tot gid name] True l safe same [OF l] by simp
      have 2: "step_ok (pe_root env) s (s\<lparr>groups := hm_remove gid (groups s),
          files := remove_files (g_finished g) (files s)\<rparr>, fr, [])" for fr
        by (rule step_ok_quiet)
          (use safe gpaths_remove [OF Some] in \<open>auto simp: live_def hm_get_remove_files split: if_splits\<close>)
      show ?thesis using True Some 1 2 by (auto simp: handle_paste_begin_def not_le)
    qed
  qed
qed

lemma append_file_get: "hm_get (append_file q bs st) p = Some c \<Longrightarrow> hm_get st p \<noteq> None"
  by (auto simp: append_file_def split: option.splits if_splits)

lemma step_ok_chunk:
  assumes safe: "\<And>p. p \<in> live s \<Longrightarrow> safe_path root p"
  shows "step_ok root s (handle_paste_chunk env sid pid bs s)"
proof (cases "hm_get (pastes s) pid")
  case None
  then show ?thesis
    using safe by (simp add: handle_paste_chunk_def, intro step_ok_quiet) auto
next
  case (Some p)
  have 1: "step_ok root s (s\<lparr>pastes := hm_remove pid (pastes s), files := hm_remove (p_path p) (files s)\<rparr>, fr, [])" for fr
    by (rule step_ok_quiet) (use safe ppaths_remove [OF Some] in \<open>auto simp: live_def split: if_splits\<close>)
  have 2: "step_ok root s (s\<lparr>files := append_file (p_path p) bs (files s),
      pastes := hm_insert pid (p\<lparr>p_written := w\<rparr>) (pastes s)\<rparr>, [], [])" for w
    by (rule step_ok_quiet)
      (use safe ppaths_insert_same [OF Some, of "p\<lparr>p_written := w\<rparr>"] append_file_get in
        \<open>auto simp: live_def split: if_splits\<close>)
  show ?thesis using Some 1 2 by (auto simp: handle_paste_chunk_def)
qed

lemma step_ok_inject:
  assumes safe: "\<And>p. p \<in> live s \<Longrightarrow> safe_path root p"
    and ps: "ps \<noteq> []" "set ps \<subseteq> live s"
    and s': "files s' = files s" "live s' \<subseteq> live s" "live s \<subseteq> live s' \<union> set ps"
  shows "step_ok root s (inject_paste_paths sid ps sess s')"
proof (cases "is_controller sid sess")
  case True
  then show ?thesis
    unfolding step_ok_def
    by (intro exI [of _ "[(paste_style sess, ps)]"])
      (use assms in \<open>auto simp: inject_paste_paths_def typed_batches_def batches_safe_def batch_paths_def
        write_internal_def\<close>)
next
  case False
  have "step_ok root s (s'\<lparr>files := remove_files ps (files s)\<rparr>, [], [])"
    by (rule step_ok_quiet) (use assms in \<open>auto simp: live_simps hm_get_remove_files split: if_splits\<close>)
  with False s'(1) show ?thesis by (simp add: inject_paste_paths_def)
qed

lemma step_ok_drop:
  assumes safe: "\<And>p. p \<in> live s \<Longrightarrow> safe_path root p" and p: "hm_get (pastes s) pid = Some p"
  shows "step_ok root s (drop_group gid (s\<lparr>pastes := hm_remove pid (pastes s),
    files := hm_remove (p_path p) (files s)\<rparr>), fr, [])"
proof (rule step_ok_quiet)
  let ?s' = "drop_group gid (s\<lparr>pastes := hm_remove pid (pastes s), files := hm_remove (p_path p) (files s)\<rparr>)"
  show "safe_path root q" if "q \<in> live ?s'" for q
    using that safe ppaths_remove [OF p] gpaths_remove [of "groups s" gid]
    by (auto simp: drop_group_def live_def split: option.splits)
  show "hm_get (files s) q \<noteq> None \<and> q \<notin> live s" if "hm_get (files ?s') q = Some c" "q \<notin> live ?s'" for q c
    using that ppaths_remove [OF p] gpaths_remove [of "groups s" gid]
    by (auto simp: drop_group_def live_def hm_get_remove_files split: option.splits if_splits)
qed

lemma step_ok_end:
  assumes safe: "\<And>p. p \<in> live s \<Longrightarrow> safe_path root p"
  shows "step_ok root s (handle_paste_end sid pid status sess s)"
proof (cases "hm_get (pastes s) pid")
  case None
  then show ?thesis
    using safe by (simp add: handle_paste_end_def, intro step_ok_quiet) auto
next
  case (Some p)
  let ?s1 = "s\<lparr>pastes := hm_remove pid (pastes s)\<rparr>"
  note rp = ppaths_remove [OF Some]
  note drop = step_ok_drop [OF safe Some, of "p_group_id p"]
  show ?thesis
  proof (cases "hm_get (groups s) (p_group_id p)")
    case None
    have "step_ok root s (inject_paste_paths sid [p_path p] sess ?s1)"
      by (rule step_ok_inject) (use safe rp in \<open>auto simp: live_def\<close>)
    with Some None drop show ?thesis by (auto simp: handle_paste_end_def Let_def)
  next
    case g: (Some g)
    let ?fin = "g_finished g @ [p_path p]"
    have 1: "step_ok root s (inject_paste_paths sid ?fin sess
        (?s1\<lparr>groups := hm_remove (p_group_id p) (groups s)\<rparr>))"
      by (rule step_ok_inject) (use safe rp gpaths_remove [OF g] in \<open>auto simp: live_def\<close>)
    have 2: "step_ok root s (?s1\<lparr>groups := hm_insert (p_group_id p) (g\<lparr>g_finished := ?fin\<rparr>) (groups s)\<rparr>, [], [])"
      by (rule step_ok_quiet)
        (use safe rp gpaths_mem [OF g] gpaths_insert [OF g, of "g\<lparr>g_finished := ?fin\<rparr>"] in \<open>auto simp: live_def\<close>)
    from Some g drop 1 2 show ?thesis by (auto simp: handle_paste_end_def Let_def)
  qed
qed

fun op_root :: "bytes \<Rightarrow> paste_op \<Rightarrow> bool" where
  "op_root root (PBegin env _ _ _ _ _) \<longleftrightarrow> pe_root env = root"
| "op_root root _ \<longleftrightarrow> True"

lemma step_ok_step:
  "op_root root a \<Longrightarrow> (\<And>p. p \<in> live s \<Longrightarrow> safe_path root p) \<Longrightarrow> step_ok root s (paste_step lim sid a s)"
  by (cases a) (auto intro: step_ok_begin step_ok_chunk step_ok_end)

lemma paste_run_ok:
  assumes "list_all (op_root root) as" "\<And>p. p \<in> live s \<Longrightarrow> safe_path root p"
  shows "step_ok root s (paste_run lim sid as s)"
  using assms
proof (induction as arbitrary: s)
  case Nil
  then show ?case by (simp, intro step_ok_quiet) auto
next
  case (Cons a as)
  obtain s1 f1 e1 where 1: "paste_step lim sid a s = (s1, f1, e1)" by (metis prod_cases3)
  obtain s2 f2 e2 where 2: "paste_run lim sid as s1 = (s2, f2, e2)" by (metis prod_cases3)
  have "step_ok root s (s1, f1, e1)" using step_ok_step [of root a s lim sid] Cons.prems 1 by simp
  then obtain b1 where b1: "e1 = typed_batches b1" "batches_safe root b1" "\<forall>p \<in> live s1. safe_path root p"
    "\<forall>p. hm_get (files s1) p \<noteq> None \<longrightarrow>
        (hm_get (files s) p \<noteq> None \<and> p \<notin> live s) \<or> p \<in> live s1 \<or> p \<in> batch_paths b1"
    by (auto simp: step_ok_def)
  then have "step_ok root s1 (s2, f2, e2)" using Cons.IH [of s1] Cons.prems(1) 2 by simp
  then obtain b2 where b2: "e2 = typed_batches b2" "batches_safe root b2" "\<forall>p \<in> live s2. safe_path root p"
    "\<forall>p. hm_get (files s2) p \<noteq> None \<longrightarrow>
        (hm_get (files s1) p \<noteq> None \<and> p \<notin> live s1) \<or> p \<in> live s2 \<or> p \<in> batch_paths b2"
    by (auto simp: step_ok_def)
  have run: "paste_run lim sid (a # as) s = (s2, f1 @ f2, e1 @ e2)" by (simp add: 1 2)
  show ?case
    unfolding step_ok_def run
    unfolding fst_conv snd_conv
    by (rule exI [of _ "b1 @ b2"], unfold batches_append, intro conjI allI impI)
      (use b1 b2 in \<open>simp, simp, simp, simp, blast\<close>)
qed

lemma live_init [simp]: "live (paste_init st) = {}"
  by (simp add: live_def ppaths_def gpaths_def paste_init_def)

lemma paste_cleanup_files:
  assumes "hm_ok (pastes s)" "hm_ok (groups s)"
  shows "hm_get (files (paste_cleanup s)) p = (if p \<in> live s then None else hm_get (files s) p)"
proof -
  have "p \<in> live s \<longleftrightarrow> p \<in> set (map (p_path \<circ> snd) (pastes s)) \<union> set (concat (map (g_finished \<circ> snd) (groups s)))"
    using assms by (force simp: live_def ppaths_def gpaths_def hm_get_iff_mem)
  then show ?thesis by (auto simp: paste_cleanup_def Let_def hm_get_remove_files)
qed

section \<open>A complete upload\<close>

fun chunk_ops :: "(paste_env \<times> bytes) list \<Rightarrow> u32 \<Rightarrow> paste_op list" where
  "chunk_ops [] pid = []"
| "chunk_ops ((env, bs) # cs) pid = PChunk env pid bs # chunk_ops cs pid"

lemma chunks_upload:
  assumes "hm_get (pastes s) pid = Some p" "hm_get (files s) (p_path p) = Some c"
    and "p_total_size p \<le> MAX_PASTE_TOTAL_BYTES"
    and "list_all (\<lambda>(env, _). pe_write_ok env) cs"
    and "unat (p_written p) + length (concat (map snd cs)) \<le> unat (p_total_size p)"
  shows "\<exists>s'. paste_run lim sid (chunk_ops cs pid) s = (s', [], []) \<and> groups s' = groups s \<and>
    hm_get (pastes s') pid =
      Some (p\<lparr>p_written := p_written p + word_of_nat (length (concat (map snd cs)))\<rparr>) \<and>
    hm_get (files s') (p_path p) = Some (c @ concat (map snd cs))"
  using assms
proof (induction cs arbitrary: s p c)
  case Nil
  then show ?case by (cases p) simp
next
  case (Cons e cs)
  obtain env bs where e: "e = (env, bs)" by (cases e)
  have t: "unat (p_total_size p) < 2 ^ 64 - 1" using Cons.prems(3) by (simp add: word_le_nat_alt)
  have n: "length bs < 2 ^ 64" using Cons.prems(5) t e by simp
  have sat: "unat (saturating_add64 (p_written p) (word_of_nat (length bs))) = unat (p_written p) + length bs"
  proof -
    define k where "k = unat (p_written p) + length bs"
    have ub: "unat (word_of_nat (length bs) :: u64) = length bs" using n by (simp add: unat_of_nat)
    have k: "k \<le> 2 ^ 64 - 1" using Cons.prems(5) t e by (simp add: k_def)
    then have "saturating_add64 (p_written p) (word_of_nat (length bs)) = word_of_nat k"
      unfolding saturating_add64_def ub k_def [symmetric] by (simp add: min_absorb1)
    then show ?thesis unfolding k_def [symmetric] using k by (simp add: unat_of_nat)
  qed
  then have le: "saturating_add64 (p_written p) (word_of_nat (length bs)) \<le> p_total_size p"
    using Cons.prems(5) e by (simp add: word_le_nat_alt)
  let ?p = "p\<lparr>p_written := p_written p + word_of_nat (length bs)\<rparr>"
  let ?s = "s\<lparr>files := append_file (p_path p) bs (files s), pastes := hm_insert pid ?p (pastes s)\<rparr>"
  have step: "paste_step lim sid (PChunk env pid bs) s = (?s, [], [])"
    using Cons.prems(1,4) le e by (simp add: handle_paste_chunk_def leD)
  have w: "unat (p_written ?p) = unat (p_written p) + length bs"
    using sat saturating_add64_small(1) [OF le Cons.prems(3)] by simp
  obtain s' where "paste_run lim sid (chunk_ops cs pid) ?s = (s', [], [])" "groups s' = groups ?s"
    "hm_get (pastes s') pid = Some (?p\<lparr>p_written := p_written ?p + word_of_nat (length (concat (map snd cs)))\<rparr>)"
    "hm_get (files s') (p_path ?p) = Some ((c @ bs) @ concat (map snd cs))"
    using Cons.IH [of ?s ?p "c @ bs"] Cons.prems w e by (auto simp: append_file_def)
  then show ?case
    using step e by (auto simp: add.assoc)
qed

lemma open_paste_file_first:
  assumes "pe_dir_ok env" "pe_entries env = []"
    and "join_path (pe_root env) (sanitize_paste_name (pe_nanos env) name) = path"
    and "path \<notin> set (pe_denied env)" "hm_get st path = None"
  shows "open_paste_file env name st = (Some path, hm_insert path [] st)"
proof -
  let ?base = "sanitize_paste_name (pe_nanos env) name"
  have u: "[0..<1024] = 0 # [Suc 0..<1024]" by (rule upt_conv_Cons) simp
  have c: "candidate ?base 0 = ?base" by (simp add: candidate_def split_beta)
  have "map (candidate ?base) [0..<1024] = ?base # map (candidate ?base) [Suc 0..<1024]"
    by (simp only: u list.map c)
  then obtain rest where cs: "map (candidate ?base) [0..<1024] = ?base # rest" ..
  show ?thesis
    unfolding open_paste_file_def Let_def cs
    using assms by (simp add: ensure_paste_dir_def sweep_old_paste_files_def Let_def split_beta)
qed

definition demo_env :: paste_env where
  "demo_env = \<lparr>pe_root = [0x2F, 0x70], pe_dir_ok = True, pe_denied = [], pe_write_ok = True,
     pe_entries = [], pe_nanos = 0\<rparr>"

definition demo_limits :: limits where
  "demo_limits = \<lparr>scrollback_cap_bytes = 8, idle_ttl_secs = 60, max_pending_pastes_per_stream = 2,
     max_pending_groups_per_stream = 2, lim_max_sessions = 2\<rparr>"

definition demo_session :: session where
  "demo_session = (session_spawn [0x61] (24, 80) 8 [0x74] Bracketed 0)\<lparr>controller := Some 5\<rparr>"

lemma demo_name: "sanitize_paste_name 0 [0x61] = [0x61]"
  by code_simp

lemma demo_open:
  "hm_get st [0x2F, 0x70, 0x2F, 0x61] = None \<Longrightarrow>
     open_paste_file demo_env [0x61] st = (Some [0x2F, 0x70, 0x2F, 0x61], hm_insert [0x2F, 0x70, 0x2F, 0x61] [] st)"
  by (rule open_paste_file_first)
    (simp_all add: demo_env_def join_path_def demo_name)

section \<open>Properties\<close>

text \<open>
  Whatever a browser sends, a stream never has more uploads or groups in flight than its limits
  allow, no upload has more bytes written than it declared, and no group declares more than
  4 GiB - 1 in total.
\<close>

theorem paste_registry_bounded:
  "reg_inv lim (fst (paste_run lim sid as (paste_init st)))"
  by (rule reg_inv_run) (simp add: reg_inv_def paste_init_def)



text \<open>
  C19. A single-file upload round trip: after an accepted \<open>PasteBegin\<close>, the chunks that add up to the
  declared size and \<open>PasteEnd\<close>, the file holds exactly the bytes sent, its path is typed into
  the shell of the controlling stream once, and the browser gets no rejection.
\<close>

theorem paste_upload_roundtrip:
  assumes fresh: "hm_get (pastes s) pid = None" "hm_get (groups s) gid = None"
    and room: "length (pastes s) < max_pending_pastes_per_stream lim"
      "length (groups s) < max_pending_groups_per_stream lim"
    and tot: "tot \<le> MAX_PASTE_TOTAL_BYTES" "length (concat (map snd cs)) = unat tot"
    and env: "open_paste_file env name (files s) = (Some path, st)"
      "list_all (\<lambda>(env, _). pe_write_ok env) cs"
    and ctl: "is_controller sid sess"
  shows "\<exists>s'. paste_run lim sid (PBegin env pid tot gid 1 name # chunk_ops cs pid @ [PEnd pid PASTE_STATUS_OK sess]) s =
      (s', [], [PtySend (paste_sequence (paste_style sess) [path])]) \<and>
    hm_get (files s') path = Some (concat (map snd cs)) \<and> hm_get (pastes s') pid = None"
proof -
  have app: "paste_run lim sid (xs @ ys) s0 = (let (s1, f1, e1) = paste_run lim sid xs s0;
      (s2, f2, e2) = paste_run lim sid ys s1 in (s2, f1 @ f2, e1 @ e2))" for xs ys s0
    by (induction xs arbitrary: s0) (auto simp: Let_def split: prod.splits)
  let ?p = "\<lparr>p_path = path, p_total_size = tot, p_written = 0, p_group_id = gid\<rparr>"
  let ?g = "\<lparr>g_group_size = 1, g_finished = [], g_total_declared = tot\<rparr>"
  let ?s1 = "s\<lparr>groups := hm_insert gid ?g (groups s), files := st, pastes := hm_insert pid ?p (pastes s)\<rparr>"
  have "paste_step lim sid (PBegin env pid tot gid 1 name) s = (?s1, [], [])"
    using fresh room tot(1) env(1) by (simp add: handle_paste_begin_def begin_open_def leD)
  moreover have "hm_get (files ?s1) path = Some []"
    using open_paste_file_Some [OF env(1)] by auto
  then obtain s2 where s2: "paste_run lim sid (chunk_ops cs pid) ?s1 = (s2, [], [])" "groups s2 = groups ?s1"
    "hm_get (pastes s2) pid = Some (?p\<lparr>p_written := word_of_nat (length (concat (map snd cs)))\<rparr>)"
    "hm_get (files s2) path = Some (concat (map snd cs))"
    using chunks_upload [of ?s1 pid ?p "[]" cs lim sid] tot env(2) by auto
  moreover have "p_written (?p\<lparr>p_written := word_of_nat (length (concat (map snd cs)))\<rparr>) = tot"
    using tot(2) by (simp del: length_concat)
  ultimately show ?thesis
    using s2 ctl
    by (simp add: app handle_paste_end_def Let_def inject_paste_paths_def write_internal_def)
qed

theorem paste_upload_roundtrip_witness:
  "\<exists>s'. paste_run demo_limits 5 (PBegin demo_env 1 3 9 1 [0x61] #
        chunk_ops [(demo_env, [1, 2]), (demo_env, [3])] 1 @ [PEnd 1 PASTE_STATUS_OK demo_session]) (paste_init []) =
      (s', [], [PtySend (paste_sequence Bracketed [[0x2F, 0x70, 0x2F, 0x61]])]) \<and>
    hm_get (files s') [0x2F, 0x70, 0x2F, 0x61] = Some [1, 2, 3]"
  using paste_upload_roundtrip [of "paste_init []" 1 9 demo_limits 3 "[(demo_env, [1, 2]), (demo_env, [3])]"
      demo_env "[0x61]" _ _ 5 demo_session, OF _ _ _ _ _ _ demo_open]
  by (auto simp: paste_init_def demo_limits_def demo_session_def session_spawn_def demo_env_def
      is_controller_def simp del: paste_run.simps chunk_ops.simps)

text \<open>
  A cancelled upload removes its whole group, but the other uploads of the group stay in flight:
  one of them that then completes finds no group and is typed into the shell on its own, so a
  partial batch is injected although cancelling is meant to inject nothing.
\<close>

theorem cancelled_batch_is_injected_in_part:
  assumes "hm_get (pastes s) a = Some pa" "hm_get (pastes s) b = Some pb" "a \<noteq> b"
    and "p_group_id pa = gid" "p_group_id pb = gid" "hm_get (groups s) gid = Some g"
    and "p_written pb = p_total_size pb" "is_controller sid sess"
  shows "snd (snd (paste_run lim sid [PEnd a PASTE_STATUS_CANCEL sess, PEnd b PASTE_STATUS_OK sess] s)) =
    [PtySend (paste_sequence (paste_style sess) [p_path pb])]"
  using assms
  by (simp add: handle_paste_end_def drop_group_def Let_def inject_paste_paths_def write_internal_def)

theorem cancelled_batch_is_injected_in_part_witness:
  "snd (snd (paste_run demo_limits 5 [PEnd 1 PASTE_STATUS_CANCEL demo_session, PEnd 2 PASTE_STATUS_OK demo_session]
      \<lparr>pastes = [(1, \<lparr>p_path = [0x61], p_total_size = 4, p_written = 1, p_group_id = 9\<rparr>),
                 (2, \<lparr>p_path = [0x62], p_total_size = 0, p_written = 0, p_group_id = 9\<rparr>)],
       groups = [(9, \<lparr>g_group_size = 2, g_finished = [], g_total_declared = 4\<rparr>)],
       files = [([0x61], [1]), ([0x62], [])]\<rparr>)) =
   [PtySend (paste_sequence Bracketed [[0x62]])]"
  using cancelled_batch_is_injected_in_part [of
      "\<lparr>pastes = [(1, \<lparr>p_path = [0x61], p_total_size = 4, p_written = 1, p_group_id = 9\<rparr>),
                 (2, \<lparr>p_path = [0x62], p_total_size = 0, p_written = 0, p_group_id = 9\<rparr>)],
       groups = [(9, \<lparr>g_group_size = 2, g_finished = [], g_total_declared = 4\<rparr>)],
       files = [([0x61], [1]), ([0x62], [])]\<rparr>" 1 _ 2 _ 9 _ 5 demo_session demo_limits]
  by (simp add: demo_session_def session_spawn_def is_controller_def del: paste_run.simps)

text \<open>
  The sweep never removes a pasted file that kept a name from the browser: it looks only at
  names that start with \<open>term-paste-\<close>, however old the other files are.
\<close>

theorem sweep_spares_named_pastes:
  assumes "\<not> starts_with (bstr ''term-paste-'') name"
  shows "hm_get (sweep_old_paste_files dir es st) (join_path dir name) = hm_get st (join_path dir name)"
proof -
  have "hm_get (sweep_entry dir e st) (join_path dir name) = hm_get st (join_path dir name)" for e st
    using assms by (auto simp: sweep_entry_def join_path_def split: option.splits)
  then show ?thesis
    unfolding sweep_old_paste_files_def by (induction es arbitrary: st) simp_all
qed

theorem sweep_spares_named_pastes_witness:
  "hm_get (sweep_old_paste_files [0x70] [\<lparr>de_name = Some [0x61], de_is_file = Some True, de_age_secs = Some 999999\<rparr>]
      [([0x70, 0x2F, 0x61], [1])]) (join_path [0x70] [0x61]) = Some [1]"
  using sweep_spares_named_pastes [of "[0x61]" "[0x70]"
      "[\<lparr>de_name = Some [0x61], de_is_file = Some True, de_age_secs = Some 999999\<rparr>]" "[([0x70, 0x2F, 0x61], [1])]"]
  by (simp add: starts_with_def bstr_term_paste join_path_def)

end
