(* ===== verification/Prio_Channel.thy ===== *)
theory Prio_Channel
  imports Term_Prelude
begin

text \<open>
  The priority channels of \<open>common/src/prio.rs\<close>: byte-bounded halves (\<open>BytesTx\<close>, \<open>BytesRx\<close>), the
  biased receiver (\<open>PrioRx::recv\<close>, and \<open>ItemPrioRx::recv\<close>, which has the same body), and the
  constructors.

  The tokio primitives underneath, an mpsc queue and a semaphore, are parameters: a receiver is
  polled (\<open>poll_recv\<close>), and permits are taken and returned (\<open>acquire\<close>, \<open>release\<close>). A \<open>recv\<close> is one
  poll of the future; \<open>Pending\<close> means that the task is parked. The locales \<open>fifo_queue\<close> and
  \<open>byte_budget\<close> state what the code relies on; they are interpreted on lists and counters.
\<close>

section \<open>The biased receiver\<close>

datatype 'a poll = Pending | Ready 'a

record ('q, 'a) prio_rx =
  rx_hi :: 'q
  rx_lo :: 'q
  hi_closed :: bool
  lo_closed :: bool

text \<open>
  \<open>PrioRx::recv\<close>. A completed branch of the \<open>select!\<close> either returns or marks its half as closed and
  goes round the loop; with the guards each half can do the latter once, which bounds the loop.
\<close>

function prio_recv ::
    "('q \<Rightarrow> 'a option poll \<times> 'q) \<Rightarrow> ('q, 'a) prio_rx \<Rightarrow> 'a option poll \<times> ('q, 'a) prio_rx" where
  "prio_recv poll_recv r =
     (if hi_closed r \<and> lo_closed r then (Ready None, r)
      else
        (case (if hi_closed r then (Pending, rx_hi r) else poll_recv (rx_hi r)) of
           (Ready (Some x), q) \<Rightarrow> (Ready (Some x), r\<lparr>rx_hi := q\<rparr>)
         | (Ready None, q) \<Rightarrow> if hi_closed r then (Pending, r) else prio_recv poll_recv (r\<lparr>rx_hi := q, hi_closed := True\<rparr>)
         | (Pending, q) \<Rightarrow>
             let r = r\<lparr>rx_hi := q\<rparr> in
             (case (if lo_closed r then (Pending, rx_lo r) else poll_recv (rx_lo r)) of
                (Ready (Some x), q) \<Rightarrow> (Ready (Some x), r\<lparr>rx_lo := q\<rparr>)
              | (Ready None, q) \<Rightarrow> if lo_closed r then (Pending, r) else prio_recv poll_recv (r\<lparr>rx_lo := q, lo_closed := True\<rparr>)
              | (Pending, q) \<Rightarrow> (Pending, r\<lparr>rx_lo := q\<rparr>))))"
  by pat_completeness auto
termination
  by (relation "measure (\<lambda>(p, r). (if hi_closed r then 0 else 1) + (if lo_closed r then 0 else 1))") auto

declare prio_recv.simps [simp del]

text \<open>
  The contract of an mpsc receiver: values come out in the order they went in, the end is
  reported only when every sender is gone and the queue is drained, and otherwise it parks.
\<close>

locale fifo_queue =
  fixes poll_recv :: "'q \<Rightarrow> 'a option poll \<times> 'q"
    and items :: "'q \<Rightarrow> 'a list"
    and senders_gone :: "'q \<Rightarrow> bool"
  assumes poll_item: "items q = x # xs \<Longrightarrow>
      fst (poll_recv q) = Ready (Some x) \<and> items (snd (poll_recv q)) = xs \<and>
      senders_gone (snd (poll_recv q)) = senders_gone q"
    and poll_end: "items q = [] \<Longrightarrow> senders_gone q \<Longrightarrow> poll_recv q = (Ready None, q)"
    and poll_wait: "items q = [] \<Longrightarrow> \<not> senders_gone q \<Longrightarrow> poll_recv q = (Pending, q)"
begin

text \<open>A half is only marked closed when its senders are gone and it is empty.\<close>

definition rx_ok :: "('q, 'a) prio_rx \<Rightarrow> bool" where
  "rx_ok r \<longleftrightarrow> (hi_closed r \<longrightarrow> items (rx_hi r) = [] \<and> senders_gone (rx_hi r)) \<and>
     (lo_closed r \<longrightarrow> items (rx_lo r) = [] \<and> senders_gone (rx_lo r))"

lemma recv_hi:
  assumes "rx_ok r" "items (rx_hi r) = x # xs"
  shows "\<exists>r'. prio_recv poll_recv r = (Ready (Some x), r') \<and> items (rx_hi r') = xs \<and>
    rx_lo r' = rx_lo r \<and> senders_gone (rx_hi r') = senders_gone (rx_hi r) \<and> rx_ok r'"
proof -
  have "\<not> hi_closed r" using assms by (auto simp: rx_ok_def)
  with poll_item [OF assms(2)] assms(1) show ?thesis
    by (subst prio_recv.simps) (auto simp: rx_ok_def split: prod.splits)
qed

lemma settle_hi:
  "items (rx_hi r) = [] \<Longrightarrow> senders_gone (rx_hi r) \<Longrightarrow> \<not> hi_closed r \<Longrightarrow>
     prio_recv poll_recv r = prio_recv poll_recv (r\<lparr>hi_closed := True\<rparr>)"
  using poll_end [of "rx_hi r"] by (subst prio_recv.simps) simp

definition hi_waits :: "('q, 'a) prio_rx \<Rightarrow> bool" where
  "hi_waits r \<longleftrightarrow> items (rx_hi r) = [] \<and> (hi_closed r \<or> \<not> senders_gone (rx_hi r))"

lemma settle_lo:
  "hi_waits r \<Longrightarrow> items (rx_lo r) = [] \<Longrightarrow> senders_gone (rx_lo r) \<Longrightarrow> \<not> lo_closed r \<Longrightarrow>
     prio_recv poll_recv r = prio_recv poll_recv (r\<lparr>lo_closed := True\<rparr>)"
  using poll_end [of "rx_lo r"] poll_wait [of "rx_hi r"]
  by (subst prio_recv.simps) (auto simp: hi_waits_def Let_def)

lemma recv_settled:
  "hi_waits r \<Longrightarrow> items (rx_lo r) = [] \<Longrightarrow> lo_closed r \<or> \<not> senders_gone (rx_lo r) \<Longrightarrow>
     prio_recv poll_recv r = (if hi_closed r \<and> lo_closed r then Ready None else Pending, r)"
  using poll_wait [of "rx_lo r"] poll_wait [of "rx_hi r"]
  by (subst prio_recv.simps) (auto simp: hi_waits_def Let_def)

lemma recv_lo_item:
  assumes "rx_ok r" "hi_waits r" "items (rx_lo r) = y # ys"
  shows "\<exists>r'. prio_recv poll_recv r = (Ready (Some y), r') \<and> rx_hi r' = rx_hi r \<and>
    items (rx_lo r') = ys \<and> senders_gone (rx_lo r') = senders_gone (rx_lo r) \<and> rx_ok r'"
  using assms poll_item [OF assms(3)] poll_wait [of "rx_hi r"]
  by (subst prio_recv.simps) (auto simp: rx_ok_def hi_waits_def Let_def split: prod.splits)

lemma hi_settled:
  assumes "rx_ok r" "items (rx_hi r) = []"
  obtains r' where "prio_recv poll_recv r = prio_recv poll_recv r'" "hi_waits r'" "rx_ok r'"
    "rx_hi r' = rx_hi r" "rx_lo r' = rx_lo r" "lo_closed r' = lo_closed r"
    "hi_closed r' \<longleftrightarrow> senders_gone (rx_hi r)"
proof (cases "hi_waits r")
  case True
  then show ?thesis using assms by (intro that [of r]) (auto simp: rx_ok_def hi_waits_def)
next
  case False
  then show ?thesis
    using assms settle_hi [of r]
    by (intro that [of "r\<lparr>hi_closed := True\<rparr>"]) (auto simp: hi_waits_def rx_ok_def)
qed

lemma recv_lo:
  assumes "rx_ok r" "items (rx_hi r) = []" "items (rx_lo r) = y # ys"
  shows "\<exists>r'. prio_recv poll_recv r = (Ready (Some y), r') \<and> rx_hi r' = rx_hi r \<and>
    items (rx_lo r') = ys \<and> senders_gone (rx_lo r') = senders_gone (rx_lo r) \<and> rx_ok r'"
proof -
  obtain r' where "prio_recv poll_recv r = prio_recv poll_recv r'" "hi_waits r'" "rx_ok r'"
    "rx_hi r' = rx_hi r" "rx_lo r' = rx_lo r"
    using hi_settled [OF assms(1,2)] by metis
  with recv_lo_item [of r' y ys] assms(3) show ?thesis by simp
qed

lemma recv_empty:
  assumes "rx_ok r" "items (rx_hi r) = []" "items (rx_lo r) = []"
  shows "\<exists>r'. prio_recv poll_recv r =
      (if senders_gone (rx_hi r) \<and> senders_gone (rx_lo r) then Ready None else Pending, r') \<and>
    rx_hi r' = rx_hi r \<and> rx_lo r' = rx_lo r \<and> rx_ok r'"
proof -
  obtain r1 where r1: "prio_recv poll_recv r = prio_recv poll_recv r1" "hi_waits r1" "rx_ok r1"
    "rx_hi r1 = rx_hi r" "rx_lo r1 = rx_lo r" "lo_closed r1 = lo_closed r"
    "hi_closed r1 \<longleftrightarrow> senders_gone (rx_hi r)"
    using hi_settled [OF assms(1,2)] by metis
  show ?thesis
  proof (cases "lo_closed r1 \<or> \<not> senders_gone (rx_lo r1)")
    case True
    with recv_settled [of r1] r1 assms(3) show ?thesis by (auto simp: rx_ok_def)
  next
    case False
    with settle_lo [of r1] recv_settled [of "r1\<lparr>lo_closed := True\<rparr>"] r1 assms(3) show ?thesis
      by (auto simp: hi_waits_def rx_ok_def)
  qed
qed

text \<open>The three cases together.\<close>

lemma recv_spec:
  assumes "rx_ok r"
  obtains r' where "rx_ok r'"
    "senders_gone (rx_hi r') = senders_gone (rx_hi r)" "senders_gone (rx_lo r') = senders_gone (rx_lo r)"
    "items (rx_hi r') = tl (items (rx_hi r))"
    "items (rx_lo r') = (if items (rx_hi r) = [] then tl (items (rx_lo r)) else items (rx_lo r))"
    "prio_recv poll_recv r =
      (case items (rx_hi r) @ items (rx_lo r) of
         x # _ \<Rightarrow> Ready (Some x)
       | [] \<Rightarrow> if senders_gone (rx_hi r) \<and> senders_gone (rx_lo r) then Ready None else Pending, r')"
proof (cases "items (rx_hi r)")
  case (Cons x xs)
  with recv_hi [OF assms Cons] show ?thesis by (auto intro: that)
next
  case Nil
  show ?thesis
  proof (cases "items (rx_lo r)")
    case (Cons y ys)
    with recv_lo [OF assms Nil Cons] Nil show ?thesis by (auto intro: that)
  next
    case Nil2: Nil
    with recv_empty [OF assms Nil Nil2] Nil show ?thesis by (auto intro: that)
  qed
qed

end

section \<open>Byte budgets\<close>

text \<open>
  A byte-bounded half: a semaphore with one permit per byte, and a queue. \<open>acquire\<close> parks until the
  permits are there and fails when the semaphore is closed; \<open>push\<close> fails when the receiver is gone,
  which drops the permit.
\<close>

record ('s, 'q) bytes_chan =
  bc_sem :: 's
  bc_queue :: 'q
  bc_cap :: nat

text \<open>A queued message travels with its permit, here the number of permits it holds.\<close>

type_synonym permit_msg = "u32 \<times> bytes"

datatype send_result = Sent | SendErr bytes | SendWaits

definition bytes_channel :: "(nat \<Rightarrow> 's) \<Rightarrow> 'q \<Rightarrow> nat \<Rightarrow> ('s, 'q) bytes_chan" where
  "bytes_channel new_sem queue cap_bytes =
     (let permits = min cap_bytes (2 ^ 32 - 1) in
      \<lparr>bc_sem = new_sem permits, bc_queue = queue, bc_cap = permits\<rparr>)"

definition bytes_send ::
    "(u32 \<Rightarrow> 's \<Rightarrow> 's option poll) \<Rightarrow> (permit_msg \<Rightarrow> 'q \<Rightarrow> 'q option) \<Rightarrow> bytes
       \<Rightarrow> ('s, 'q) bytes_chan \<Rightarrow> send_result \<times> ('s, 'q) bytes_chan" where
  "bytes_send acquire push bs c =
     (if length bs > bc_cap c then (SendErr bs, c)
      else let n = word_of_nat (length bs) in
        (case acquire n (bc_sem c) of
           Pending \<Rightarrow> (SendWaits, c)
         | Ready None \<Rightarrow> (SendErr bs, c)
         | Ready (Some sem) \<Rightarrow>
             (case push (n, bs) (bc_queue c) of
                Some q \<Rightarrow> (Sent, c\<lparr>bc_sem := sem, bc_queue := q\<rparr>)
              | None \<Rightarrow> (SendErr bs, c))))"

text \<open>The permit is dropped, and its bytes are free again, as soon as the message is taken.\<close>

definition bytes_recv ::
    "(u32 \<Rightarrow> 's \<Rightarrow> 's) \<Rightarrow> ('q \<Rightarrow> permit_msg option poll \<times> 'q) \<Rightarrow> ('s, 'q) bytes_chan
       \<Rightarrow> bytes option poll \<times> ('s, 'q) bytes_chan" where
  "bytes_recv release poll_recv c =
     (case poll_recv (bc_queue c) of
        (Ready (Some (permit, bs)), q) \<Rightarrow>
          (Ready (Some bs), c\<lparr>bc_queue := q, bc_sem := release permit (bc_sem c)\<rparr>)
      | (Ready None, q) \<Rightarrow> (Ready None, c\<lparr>bc_queue := q\<rparr>)
      | (Pending, q) \<Rightarrow> (Pending, c\<lparr>bc_queue := q\<rparr>))"

locale byte_budget = fifo_queue poll_recv items senders_gone
  for poll_recv :: "'q \<Rightarrow> permit_msg option poll \<times> 'q" and items :: "'q \<Rightarrow> permit_msg list"
    and senders_gone :: "'q \<Rightarrow> bool" +
  fixes new_sem :: "nat \<Rightarrow> 's" and avail :: "'s \<Rightarrow> nat"
    and acquire :: "u32 \<Rightarrow> 's \<Rightarrow> 's option poll" and release :: "u32 \<Rightarrow> 's \<Rightarrow> 's"
    and push :: "permit_msg \<Rightarrow> 'q \<Rightarrow> 'q option"
  assumes avail_new: "avail (new_sem k) = k"
    and acquire_takes: "acquire n s = Ready (Some s') \<Longrightarrow> avail s = avail s' + unat n"
    and acquire_when_free: "unat n \<le> avail s \<Longrightarrow> acquire n s \<noteq> Pending"
    and release_gives: "avail (release n s) = avail s + unat n"
    and push_appends: "push x q = Some q' \<Longrightarrow> items q' = items q @ [x]"
begin

definition queued :: "('s, 'q) bytes_chan \<Rightarrow> bytes list" where
  "queued c = map snd (items (bc_queue c))"

definition in_flight :: "('s, 'q) bytes_chan \<Rightarrow> nat" where
  "in_flight c = sum_list (map length (queued c))"

definition budget_ok :: "('s, 'q) bytes_chan \<Rightarrow> bool" where
  "budget_ok c \<longleftrightarrow> avail (bc_sem c) + in_flight c = bc_cap c \<and> bc_cap c < 2 ^ 32 \<and>
     (\<forall>(n, bs) \<in> set (items (bc_queue c)). unat n = length bs)"

lemmas budget_defs = budget_ok_def in_flight_def queued_def

lemma budget_new: "items q = [] \<Longrightarrow> budget_ok (bytes_channel new_sem q cap)"
  by (simp add: budget_defs bytes_channel_def avail_new min_def)

lemma budget_send:
  assumes "budget_ok c"
  shows "budget_ok (snd (bytes_send acquire push bs c)) \<and>
    (fst (bytes_send acquire push bs c) = SendWaits \<longrightarrow> bc_cap c < in_flight c + length bs)"
proof (cases "length bs > bc_cap c")
  case True
  then show ?thesis using assms by (simp add: bytes_send_def)
next
  case False
  define n where "n = (word_of_nat (length bs) :: u32)"
  have n: "unat n = length bs"
    using False assms by (simp add: n_def budget_ok_def unat_of_nat)
  show ?thesis
    using assms False acquire_takes [of n "bc_sem c"] acquire_when_free [of n "bc_sem c"] n
    by (fastforce simp: bytes_send_def budget_defs push_appends Let_def simp flip: n_def
        split: poll.splits option.splits)
qed

text \<open>A byte-bounded receiver is again a FIFO queue, so the biased receiver's lemmas apply to it.\<close>

sublocale bounded: fifo_queue "bytes_recv release poll_recv" queued "\<lambda>c. senders_gone (bc_queue c)"
proof
  fix c x xs assume "queued c = x # xs"
  then obtain p ps where "items (bc_queue c) = (p, x) # ps" "xs = map snd ps"
    by (auto simp: queued_def)
  with poll_item [of "bc_queue c" "(p, x)" ps]
  show "fst (bytes_recv release poll_recv c) = Ready (Some x) \<and>
      queued (snd (bytes_recv release poll_recv c)) = xs \<and>
      senders_gone (bc_queue (snd (bytes_recv release poll_recv c))) = senders_gone (bc_queue c)"
    by (auto simp: bytes_recv_def queued_def split: prod.splits)
qed (auto simp: bytes_recv_def queued_def poll_end poll_wait)

lemma budget_recv: "budget_ok c \<Longrightarrow> budget_ok (snd (bytes_recv release poll_recv c))"
proof (cases "items (bc_queue c)")
  case (Cons x xs)
  assume "budget_ok c"
  with poll_item [OF Cons] Cons show ?thesis
    by (auto simp: bytes_recv_def budget_defs release_gives split: prod.splits)
next
  case Nil
  assume "budget_ok c"
  with poll_end [OF Nil] poll_wait [OF Nil] Nil show ?thesis
    by (cases "senders_gone (bc_queue c)") (auto simp: bytes_recv_def budget_defs)
qed

end

section \<open>The in-memory queue\<close>

record 'a mpsc =
  q_items :: "'a list"
  q_closed :: bool

definition mpsc_poll :: "'a mpsc \<Rightarrow> 'a option poll \<times> 'a mpsc" where
  "mpsc_poll q =
     (case q_items q of
        x # xs \<Rightarrow> (Ready (Some x), q\<lparr>q_items := xs\<rparr>)
      | [] \<Rightarrow> (if q_closed q then Ready None else Pending, q))"

interpretation mpsc: fifo_queue mpsc_poll q_items q_closed
  by unfold_locales (auto simp: mpsc_poll_def)

definition mpsc_new :: "'a mpsc" where
  "mpsc_new = \<lparr>q_items = [], q_closed = False\<rparr>"

definition mpsc_push :: "'a \<Rightarrow> 'a mpsc \<Rightarrow> 'a mpsc option" where
  "mpsc_push x q = Some (q\<lparr>q_items := q_items q @ [x]\<rparr>)"

definition sem_acquire :: "u32 \<Rightarrow> nat \<Rightarrow> nat option poll" where
  "sem_acquire n s = (if unat n \<le> s then Ready (Some (s - unat n)) else Pending)"

definition sem_release :: "u32 \<Rightarrow> nat \<Rightarrow> nat" where
  "sem_release n s = s + unat n"

interpretation budget: byte_budget mpsc_poll q_items q_closed id id sem_acquire sem_release mpsc_push
  by unfold_locales (auto simp: sem_acquire_def sem_release_def mpsc_push_def split: if_splits)

section \<open>Whole channels\<close>

definition prio_rx_new :: "'q \<Rightarrow> 'q \<Rightarrow> ('q, 'a) prio_rx" where
  "prio_rx_new hi lo = \<lparr>rx_hi = hi, rx_lo = lo, hi_closed = False, lo_closed = False\<rparr>"

text \<open>\<open>prio_channel\<close>: both ends of a half are one \<open>bytes_chan\<close> here.\<close>

definition prio_channel :: "(nat \<Rightarrow> 's) \<Rightarrow> 'q \<Rightarrow> nat \<Rightarrow> nat \<Rightarrow> (('s, 'q) bytes_chan, bytes) prio_rx" where
  "prio_channel new_sem queue cap_hi_bytes cap_lo_bytes =
     prio_rx_new (bytes_channel new_sem queue cap_hi_bytes) (bytes_channel new_sem queue cap_lo_bytes)"

text \<open>The consumer's loop \<open>while let Some(x) = rx.recv().await\<close>, until it ends or parks.\<close>

fun prio_drain :: "nat \<Rightarrow> ('q \<Rightarrow> 'a option poll \<times> 'q) \<Rightarrow> ('q, 'a) prio_rx
    \<Rightarrow> ('a list \<times> bool \<times> ('q, 'a) prio_rx) option" where
  "prio_drain 0 poll_recv r = None"
| "prio_drain (Suc fuel) poll_recv r =
     (case prio_recv poll_recv r of
        (Ready None, r') \<Rightarrow> Some ([], True, r')
      | (Pending, r') \<Rightarrow> Some ([], False, r')
      | (Ready (Some x), r') \<Rightarrow> map_option (\<lambda>(xs, e, r''). (x # xs, e, r'')) (prio_drain fuel poll_recv r'))"

context fifo_queue
begin

lemma rx_ok_new [simp]: "rx_ok (prio_rx_new hi lo)"
  by (simp add: rx_ok_def prio_rx_new_def)

lemma prio_drain_queues:
  assumes "rx_ok r" "length (items (rx_hi r)) + length (items (rx_lo r)) < fuel"
  shows "\<exists>r'. prio_drain fuel poll_recv r =
      Some (items (rx_hi r) @ items (rx_lo r), senders_gone (rx_hi r) \<and> senders_gone (rx_lo r), r') \<and>
    items (rx_hi r') = [] \<and> items (rx_lo r') = [] \<and> rx_ok r'"
  using assms
proof (induction fuel arbitrary: r)
  case (Suc fuel)
  from recv_spec [OF Suc.prems(1)] obtain r' where r': "rx_ok r'"
    "senders_gone (rx_hi r') = senders_gone (rx_hi r)" "senders_gone (rx_lo r') = senders_gone (rx_lo r)"
    "items (rx_hi r') = tl (items (rx_hi r))"
    "items (rx_lo r') = (if items (rx_hi r) = [] then tl (items (rx_lo r)) else items (rx_lo r))"
    "prio_recv poll_recv r =
      (case items (rx_hi r) @ items (rx_lo r) of
         x # _ \<Rightarrow> Ready (Some x)
       | [] \<Rightarrow> if senders_gone (rx_hi r) \<and> senders_gone (rx_lo r) then Ready None else Pending, r')"
    by metis
  show ?case
  proof (cases "items (rx_hi r) @ items (rx_lo r)")
    case Nil
    with r' show ?thesis by simp
  next
    case (Cons x xs)
    have xs: "items (rx_hi r') @ items (rx_lo r') = xs"
      using Cons r'(4,5) by (cases "items (rx_hi r)") auto
    then have "length (items (rx_hi r')) + length (items (rx_lo r')) < fuel"
      using Suc.prems(2) Cons by (metis length_Cons length_append not_less_eq)
    from Suc.IH [OF r'(1) this] r'(2,3,6) Cons xs show ?thesis by auto
  qed
qed simp

end

section \<open>Properties\<close>

text \<open>
  A priority receiver returns the oldest value of the high half if there is one, else the oldest of
  the low half; it reports the end exactly when both halves are drained and all their senders
  are gone, and parks otherwise. Nothing is lost: the other values stay queued in order.
\<close>

theorem prio_recv_spec:
  "\<exists>r'. prio_recv mpsc_poll (prio_rx_new hi lo) =
      (case q_items hi @ q_items lo of
         x # _ \<Rightarrow> Ready (Some x)
       | [] \<Rightarrow> if q_closed hi \<and> q_closed lo then Ready None else Pending, r') \<and>
    q_items (rx_hi r') = tl (q_items hi) \<and>
    q_items (rx_lo r') = (if q_items hi = [] then tl (q_items lo) else q_items lo)"
  by (rule mpsc.recv_spec [OF mpsc.rx_ok_new, of hi lo]) (auto simp: prio_rx_new_def)

text \<open>
  Once its senders are gone, a byte-bounded priority channel is drained completely, all of the high half
  before any of the low half and each half in order, and then its consumer's loop ends.
\<close>

theorem prio_drain_complete:
  "\<exists>r'. prio_drain (length hs + length ls + 1) (bytes_recv sem_release mpsc_poll)
     (prio_rx_new \<lparr>bc_sem = s1, bc_queue = \<lparr>q_items = hs, q_closed = True\<rparr>, bc_cap = c1\<rparr>
        \<lparr>bc_sem = s2, bc_queue = \<lparr>q_items = ls, q_closed = True\<rparr>, bc_cap = c2\<rparr>) =
   Some (map snd hs @ map snd ls, True, r')"
  using budget.bounded.prio_drain_queues [OF budget.bounded.rx_ok_new,
      of "\<lparr>bc_sem = s1, bc_queue = \<lparr>q_items = hs, q_closed = True\<rparr>, bc_cap = c1\<rparr>"
         "\<lparr>bc_sem = s2, bc_queue = \<lparr>q_items = ls, q_closed = True\<rparr>, bc_cap = c2\<rparr>"
         "length hs + length ls + 1"]
  by (auto simp: prio_rx_new_def budget.queued_def)

text \<open>One use of a half: a send or a receive.\<close>

definition half_op :: "bytes option \<Rightarrow> (nat, permit_msg mpsc) bytes_chan \<Rightarrow> (nat, permit_msg mpsc) bytes_chan" where
  "half_op op c =
     (case op of
        Some bs \<Rightarrow> snd (bytes_send sem_acquire mpsc_push bs c)
      | None \<Rightarrow> snd (bytes_recv sem_release mpsc_poll c))"

lemma half_op_keeps:
  "budget.budget_ok c \<Longrightarrow> budget.budget_ok (half_op op c) \<and> bc_cap (half_op op c) = bc_cap c"
  using budget.budget_send [of c] budget.budget_recv [of c]
  by (auto simp: half_op_def bytes_send_def bytes_recv_def Let_def split: option.splits poll.splits prod.splits)

lemma half_ops_keep:
  "budget.budget_ok c \<Longrightarrow> budget.budget_ok (fold half_op ops c) \<and> bc_cap (fold half_op ops c) = bc_cap c"
  by (induction ops arbitrary: c) (use half_op_keeps in auto)

text \<open>
  The bytes queued on a half never exceed its capacity: whatever is sent and received, the free
  permits and the queued bytes add up to the capacity; a message larger than the capacity is
  refused at once, and a sender parks only when its message does not fit.
\<close>

theorem byte_budget_respected:
  assumes "c = fold half_op ops (bytes_channel id mpsc_new cap)"
  shows "bc_sem c + sum_list (map (length \<circ> snd) (q_items (bc_queue c))) = bc_cap c \<and> bc_cap c \<le> cap \<and>
    (fst (bytes_send sem_acquire mpsc_push bs c) = SendWaits \<longrightarrow>
       bc_cap c < sum_list (map (length \<circ> snd) (q_items (bc_queue c))) + length bs) \<and>
    (bc_cap c < length bs \<longrightarrow> bytes_send sem_acquire mpsc_push bs c = (SendErr bs, c))"
proof -
  have "budget.budget_ok (bytes_channel id mpsc_new cap)"
    by (rule budget.budget_new) (simp add: mpsc_new_def)
  from half_ops_keep [OF this, of ops] have c: "budget.budget_ok c" "bc_cap c = min cap (2 ^ 32 - 1)"
    by (simp_all add: assms bytes_channel_def Let_def)
  from budget.budget_send [OF c(1), of bs] c show ?thesis
    by (auto simp: budget.budget_defs bytes_send_def)
qed

theorem byte_budget_respected_witness:
  "bytes_send sem_acquire mpsc_push [1, 2, 3] (fold half_op [Some [9]] (bytes_channel id mpsc_new 2)) =
   (SendErr [1, 2, 3], fold half_op [Some [9]] (bytes_channel id mpsc_new 2))"
proof -
  let ?c = "fold half_op [Some [9]] (bytes_channel id mpsc_new 2)"
  have "bc_cap ?c \<le> 2" using byte_budget_respected [OF refl, of "[Some [9]]" 2 "[]"] by blast
  then have "bc_cap ?c < length [1, 2, 3 :: u8]" by simp
  then show ?thesis using byte_budget_respected [OF refl, of "[Some [9]]" 2 "[1, 2, 3]"] by blast
qed

end
