(* ===== verification/Agent_Mux.thy ===== *)
theory Agent_Mux
  imports Agent_Paste Prio_Channel Wire_Transport
begin

text \<open>
  The agent's multiplexer, from \<open>agent/src/main.rs\<close>: the limits and the reconnect back-off of
  \<open>main\<close>, the priority writer (\<open>send_frame_to_hub\<close>), the frame dispatch of \<open>run_session\<close> and the
  per-stream task \<open>run_session_stream\<close>.

  A stream task is a record; each \<open>stream_op\<close> is one turn of one of its two loops, or something another
  task does to the shared session meanwhile. A broadcast receiver is a queue that drops its oldest
  entries when it is full. What the task handed to the writer is kept per half, in order.
  The JSON of a session list and the text of a spawn failure are arguments. The last section follows the
  sessions across connections, with the collector's passes of \<open>session.rs\<close> taken apart.
\<close>

section \<open>Limits and reconnecting\<close>

definition DEFAULT_SCROLLBACK_CAP_BYTES :: nat where "DEFAULT_SCROLLBACK_CAP_BYTES = 8 * 1024 * 1024"
definition DEFAULT_IDLE_TTL :: nat where "DEFAULT_IDLE_TTL = 24 * 60 * 60"
definition DEFAULT_MAX_PENDING_PASTES :: nat where "DEFAULT_MAX_PENDING_PASTES = 32"
definition DEFAULT_MAX_PENDING_GROUPS :: nat where "DEFAULT_MAX_PENDING_GROUPS = 32"
definition DEFAULT_MAX_SESSIONS :: nat where "DEFAULT_MAX_SESSIONS = 64"
definition WRITE_HI_BYTES :: nat where "WRITE_HI_BYTES = 4 * 1024 * 1024"
definition WRITE_LO_BYTES :: nat where "WRITE_LO_BYTES = 16 * 1024 * 1024"
definition STREAM_HI_CAP :: nat where "STREAM_HI_CAP = 64"
definition STREAM_LO_CAP :: nat where "STREAM_LO_CAP = 16"
definition BROADCAST_CAP :: nat where "BROADCAST_CAP = 1024"
definition DOWNLOAD_BROADCAST_CAP :: nat where "DOWNLOAD_BROADCAST_CAP = 32"

record config_limits =
  cl_scrollback_cap_bytes :: "nat option"
  cl_idle_ttl_secs :: "nat option"
  cl_max_pending_pastes_per_stream :: "nat option"
  cl_max_pending_groups_per_stream :: "nat option"
  cl_max_sessions :: "nat option"

definition limits_default :: limits where
  "limits_default =
     \<lparr>scrollback_cap_bytes = DEFAULT_SCROLLBACK_CAP_BYTES, idle_ttl_secs = DEFAULT_IDLE_TTL,
      max_pending_pastes_per_stream = DEFAULT_MAX_PENDING_PASTES,
      max_pending_groups_per_stream = DEFAULT_MAX_PENDING_GROUPS,
      lim_max_sessions = DEFAULT_MAX_SESSIONS\<rparr>"

definition unwrap_or :: "'a option \<Rightarrow> 'a \<Rightarrow> 'a" where
  "unwrap_or x d = (case x of Some v \<Rightarrow> v | None \<Rightarrow> d)"

definition limits_resolve :: "config_limits \<Rightarrow> limits" where
  "limits_resolve c =
     (let d = limits_default in
      \<lparr>scrollback_cap_bytes = unwrap_or (cl_scrollback_cap_bytes c) (scrollback_cap_bytes d),
       idle_ttl_secs = unwrap_or (cl_idle_ttl_secs c) (idle_ttl_secs d),
       max_pending_pastes_per_stream =
         unwrap_or (cl_max_pending_pastes_per_stream c) (max_pending_pastes_per_stream d),
       max_pending_groups_per_stream =
         unwrap_or (cl_max_pending_groups_per_stream c) (max_pending_groups_per_stream d),
       lim_max_sessions = unwrap_or (cl_max_sessions c) (lim_max_sessions d)\<rparr>)"

text \<open>Durations of the reconnect loop are in milliseconds.\<close>

definition RECONNECT_INITIAL :: nat where "RECONNECT_INITIAL = 1000"
definition RECONNECT_MAX :: nat where "RECONNECT_MAX = 60 * 1000"
definition HEALTHY_SESSION :: nat where "HEALTHY_SESSION = 30 * 1000"

text \<open>One turn of the loop of \<open>main\<close>: how long it sleeps, and the next back-off.\<close>

definition reconnect_step :: "bool \<Rightarrow> nat \<Rightarrow> nat \<Rightarrow> nat \<times> nat" where
  "reconnect_step clean lasted backoff =
     (if clean \<and> lasted \<ge> HEALTHY_SESSION then (250, RECONNECT_INITIAL)
      else (backoff, min (backoff * 2) RECONNECT_MAX))"

fun reconnect_sleeps :: "(bool \<times> nat) list \<Rightarrow> nat \<Rightarrow> nat list" where
  "reconnect_sleeps [] backoff = []"
| "reconnect_sleeps ((clean, lasted) # rs) backoff =
     (let (slept, b) = reconnect_step clean lasted backoff in slept # reconnect_sleeps rs b)"

section \<open>The writer\<close>

text \<open>What was handed to each half of the agent's writer; \<open>tx_open\<close> until the writer task ends.\<close>

record prio_tx =
  tx_hi :: "bytes list"
  tx_lo :: "bytes list"
  tx_open :: bool

datatype half = Hi | Lo

definition half_send :: "half \<Rightarrow> bytes \<Rightarrow> prio_tx \<Rightarrow> bool \<times> prio_tx" where
  "half_send h bs w =
     (if length bs > (case h of Hi \<Rightarrow> WRITE_HI_BYTES | Lo \<Rightarrow> WRITE_LO_BYTES) \<or> \<not> tx_open w then (False, w)
      else (True, case h of Hi \<Rightarrow> w\<lparr>tx_hi := tx_hi w @ [bs]\<rparr> | Lo \<Rightarrow> w\<lparr>tx_lo := tx_lo w @ [bs]\<rparr>))"

definition hub_half :: "frame_type \<Rightarrow> half" where
  "hub_half ty =
     (case ty of FtDownloadBegin \<Rightarrow> Lo | FtDownloadChunk \<Rightarrow> Lo | FtDownloadEnd \<Rightarrow> Lo | _ \<Rightarrow> Hi)"

definition send_frame_to_hub :: "frame \<Rightarrow> prio_tx \<Rightarrow> bool \<times> prio_tx" where
  "send_frame_to_hub f w = half_send (hub_half (ty_of f)) (encode f) w"

text \<open>A loop of sends that stops at the first failure.\<close>

fun send_frames :: "frame list \<Rightarrow> prio_tx \<Rightarrow> bool \<times> prio_tx" where
  "send_frames [] w = (True, w)"
| "send_frames (f # fs) w =
     (case send_frame_to_hub f w of (False, w) \<Rightarrow> (False, w) | (True, w) \<Rightarrow> send_frames fs w)"

text \<open>\<open>slice::chunks\<close>\<close>

function chunks :: "nat \<Rightarrow> 'a list \<Rightarrow> 'a list list" where
  "chunks n xs = (if n = 0 \<or> xs = [] then [] else take n xs # chunks n (drop n xs))"
  by pat_completeness auto
termination by (relation "measure (\<lambda>(n, xs). length xs)") auto

declare chunks.simps [simp del]

section \<open>Broadcast receivers\<close>

datatype 'a recv_item = Got 'a | Lagged nat | Ended

record 'a bcast_rx =
  br_items :: "'a list"
  br_lost :: nat
  br_closed :: bool

definition bcast_new :: "'a bcast_rx" where
  "bcast_new = \<lparr>br_items = [], br_lost = 0, br_closed = False\<rparr>"

definition bcast_push :: "nat \<Rightarrow> 'a \<Rightarrow> 'a bcast_rx \<Rightarrow> 'a bcast_rx" where
  "bcast_push cap x r =
     (if length (br_items r) \<ge> cap
      then r\<lparr>br_items := tl (br_items r) @ [x], br_lost := br_lost r + 1\<rparr>
      else r\<lparr>br_items := br_items r @ [x]\<rparr>)"

text \<open>\<open>None\<close>: nothing is there yet. First a gap is reported, then the queued entries, then the end.\<close>

definition bcast_recv :: "'a bcast_rx \<Rightarrow> 'a recv_item option \<times> 'a bcast_rx" where
  "bcast_recv r =
     (if br_lost r > 0 then (Some (Lagged (br_lost r)), r\<lparr>br_lost := 0\<rparr>)
      else (case br_items r of
              x # xs \<Rightarrow> (Some (Got x), r\<lparr>br_items := xs\<rparr>)
            | [] \<Rightarrow> (if br_closed r then Some Ended else None, r)))"

section \<open>The stream task\<close>

record stream_task =
  tk_sid :: stream_id
  tk_session :: session
  tk_paste :: paste_state
  tk_tx :: prio_tx
  tk_events :: "session_event bcast_rx"
  tk_downloads :: "download_event bcast_rx"
  tk_done :: bool

text \<open>Events go to every subscriber, so to this task's queues as well.\<close>

fun deliver :: "effect list \<Rightarrow> stream_task \<Rightarrow> stream_task" where
  "deliver [] t = t"
| "deliver (Broadcast ev # es) t =
     deliver es (t\<lparr>tk_events := bcast_push BROADCAST_CAP ev (tk_events t)\<rparr>)"
| "deliver (BroadcastDl ev # es) t =
     deliver es (t\<lparr>tk_downloads := bcast_push DOWNLOAD_BROADCAST_CAP ev (tk_downloads t)\<rparr>)"
| "deliver (_ # es) t = deliver es t"

definition initial_status :: "stream_id \<Rightarrow> stream_id option \<Rightarrow> u8" where
  "initial_status sid c =
     (case c of
        None \<Rightarrow> CONTROLLER_STATUS_NONE
      | Some c \<Rightarrow> if c = sid then CONTROLLER_STATUS_SELF else CONTROLLER_STATUS_OTHER)"

definition event_status :: "stream_id \<Rightarrow> stream_id \<Rightarrow> u8" where
  "event_status sid c =
     (if c = CONTROLLER_NONE_STREAM_ID then CONTROLLER_STATUS_NONE
      else if c = sid then CONTROLLER_STATUS_SELF
      else CONTROLLER_STATUS_OTHER)"

definition data_frames :: "stream_id \<Rightarrow> bytes \<Rightarrow> frame list" where
  "data_frames sid bs = map (frame_data sid) (chunks (unat MAX_DATA_LEN) bs)"

text \<open>
  The head of \<open>run_session_stream\<close>. A refused session is reported as one line on the stream; otherwise
  the stream attaches, replays the scrollback and tells the browser who controls the session.
\<close>

definition mgr_error_text :: "(mgr_error \<Rightarrow> bytes) \<Rightarrow> nat \<Rightarrow> mgr_error \<Rightarrow> bytes" where
  "mgr_error_text spawn_text maxs e =
     (case e of
        SessionLimit \<Rightarrow> bstr ''session limit reached ('' @ dec_of_nat maxs @
          bstr '' live sessions on this host); close an existing tab first''
      | SpawnFailed \<Rightarrow> spawn_text e)"

definition stream_attach ::
    "stream_id \<Rightarrow> term_size \<Rightarrow> nat \<Rightarrow> session \<Rightarrow> store \<Rightarrow> prio_tx \<Rightarrow> stream_task \<times> effect list" where
  "stream_attach sid geom now s st w =
     (let (s1, effs, ar) = attach sid geom now s;
          (_, w1) = send_frames (data_frames sid (ar_scrollback ar)) w;
          (_, w2) = send_frame_to_hub
            (frame_controller_changed sid (initial_status sid (ar_current_controller ar))) w1
      in (deliver effs \<lparr>tk_sid = sid, tk_session = s1, tk_paste = paste_init st, tk_tx = w2,
            tk_events = bcast_new, tk_downloads = bcast_new, tk_done = False\<rparr>, effs))"

definition stream_start ::
    "(mgr_error \<Rightarrow> bytes) \<Rightarrow> stream_id \<Rightarrow> bytes \<Rightarrow> term_size \<Rightarrow> nat \<Rightarrow> (bytes \<times> paste_style) option
       \<Rightarrow> store \<Rightarrow> manager \<Rightarrow> prio_tx \<Rightarrow> manager \<times> prio_tx \<times> (nat \<times> stream_task \<times> effect list) option" where
  "stream_start spawn_text sid session_id initial_size now spawned st m w =
     (case lookup_or_spawn session_id initial_size now spawned m of
        (m1, Inl e) \<Rightarrow>
          let (_, w1) = send_frame_to_hub
                (frame_data sid ([0x0D, 0x0A] @ bstr ''term-agent: '' @
                   mgr_error_text spawn_text (max_sessions m) e @ [0x0D, 0x0A])) w
          in (m1, w1, None)
      | (m1, Inr h) \<Rightarrow>
          let (t, effs) = stream_attach sid initial_size now (arena m1 ! h) st w
          in (m1\<lparr>arena := (arena m1)[h := tk_session t]\<rparr>, tk_tx t, Some (h, t, effs)))"

subsection \<open>Outbound\<close>

text \<open>The frame of a download event, and the bytes put on the low half for it.\<close>

fun dl_frame :: "stream_id \<Rightarrow> download_event \<Rightarrow> frame" where
  "dl_frame sid (DlBegin i total_size name) = frame_download_begin sid i total_size name"
| "dl_frame sid (DlChunk i bs) = frame_download_chunk sid i bs"
| "dl_frame sid (DlEnd i status) = frame_download_end sid i status"

fun send_download :: "stream_id \<Rightarrow> download_event \<Rightarrow> prio_tx \<Rightarrow> bool \<times> prio_tx" where
  "send_download sid (DlBegin i total_size name) w = send_frame_to_hub (frame_download_begin sid i total_size name) w"
| "send_download sid (DlChunk i bs) w = half_send Lo (encode_download_chunk sid i bs) w"
| "send_download sid (DlEnd i status) w = send_frame_to_hub (frame_download_end sid i status) w"

text \<open>The \<open>try_recv\<close> loop of the \<open>Closed\<close> branch.\<close>

function flush_downloads :: "stream_id \<Rightarrow> download_event bcast_rx \<Rightarrow> prio_tx \<Rightarrow> download_event bcast_rx \<times> prio_tx" where
  "flush_downloads sid r w =
     (case bcast_recv r of
        (Some (Got ev), r') \<Rightarrow> flush_downloads sid r' (snd (send_download sid ev w))
      | (_, r') \<Rightarrow> (r', w))"
  by pat_completeness auto
termination
  by (relation "measure (\<lambda>(sid, r, w). length (br_items r))")
    (auto simp: bcast_recv_def split: if_splits list.splits)

declare flush_downloads.simps [simp del]

definition outbound_event :: "stream_task \<Rightarrow> stream_task" where
  "outbound_event t =
     (case bcast_recv (tk_events t) of
        (None, r) \<Rightarrow> t
      | (Some (Got (SData bs)), r) \<Rightarrow>
          let (ok, w) = send_frames (data_frames (tk_sid t) bs) (tk_tx t)
          in t\<lparr>tk_events := r, tk_tx := w, tk_done := \<not> ok\<rparr>
      | (Some (Got (SControllerChanged c)), r) \<Rightarrow>
          let (ok, w) = send_frame_to_hub
                (frame_controller_changed (tk_sid t) (event_status (tk_sid t) c)) (tk_tx t)
          in t\<lparr>tk_events := r, tk_tx := w, tk_done := \<not> ok\<rparr>
      | (Some (Got SClosed), r) \<Rightarrow>
          let (d, w1) = flush_downloads (tk_sid t) (tk_downloads t) (tk_tx t);
              (_, w2) = send_frame_to_hub (frame_close (tk_sid t)) w1
          in t\<lparr>tk_events := r, tk_downloads := d, tk_tx := w2, tk_done := True\<rparr>
      | (Some (Lagged n), r) \<Rightarrow> t\<lparr>tk_events := r\<rparr>
      | (Some Ended, r) \<Rightarrow> t\<lparr>tk_events := r, tk_done := True\<rparr>)"

definition outbound_download :: "stream_task \<Rightarrow> stream_task" where
  "outbound_download t =
     (case bcast_recv (tk_downloads t) of
        (None, r) \<Rightarrow> t
      | (Some (Got ev), r) \<Rightarrow>
          let (ok, w) = send_download (tk_sid t) ev (tk_tx t)
          in t\<lparr>tk_downloads := r, tk_tx := w, tk_done := \<not> ok\<rparr>
      | (Some (Lagged n), r) \<Rightarrow> t\<lparr>tk_downloads := r\<rparr>
      | (Some Ended, r) \<Rightarrow> t\<lparr>tk_downloads := r, tk_done := True\<rparr>)"

subsection \<open>Inbound\<close>

definition run_session_op :: "sess_op \<Rightarrow> stream_task \<Rightarrow> stream_task \<times> effect list" where
  "run_session_op a t =
     (let (s, effs) = sess_step a (tk_session t) in (deliver effs (t\<lparr>tk_session := s\<rparr>), effs))"

definition run_paste :: "paste_result \<Rightarrow> stream_task \<Rightarrow> stream_task \<times> effect list" where
  "run_paste r t =
     (case r of (p, fs, effs) \<Rightarrow>
        (t\<lparr>tk_paste := p, tk_tx := fold (\<lambda>f w. snd (send_frame_to_hub f w)) fs (tk_tx t)\<rparr>, effs))"

definition inbound_body :: "limits \<Rightarrow> paste_env \<Rightarrow> body \<Rightarrow> stream_task \<Rightarrow> stream_task \<times> effect list" where
  "inbound_body lim env b t =
     (let sid = tk_sid t in
      case b of
        BData bs \<Rightarrow> run_session_op (OpInput sid bs) t
      | BResize rows cols \<Rightarrow> run_session_op (OpResize sid rows cols) t
      | BAcquireControl \<Rightarrow> run_session_op (OpAcquire sid) t
      | BReleaseControl \<Rightarrow> run_session_op (OpRelease sid) t
      | BTakeControl \<Rightarrow> run_session_op (OpTake sid) t
      | BPasteBegin paste_id total_size group_id group_size name \<Rightarrow>
          if is_controller sid (tk_session t)
          then run_paste (handle_paste_begin lim env sid paste_id total_size group_id group_size name (tk_paste t)) t
          else run_paste (tk_paste t, reject sid paste_id PASTE_REJECT_NOT_CONTROLLER, []) t
      | BPasteChunk paste_id bs \<Rightarrow> run_paste (handle_paste_chunk env sid paste_id bs (tk_paste t)) t
      | BPasteEnd paste_id status \<Rightarrow>
          run_paste (handle_paste_end sid paste_id status (tk_session t) (tk_paste t)) t
      | BClose \<Rightarrow> (t\<lparr>tk_done := True\<rparr>, [])
      | _ \<Rightarrow> (t, []))"

text \<open>After the \<open>select!\<close>: the stream detaches and its unfinished uploads are removed.\<close>

definition stream_end :: "nat \<Rightarrow> stream_task \<Rightarrow> stream_task \<times> effect list" where
  "stream_end now t =
     (let (s, effs) = detach (tk_sid t) now (tk_session t)
      in (t\<lparr>tk_session := s, tk_paste := paste_cleanup (tk_paste t), tk_done := True\<rparr>, effs))"

datatype stream_op =
    StEvent
  | StDownload
  | StIn limits paste_env body
  | StSession sess_op
  | StDownloadTask "download_event list"

definition stream_step :: "stream_op \<Rightarrow> stream_task \<Rightarrow> stream_task \<times> effect list" where
  "stream_step a t =
     (case a of
        StEvent \<Rightarrow> (if tk_done t then t else outbound_event t, [])
      | StDownload \<Rightarrow> (if tk_done t then t else outbound_download t, [])
      | StIn lim env b \<Rightarrow> if tk_done t then (t, []) else inbound_body lim env b t
      | StSession op \<Rightarrow> run_session_op op t
      | StDownloadTask evs \<Rightarrow> (deliver (map BroadcastDl evs) t, map BroadcastDl evs))"

fun stream_run :: "stream_op list \<Rightarrow> stream_task \<Rightarrow> stream_task \<times> effect list" where
  "stream_run [] t = (t, [])"
| "stream_run (a # as) t =
     (let (t1, e1) = stream_step a t; (t2, e2) = stream_run as t1 in (t2, e1 @ e2))"

text \<open>The receiver of terminal events never fell behind so far as to lose one.\<close>

fun lag_free :: "stream_op list \<Rightarrow> stream_task \<Rightarrow> bool" where
  "lag_free [] t = (br_lost (tk_events t) = 0 \<and> br_lost (tk_downloads t) = 0)"
| "lag_free (a # as) t =
     (br_lost (tk_events t) = 0 \<and> br_lost (tk_downloads t) = 0 \<and> lag_free as (fst (stream_step a t)))"

section \<open>The connection\<close>

text \<open>
  Each stream has a bounded channel with two halves; the registry maps a stream to its channel. The
  sender in the registry is the only one, so a channel that is no longer registered is closed
  for its stream task. \<open>sc_alive\<close>: the stream task still holds the receiver.
\<close>

record stream_chan =
  sc_hi :: "body list"
  sc_lo :: "body list"
  sc_alive :: bool

record link =
  lk_streams :: "(stream_id, nat) hash_map"
  lk_chans :: "stream_chan list"
  lk_tx :: prio_tx

datatype spawned_task =
    ListTask u32
  | KillTask u32 bytes
  | StreamTask stream_id bytes term_size nat

datatype link_error = HubSentHello | UnexpectedControlFrame

definition half_lo :: "body \<Rightarrow> bool" where
  "half_lo b = (case b of BPasteBegin _ _ _ _ _ \<Rightarrow> True | BPasteChunk _ _ \<Rightarrow> True | BPasteEnd _ _ \<Rightarrow> True | _ \<Rightarrow> False)"

definition chan_try_send :: "body \<Rightarrow> stream_chan \<Rightarrow> stream_chan option" where
  "chan_try_send b c =
     (if \<not> sc_alive c then None
      else if half_lo b
      then (if length (sc_lo c) \<ge> STREAM_LO_CAP then None else Some (c\<lparr>sc_lo := sc_lo c @ [b]\<rparr>))
      else (if length (sc_hi c) \<ge> STREAM_HI_CAP then None else Some (c\<lparr>sc_hi := sc_hi c @ [b]\<rparr>)))"

text \<open>The body of the reader loop of \<open>run_session\<close>, for one frame.\<close>

definition route_body :: "stream_id \<Rightarrow> body \<Rightarrow> link \<Rightarrow> link" where
  "route_body sid b l =
     (case hm_get (lk_streams l) sid of
        Some c \<Rightarrow>
          (case chan_try_send b (lk_chans l ! c) of
             Some ch \<Rightarrow> l\<lparr>lk_chans := (lk_chans l)[c := ch]\<rparr>
           | None \<Rightarrow> l\<lparr>lk_streams := hm_remove sid (lk_streams l)\<rparr>)
      | None \<Rightarrow> l)"

definition chan_new :: stream_chan where
  "chan_new = \<lparr>sc_hi = [], sc_lo = [], sc_alive = True\<rparr>"

definition dispatch :: "frame \<Rightarrow> link \<Rightarrow> link_error + link \<times> spawned_task list" where
  "dispatch f l =
     (let sid = fstream f in
      if sid = 0
      then (case fbody f of
              BPing p \<Rightarrow> Inr (l\<lparr>lk_tx := snd (send_frame_to_hub (frame_pong p) (lk_tx l))\<rparr>, [])
            | BPong _ \<Rightarrow> Inr (l, [])
            | BHello _ \<Rightarrow> Inl HubSentHello
            | BListSessions request_id \<Rightarrow> Inr (l, [ListTask request_id])
            | BKillSession request_id session_id \<Rightarrow> Inr (l, [KillTask request_id session_id])
            | _ \<Rightarrow> Inl UnexpectedControlFrame)
      else (case fbody f of
              BOpen session_id initial_size \<Rightarrow>
                let c = length (lk_chans l) in
                Inr (l\<lparr>lk_chans := lk_chans l @ [chan_new], lk_streams := hm_insert sid c (lk_streams l)\<rparr>,
                     [StreamTask sid session_id initial_size c])
            | b \<Rightarrow> Inr (route_body sid b l, [])))"

fun dispatch_all :: "frame list \<Rightarrow> link \<Rightarrow> link_error + link \<times> spawned_task list" where
  "dispatch_all [] l = Inr (l, [])"
| "dispatch_all (f # fs) l =
     bindE (dispatch f l) (\<lambda>(l1, ts1). bindE (dispatch_all fs l1) (\<lambda>(l2, ts2). Inr (l2, ts1 @ ts2)))"

text \<open>
  The tasks that answer the hub's requests, and the end of a stream: the task drops its
  receiver, closes the stream towards the hub and removes it from the registry. At the end of the
  connection the registry is cleared; the sessions stay.
\<close>

record session_info =
  si_id :: bytes
  si_idle_secs :: nat
  si_attached :: nat
  si_has_controller :: bool

definition mgr_list :: "manager \<Rightarrow> session list" where
  "mgr_list m = map (\<lambda>(i, h). arena m ! h) (smap m)"

definition session_list_info :: "nat \<Rightarrow> manager \<Rightarrow> session_info list" where
  "session_list_info now m =
     map (\<lambda>s. \<lparr>si_id = sess_id s, si_idle_secs = now - last_attached_at s,
               si_attached = length (attached s), si_has_controller = controller s \<noteq> None\<rparr>) (mgr_list m)"

definition list_task :: "(session_info list \<Rightarrow> bytes) \<Rightarrow> nat \<Rightarrow> u32 \<Rightarrow> manager \<Rightarrow> prio_tx \<Rightarrow> prio_tx" where
  "list_task to_json now request_id m w =
     snd (send_frame_to_hub (frame_session_list request_id (to_json (session_list_info now m))) w)"

definition kill_task :: "u32 \<Rightarrow> bytes \<Rightarrow> manager \<Rightarrow> prio_tx \<Rightarrow> manager \<times> prio_tx \<times> (nat \<times> effect) list" where
  "kill_task request_id session_id m w =
     (case mgr_remove session_id m of
        (m1, Some h) \<Rightarrow>
          (m1, snd (send_frame_to_hub (frame_kill_session_ack request_id KILL_STATUS_OK) w),
           map (Pair h) (snd (session_kill (arena m1 ! h))))
      | (m1, None) \<Rightarrow>
          (m1, snd (send_frame_to_hub (frame_kill_session_ack request_id KILL_STATUS_NOT_FOUND) w), []))"

definition stream_finish :: "stream_id \<Rightarrow> nat \<Rightarrow> link \<Rightarrow> link" where
  "stream_finish sid c l =
     l\<lparr>lk_chans := (lk_chans l)[c := (lk_chans l ! c)\<lparr>sc_alive := False\<rparr>],
       lk_tx := snd (send_frame_to_hub (frame_close sid) (lk_tx l)),
       lk_streams := hm_remove sid (lk_streams l)\<rparr>"

definition link_teardown :: "link \<Rightarrow> link" where
  "link_teardown l = l\<lparr>lk_streams := []\<rparr>"

section \<open>What reaches the hub\<close>

lemma concat_chunks [simp]: "0 < n \<Longrightarrow> concat (chunks n xs) = xs"
proof (induction n xs rule: chunks.induct)
  case (1 n xs)
  then show ?case by (cases "xs = []") (simp_all add: chunks.simps [of n xs] chunks.simps [of n "[]"])
qed

lemma chunks_bound: "c \<in> set (chunks n xs) \<Longrightarrow> 0 < length c \<and> length c \<le> n"
proof (induction n xs rule: chunks.induct)
  case (1 n xs)
  from "1.prems" have "n \<noteq> 0 \<and> xs \<noteq> [] \<and> (c = take n xs \<or> c \<in> set (chunks n (drop n xs)))"
    by (simp add: chunks.simps [of n xs] split: if_splits)
  with "1.IH" show ?case by auto
qed

text \<open>The frame the hub decodes from a message.\<close>

definition wire_frame :: "bytes \<Rightarrow> frame option" where
  "wire_frame bs = (case frame_from_ws_payload bs of Inr (f, _) \<Rightarrow> Some f | Inl _ \<Rightarrow> None)"

lemma wire_frame_iff: "wire_frame bs = Some f \<longleftrightarrow> wf_frame f \<and> bs = encode f"
proof (cases "frame_from_ws_payload bs")
  case (Inl e)
  with ws_payload_iff [of bs f "word_of_nat (length bs)"] show ?thesis by (simp add: wire_frame_def)
next
  case (Inr r)
  obtain g n where r: "r = (g, n)" by fastforce
  with Inr ws_payload_iff [of bs g n] ws_payload_iff [of bs f n] show ?thesis
    by (auto simp: wire_frame_def)
qed

definition carries :: "stream_id \<Rightarrow> bytes \<Rightarrow> bool" where
  "carries sid bs \<longleftrightarrow> (\<exists>f. wire_frame bs = Some f \<and> fstream f = sid)"

definition frame_ok :: "frame \<Rightarrow> bool" where
  "frame_ok f \<longleftrightarrow> carries (fstream f) (encode f)"

lemma wf_frame_ok [intro]: "wf_frame f \<Longrightarrow> frame_ok f"
  by (auto simp: frame_ok_def carries_def wire_frame_iff)

lemma carries_wf: "wf_frame f \<Longrightarrow> fstream f = sid \<Longrightarrow> carries sid (encode f)"
  by (auto simp: carries_def wire_frame_iff)

lemma carries_length: "carries sid bs \<Longrightarrow> length bs \<le> 1048589"
  using wf_payload_length by (auto simp: carries_def wire_frame_iff length_encode wf_frame_def)

lemma half_send_ok:
  "carries sid bs \<Longrightarrow> tx_open w \<Longrightarrow> half_send h bs w =
     (True, case h of Hi \<Rightarrow> w\<lparr>tx_hi := tx_hi w @ [bs]\<rparr> | Lo \<Rightarrow> w\<lparr>tx_lo := tx_lo w @ [bs]\<rparr>)"
  using carries_length [of sid bs]
  by (simp add: half_send_def WRITE_HI_BYTES_def WRITE_LO_BYTES_def split: half.splits)

lemma send_frame_ok:
  "frame_ok f \<Longrightarrow> tx_open w \<Longrightarrow> send_frame_to_hub f w =
     (True, case hub_half (ty_of f) of Hi \<Rightarrow> w\<lparr>tx_hi := tx_hi w @ [encode f]\<rparr>
        | Lo \<Rightarrow> w\<lparr>tx_lo := tx_lo w @ [encode f]\<rparr>)"
  by (simp add: send_frame_to_hub_def frame_ok_def half_send_ok)

lemma hub_half_simps [simp]:
  "hub_half (ty_of (frame_data sid bs)) = Hi"
  "hub_half (ty_of (frame_controller_changed sid st)) = Hi"
  "hub_half (ty_of (frame_close sid)) = Hi"
  "hub_half (ty_of (frame_paste_reject sid i r)) = Hi"
  "hub_half (ty_of (dl_frame sid ev)) = Lo"
  by (simp_all add: hub_half_def ty_of_def frame_data_def frame_controller_changed_def frame_close_def
      frame_paste_reject_def)
    (cases ev; simp add: frame_download_begin_def frame_download_chunk_def frame_download_end_def)

lemma wf_stream_frames [simp]:
  "sid \<noteq> 0 \<Longrightarrow> length bs \<le> 65536 \<Longrightarrow> wf_frame (frame_data sid bs)"
  "sid \<noteq> 0 \<Longrightarrow> st \<le> CONTROLLER_STATUS_OTHER \<Longrightarrow> wf_frame (frame_controller_changed sid st)"
  "sid \<noteq> 0 \<Longrightarrow> wf_frame (frame_close sid)"
  "sid \<noteq> 0 \<Longrightarrow> r \<le> PASTE_REJECT_MAX_REASON \<Longrightarrow> wf_frame (frame_paste_reject sid i r)"
  by (simp_all add: wf_frame_def frame_data_def frame_controller_changed_def frame_close_def
      frame_paste_reject_def)

lemma fstream_simps [simp]:
  "fstream (frame_data sid bs) = sid" "fstream (frame_controller_changed sid st) = sid"
  "fstream (frame_close sid) = sid" "fstream (frame_paste_reject sid i r) = sid"
  "fstream (dl_frame sid ev) = sid"
  by (simp_all add: frame_data_def frame_controller_changed_def frame_close_def frame_paste_reject_def)
    (cases ev; simp add: frame_download_begin_def frame_download_chunk_def frame_download_end_def)

lemma status_bound [simp]: "initial_status sid c \<le> 2" "event_status sid d \<le> 2"
  by (simp_all add: initial_status_def event_status_def split: option.splits)

lemma send_frames_hi:
  "list_all (\<lambda>f. frame_ok f \<and> hub_half (ty_of f) = Hi) fs \<Longrightarrow> tx_open w \<Longrightarrow>
     send_frames fs w = (True, w\<lparr>tx_hi := tx_hi w @ map encode fs\<rparr>)"
  by (induction fs arbitrary: w) (simp_all add: send_frame_ok)

lemma send_data_frames:
  "sid \<noteq> 0 \<Longrightarrow> tx_open w \<Longrightarrow>
     send_frames (data_frames sid bs) w = (True, w\<lparr>tx_hi := tx_hi w @ map encode (data_frames sid bs)\<rparr>)"
  by (rule send_frames_hi) (auto simp: data_frames_def list_all_iff dest!: chunks_bound)

subsection \<open>Download frames\<close>

fun dl_event_ok :: "download_event \<Rightarrow> bool" where
  "dl_event_ok (DlBegin i tot name) \<longleftrightarrow> tot \<le> MAX_PASTE_TOTAL_BYTES \<and> utf8_valid name"
| "dl_event_ok (DlChunk i bs) \<longleftrightarrow> length bs \<le> 1048576"
| "dl_event_ok (DlEnd i status) \<longleftrightarrow> status = DOWNLOAD_STATUS_OK \<or> status = DOWNLOAD_STATUS_CANCEL"

lemma dl_frame_ok: "sid \<noteq> 0 \<Longrightarrow> dl_event_ok ev \<Longrightarrow> frame_ok (dl_frame sid ev)"
proof (cases ev)
  case (DlBegin i tot name)
  assume "sid \<noteq> 0" "dl_event_ok ev"
  then have "wf_frame (frame_download_begin sid i tot (take (name_cut name) name))"
    using DlBegin name_cut_le(1) [of name] name_cut_valid
    by (simp add: wf_frame_def frame_download_begin_def min_def)
  moreover have "encode (frame_download_begin sid i tot name) =
      encode (frame_download_begin sid i tot (take (name_cut name) name))"
    using enc_download_begin_cut [of i tot name] by (simp add: encode_def frame_download_begin_def ty_of_def)
  ultimately show ?thesis
    using DlBegin by (auto simp: frame_ok_def carries_def wire_frame_iff frame_download_begin_def)
qed (auto simp: wf_frame_def frame_download_chunk_def frame_download_end_def)

text \<open>Chunks skip the general encoder, but all three kinds end up on the low half, encoded alike.\<close>

lemma send_download_eq: "send_download sid ev w = half_send Lo (encode (dl_frame sid ev)) w"
  by (cases ev) (simp_all add: send_frame_to_hub_def encode_download_chunk_eq
      hub_half_def ty_of_def frame_download_begin_def frame_download_end_def)

lemma send_download_ok:
  "sid \<noteq> 0 \<Longrightarrow> dl_event_ok ev \<Longrightarrow> tx_open w \<Longrightarrow>
     send_download sid ev w = (True, w\<lparr>tx_lo := tx_lo w @ [encode (dl_frame sid ev)]\<rparr>)"
  using dl_frame_ok [of sid ev] by (simp add: send_download_eq frame_ok_def half_send_ok)

lemma flush_downloads_ok:
  assumes "sid \<noteq> 0" "br_lost r = 0" "list_all dl_event_ok (br_items r)" "tx_open w"
  shows "flush_downloads sid r w =
    (r\<lparr>br_items := []\<rparr>, w\<lparr>tx_lo := tx_lo w @ map (\<lambda>ev. encode (dl_frame sid ev)) (br_items r)\<rparr>)"
  using assms
proof (induction "br_items r" arbitrary: r w)
  case Nil
  then show ?case by (simp add: flush_downloads.simps [of sid r w] bcast_recv_def)
next
  case (Cons ev evs)
  have r: "br_items r = ev # evs" using Cons.hyps(2) by simp
  have "flush_downloads sid r w =
      flush_downloads sid (r\<lparr>br_items := evs\<rparr>) (w\<lparr>tx_lo := tx_lo w @ [encode (dl_frame sid ev)]\<rparr>)"
    using Cons.prems by (simp add: flush_downloads.simps [of sid r w] bcast_recv_def send_download_ok r)
  with Cons.hyps(1) [of "r\<lparr>br_items := evs\<rparr>"] Cons.prems show ?case by (simp add: r)
qed

subsection \<open>One turn of a stream task\<close>

fun events_of :: "effect list \<Rightarrow> session_event list" where
  "events_of [] = []"
| "events_of (Broadcast ev # es) = ev # events_of es"
| "events_of (_ # es) = events_of es"

fun downloads_of :: "effect list \<Rightarrow> download_event list" where
  "downloads_of [] = []"
| "downloads_of (BroadcastDl ev # es) = ev # downloads_of es"
| "downloads_of (_ # es) = downloads_of es"

definition event_data :: "session_event list \<Rightarrow> bytes" where
  "event_data evs = concat (map (\<lambda>ev. case ev of SData bs \<Rightarrow> bs | _ \<Rightarrow> []) evs)"

lemma event_data_simps [simp]:
  "event_data [] = []" "event_data (xs @ ys) = event_data xs @ event_data ys"
  "event_data (SData bs # evs) = bs @ event_data evs"
  "event_data (SControllerChanged c # evs) = event_data evs"
  "event_data (SClosed # evs) = event_data evs"
  by (simp_all add: event_data_def)

lemma event_data_of [simp]: "event_data (events_of es) = data_of es"
  by (induction es rule: data_of.induct) simp_all

lemma events_of_append [simp]: "events_of (xs @ ys) = events_of xs @ events_of ys"
  by (induction xs rule: events_of.induct) simp_all

lemma downloads_of_append [simp]: "downloads_of (xs @ ys) = downloads_of xs @ downloads_of ys"
  by (induction xs rule: downloads_of.induct) simp_all

lemma of_map_BroadcastDl [simp]:
  "downloads_of (map BroadcastDl evs) = evs" "events_of (map BroadcastDl evs) = []"
  "data_of (map BroadcastDl evs) = []"
  by (induction evs) simp_all

lemma bcast_push_lossless:
  "br_lost (bcast_push cap x r) = 0 \<Longrightarrow>
     br_lost r = 0 \<and> br_items (bcast_push cap x r) = br_items r @ [x]"
  by (auto simp: bcast_push_def split: if_splits)

lemma deliver_fields [simp]:
  "tk_sid (deliver es t) = tk_sid t" "tk_session (deliver es t) = tk_session t"
  "tk_paste (deliver es t) = tk_paste t" "tk_tx (deliver es t) = tk_tx t"
  "tk_done (deliver es t) = tk_done t"
  by (induction es t rule: deliver.induct) simp_all

lemma deliver_events:
  "br_lost (tk_events (deliver es t)) = 0 \<Longrightarrow>
     br_lost (tk_events t) = 0 \<and>
     br_items (tk_events (deliver es t)) = br_items (tk_events t) @ events_of es"
  by (induction es t rule: deliver.induct) (auto dest!: bcast_push_lossless)

lemma deliver_downloads:
  "br_lost (tk_downloads (deliver es t)) = 0 \<Longrightarrow>
     br_lost (tk_downloads t) = 0 \<and>
     br_items (tk_downloads (deliver es t)) = br_items (tk_downloads t) @ downloads_of es"
  by (induction es t rule: deliver.induct) (auto dest!: bcast_push_lossless)

lemma sess_step_downloads [simp]: "downloads_of (snd (sess_step a s)) = []"
proof (cases a)
  case (OpOutput buf)
  have "downloads_of (concat (map (dispatch_captured s') ps)) = []" for s' ps
    by (induction ps) (auto simp: dispatch_captured_def split: option.splits prod.splits)
  with OpOutput show ?thesis by (auto simp: reader_chunk_def Let_def split: prod.splits)
qed (auto simp: sess_defs Let_def split: option.splits)

text \<open>The uploads of a stream answer with rejections only, and type into the PTY.\<close>

definition rejects :: "stream_id \<Rightarrow> frame list \<Rightarrow> bool" where
  "rejects sid fs \<longleftrightarrow>
     list_all (\<lambda>f. \<exists>i r. f = frame_paste_reject sid i r \<and> r \<le> PASTE_REJECT_MAX_REASON) fs"

definition types_only :: "effect list \<Rightarrow> bool" where
  "types_only es \<longleftrightarrow> list_all (\<lambda>e. \<exists>bs. e = PtySend bs) es"

lemma rejects_simps [simp]:
  "rejects sid []" "r \<le> PASTE_REJECT_MAX_REASON \<Longrightarrow> rejects sid (reject sid i r)"
  by (auto simp: rejects_def reject_def)

lemma paste_handlers_answer:
  "rejects sid (fst (snd (handle_paste_begin lim env sid i tot gid gs name p)))"
  "snd (snd (handle_paste_begin lim env sid i tot gid gs name p)) = []"
  "rejects sid (fst (snd (handle_paste_chunk env sid i bs p)))"
  "snd (snd (handle_paste_chunk env sid i bs p)) = []"
  "rejects sid (fst (snd (handle_paste_end sid i st sess p)))"
  "types_only (snd (snd (handle_paste_end sid i st sess p)))"
  by (simp_all add: handle_paste_begin_def begin_open_def handle_paste_chunk_def handle_paste_end_def
      inject_paste_paths_def write_internal_def types_only_def Let_def split: option.splits prod.splits)

lemma types_only_data: "types_only es \<Longrightarrow> events_of es = [] \<and> downloads_of es = [] \<and> data_of es = []"
  by (induction es) (auto simp: types_only_def)

text \<open>The terminal output in what was handed to the writer, as the hub decodes it.\<close>

definition wire_data :: "bytes \<Rightarrow> bytes" where
  "wire_data bs = (case wire_frame bs of Some f \<Rightarrow> (case fbody f of BData b \<Rightarrow> b | _ \<Rightarrow> []) | None \<Rightarrow> [])"

definition sent_data :: "prio_tx \<Rightarrow> bytes" where
  "sent_data w = concat (map wire_data (tx_hi w))"

lemma sent_data_simps [simp]:
  "sent_data (w\<lparr>tx_hi := xs @ ys\<rparr>) = concat (map wire_data xs) @ concat (map wire_data ys)"
  "sent_data (w\<lparr>tx_lo := zs\<rparr>) = sent_data w"
  by (simp_all add: sent_data_def)

lemma wire_data_wf: "wf_frame f \<Longrightarrow> wire_data (encode f) = (case fbody f of BData b \<Rightarrow> b | _ \<Rightarrow> [])"
  using wire_frame_iff [of "encode f" f] by (simp add: wire_data_def)

lemma wire_data_frames: "sid \<noteq> 0 \<Longrightarrow> concat (map wire_data (map encode (data_frames sid bs))) = bs"
proof -
  assume "sid \<noteq> 0"
  then have "map (wire_data \<circ> encode \<circ> frame_data sid) (chunks 65536 bs) = chunks 65536 bs"
    by (intro map_idI) (auto simp: wire_data_wf frame_data_def wf_frame_def dest!: chunks_bound)
  then show ?thesis by (simp add: data_frames_def comp_assoc)
qed

lemma wire_data_other [simp]:
  "sid \<noteq> 0 \<Longrightarrow> st \<le> 2 \<Longrightarrow> wire_data (encode (frame_controller_changed sid st)) = []"
  "sid \<noteq> 0 \<Longrightarrow> wire_data (encode (frame_close sid)) = []"
  "sid \<noteq> 0 \<Longrightarrow> r \<le> PASTE_REJECT_MAX_REASON \<Longrightarrow> wire_data (encode (frame_paste_reject sid i r)) = []"
  by (simp_all add: wire_data_wf) (simp_all add: frame_controller_changed_def frame_close_def frame_paste_reject_def)

lemma send_rejects:
  "rejects sid fs \<Longrightarrow> sid \<noteq> 0 \<Longrightarrow> tx_open w \<Longrightarrow>
     fold (\<lambda>f w. snd (send_frame_to_hub f w)) fs w = w\<lparr>tx_hi := tx_hi w @ map encode fs\<rparr>"
  by (induction fs arbitrary: w) (auto simp: rejects_def send_frame_ok wf_frame_ok)

lemma rejects_wire:
  "rejects sid fs \<Longrightarrow> sid \<noteq> 0 \<Longrightarrow>
     concat (map wire_data (map encode fs)) = [] \<and> list_all (carries sid) (map encode fs)"
  by (induction fs) (auto simp: rejects_def intro!: carries_wf)

lemma data_frames_carry: "sid \<noteq> 0 \<Longrightarrow> list_all (carries sid) (map encode (data_frames sid bs))"
  by (auto simp: data_frames_def list_all_iff intro!: carries_wf dest!: chunks_bound)

definition stream_ok :: "stream_id \<Rightarrow> stream_task \<Rightarrow> bool" where
  "stream_ok sid t \<longleftrightarrow> sid \<noteq> 0 \<and> tk_sid t = sid \<and> tx_open (tk_tx t) \<and>
     list_all (carries sid) (tx_hi (tk_tx t)) \<and> list_all (carries sid) (tx_lo (tk_tx t)) \<and>
     list_all dl_event_ok (br_items (tk_downloads t))"

fun stream_op_ok :: "stream_op \<Rightarrow> bool" where
  "stream_op_ok (StDownloadTask evs) = list_all dl_event_ok evs"
| "stream_op_ok _ = True"

definition lossless :: "stream_task \<Rightarrow> bool" where
  "lossless t \<longleftrightarrow> br_lost (tk_events t) = 0 \<and> br_lost (tk_downloads t) = 0"

text \<open>Terminal output and downloads of a stream: what was sent, then what is still queued for it.\<close>

definition data_view :: "stream_task \<Rightarrow> bytes" where
  "data_view t = sent_data (tk_tx t) @ event_data (br_items (tk_events t))"

definition dl_view :: "stream_task \<Rightarrow> bytes list" where
  "dl_view t = tx_lo (tk_tx t) @ map (\<lambda>ev. encode (dl_frame (tk_sid t) ev)) (br_items (tk_downloads t))"

definition turn :: "stream_id \<Rightarrow> stream_task \<Rightarrow> stream_task \<Rightarrow> effect list \<Rightarrow> bool" where
  "turn sid t t' es \<longleftrightarrow> stream_ok sid t' \<and>
     (lossless t \<longrightarrow> lossless t' \<longrightarrow> data_view t' = data_view t @ data_of es \<and>
        dl_view t' = dl_view t @ map (\<lambda>ev. encode (dl_frame sid ev)) (downloads_of es))"

lemmas turn_defs = turn_def stream_ok_def lossless_def data_view_def dl_view_def

lemma turn_refl [simp]: "stream_ok sid t \<Longrightarrow> turn sid t t []"
  by (simp add: turn_def)

lemma bcast_push_mem: "y \<in> set (br_items (bcast_push cap x r)) \<Longrightarrow> y = x \<or> y \<in> set (br_items r)"
  by (cases "br_items r") (auto simp: bcast_push_def split: if_splits)

lemma deliver_mem:
  "y \<in> set (br_items (tk_downloads (deliver es t))) \<Longrightarrow>
     y \<in> set (br_items (tk_downloads t)) \<or> y \<in> set (downloads_of es)"
  by (induction es t rule: deliver.induct) (auto dest: bcast_push_mem)

lemma deliver_dl_ok:
  "list_all dl_event_ok (br_items (tk_downloads t)) \<Longrightarrow> list_all dl_event_ok (downloads_of es) \<Longrightarrow>
     list_all dl_event_ok (br_items (tk_downloads (deliver es t)))"
  using deliver_mem by (fastforce simp: list_all_iff)

lemma turn_deliver:
  assumes "stream_ok sid t" "list_all dl_event_ok (downloads_of es)"
  shows "turn sid t (deliver es (t\<lparr>tk_session := s\<rparr>)) es"
  using assms deliver_events [of es "t\<lparr>tk_session := s\<rparr>"] deliver_downloads [of es "t\<lparr>tk_session := s\<rparr>"]
    deliver_dl_ok [of "t\<lparr>tk_session := s\<rparr>" es]
  by (auto simp: turn_defs)

lemma turn_session_op: "stream_ok sid t \<Longrightarrow> turn sid t (fst (run_session_op a t)) (snd (run_session_op a t))"
  using turn_deliver [of sid t "snd (sess_step a (tk_session t))"]
  by (simp add: run_session_op_def Let_def split_beta)

lemma turn_paste:
  "stream_ok sid t \<Longrightarrow> rejects sid (fst (snd r)) \<Longrightarrow> types_only (snd (snd r)) \<Longrightarrow>
     turn sid t (fst (run_paste r t)) (snd (run_paste r t))"
  using types_only_data [of "snd (snd r)"] rejects_wire [of sid "fst (snd r)"]
  by (auto simp: run_paste_def turn_defs send_rejects sent_data_def split_beta simp del: map_map)

lemma types_only_Nil [simp]: "types_only []"
  by (simp add: types_only_def)

lemma turn_inbound: "stream_ok sid t \<Longrightarrow> turn sid t (fst (inbound_body lim env b t)) (snd (inbound_body lim env b t))"
proof -
  assume t: "stream_ok sid t"
  have sid: "tk_sid t = sid" using t by (simp add: stream_ok_def)
  have stop: "turn sid t (t\<lparr>tk_done := True\<rparr>) []" using t by (simp add: turn_defs)
  show ?thesis
    using t stop
    by (cases b) (simp_all add: inbound_body_def sid turn_session_op turn_paste paste_handlers_answer)
qed

lemma stream_ok_hi:
  "stream_ok sid t \<Longrightarrow> list_all (carries sid) ms \<Longrightarrow>
     stream_ok sid (t\<lparr>tk_events := r, tk_tx := (tk_tx t)\<lparr>tx_hi := tx_hi (tk_tx t) @ ms\<rparr>, tk_done := d\<rparr>)"
  by (simp add: stream_ok_def)

lemma turn_event_sends:
  assumes "stream_ok sid t" "list_all (carries sid) ms"
    and "br_lost (tk_events t) = 0" "br_items (tk_events t) = ev # evs"
    and "concat (map wire_data ms) = event_data [ev]"
  shows "turn sid t (t\<lparr>tk_events := (tk_events t)\<lparr>br_items := evs\<rparr>,
    tk_tx := (tk_tx t)\<lparr>tx_hi := tx_hi (tk_tx t) @ ms\<rparr>, tk_done := d\<rparr>) []"
  using assms by (cases ev) (auto simp: turn_defs sent_data_def)

lemma stream_okD: "stream_ok sid t \<Longrightarrow> sid \<noteq> 0 \<and> tk_sid t = sid \<and> tx_open (tk_tx t)"
  by (simp add: stream_ok_def)

lemma send_control:
  "sid \<noteq> 0 \<Longrightarrow> tx_open w \<Longrightarrow> send_frame_to_hub (frame_controller_changed sid (event_status sid c)) w =
     (True, w\<lparr>tx_hi := tx_hi w @ [encode (frame_controller_changed sid (event_status sid c))]\<rparr>)"
  "sid \<noteq> 0 \<Longrightarrow> tx_open w \<Longrightarrow> send_frame_to_hub (frame_controller_changed sid (initial_status sid d)) w =
     (True, w\<lparr>tx_hi := tx_hi w @ [encode (frame_controller_changed sid (initial_status sid d))]\<rparr>)"
  "sid \<noteq> 0 \<Longrightarrow> tx_open w \<Longrightarrow>
     send_frame_to_hub (frame_close sid) w = (True, w\<lparr>tx_hi := tx_hi w @ [encode (frame_close sid)]\<rparr>)"
  by (simp_all add: send_frame_ok wf_frame_ok)

lemma control_carries [simp]:
  "sid \<noteq> 0 \<Longrightarrow> carries sid (encode (frame_controller_changed sid (event_status sid c)))"
  "sid \<noteq> 0 \<Longrightarrow> carries sid (encode (frame_controller_changed sid (initial_status sid d)))"
  "sid \<noteq> 0 \<Longrightarrow> carries sid (encode (frame_close sid))"
  by (auto intro!: carries_wf)

lemma turn_closed:
  assumes t: "stream_ok sid t" "br_lost (tk_events t) = 0" "br_items (tk_events t) = SClosed # evs"
  shows "turn sid t (outbound_event t) []"
proof -
  let ?d = "tk_downloads t" and ?w = "tk_tx t"
  note sid = stream_okD [OF t(1)]
  have dl: "list_all (carries sid) (map (\<lambda>ev. encode (dl_frame sid ev)) (br_items ?d))"
    using t(1) dl_frame_ok by (auto simp: stream_ok_def list_all_iff frame_ok_def)
  show ?thesis
  proof (cases "br_lost ?d = 0")
    case True
    then have "flush_downloads sid ?d ?w =
        (?d\<lparr>br_items := []\<rparr>, ?w\<lparr>tx_lo := tx_lo ?w @ map (\<lambda>ev. encode (dl_frame sid ev)) (br_items ?d)\<rparr>)"
      using t(1) by (intro flush_downloads_ok) (auto simp: stream_ok_def)
    with t sid dl show ?thesis
      by (auto simp: outbound_event_def bcast_recv_def turn_defs sent_data_def send_control)
  next
    case False
    then have "flush_downloads sid ?d ?w = (?d\<lparr>br_lost := 0\<rparr>, ?w)"
      by (simp add: flush_downloads.simps [of sid ?d ?w] bcast_recv_def)
    with False t sid show ?thesis
      by (auto simp: outbound_event_def bcast_recv_def turn_defs send_control)
  qed
qed

lemma turn_event: "stream_ok sid t \<Longrightarrow> turn sid t (outbound_event t) []"
proof -
  assume t: "stream_ok sid t"
  note sid = stream_okD [OF t]
  consider "br_lost (tk_events t) > 0" | "br_lost (tk_events t) = 0" "br_items (tk_events t) = []"
    | ev evs where "br_lost (tk_events t) = 0" "br_items (tk_events t) = ev # evs"
    by (meson gr0I list.exhaust)
  then show ?thesis
  proof cases
    case 1
    with t show ?thesis by (simp add: outbound_event_def bcast_recv_def turn_defs)
  next
    case 2
    with t show ?thesis by (auto simp: outbound_event_def bcast_recv_def turn_defs)
  next
    case (3 ev evs)
    show ?thesis
    proof (cases ev)
      case (SData bs)
      with turn_event_sends [OF t data_frames_carry 3, of bs False] wire_data_frames [of sid bs] 3 sid
      show ?thesis by (simp add: outbound_event_def bcast_recv_def send_data_frames del: map_map)
    next
      case (SControllerChanged c)
      with turn_event_sends [OF t _ 3, of "[encode (frame_controller_changed sid (event_status sid c))]" False] 3 sid
      show ?thesis by (simp add: outbound_event_def bcast_recv_def send_control)
    next
      case SClosed
      with 3 show ?thesis by (intro turn_closed [OF t]) auto
    qed
  qed
qed

lemma turn_download: "stream_ok sid t \<Longrightarrow> turn sid t (outbound_download t) []"
proof -
  assume t: "stream_ok sid t"
  note sid = stream_okD [OF t]
  have ok: "send_download sid ev w = (True, w\<lparr>tx_lo := tx_lo w @ [encode (dl_frame sid ev)]\<rparr>) \<and>
      carries sid (encode (dl_frame sid ev))" if "dl_event_ok ev" "tx_open w" for ev w
    using that sid dl_frame_ok [of sid ev] by (simp add: send_download_ok frame_ok_def)
  show ?thesis
    using t sid ok by (cases "br_items (tk_downloads t)")
      (auto simp: outbound_download_def bcast_recv_def turn_defs)
qed

lemma turn_step:
  assumes "stream_ok sid t" "stream_op_ok a"
  shows "turn sid t (fst (stream_step a t)) (snd (stream_step a t))"
proof (cases a)
  case (StDownloadTask evs)
  have "turn sid t (deliver (map BroadcastDl evs) (t\<lparr>tk_session := tk_session t\<rparr>)) (map BroadcastDl evs)"
    using assms StDownloadTask by (intro turn_deliver) auto
  with StDownloadTask show ?thesis by (simp add: stream_step_def)
qed (use assms in \<open>auto simp: stream_step_def turn_event turn_download turn_inbound turn_session_op\<close>)

lemma turn_run:
  assumes "stream_ok sid t" "list_all stream_op_ok as" "stream_run as t = (t', es)"
  shows "stream_ok sid t' \<and> (lag_free as t \<longrightarrow> lossless t' \<and> data_view t' = data_view t @ data_of es \<and>
    dl_view t' = dl_view t @ map (\<lambda>ev. encode (dl_frame sid ev)) (downloads_of es))"
  using assms
proof (induction as arbitrary: t es)
  case Nil
  then show ?case by (auto simp: lossless_def)
next
  case (Cons a as)
  obtain t1 e1 where 1: "stream_step a t = (t1, e1)" by fastforce
  obtain e2 where 2: "stream_run as t1 = (t', e2)" "es = e1 @ e2"
    using Cons.prems(3) 1 by (auto simp: Let_def split: prod.splits)
  have tn: "turn sid t t1 e1" using turn_step [of sid t a] Cons.prems 1 by simp
  then have "stream_ok sid t1" by (simp add: turn_def)
  from Cons.IH [OF this _ 2(1)] Cons.prems(2) tn 1 2(2) show ?case
    by (cases as) (auto simp: turn_def lossless_def data_of_append)
qed

text \<open>The writer as a stream task finds it: it has handed over nothing yet.\<close>

definition tx_new :: prio_tx where
  "tx_new = \<lparr>tx_hi = [], tx_lo = [], tx_open = True\<rparr>"

lemma attach_effects:
  assumes "attach sid geom now s = (s1, effs, ar)"
  shows "ar_scrollback ar = ring_snapshot (scrollback s)" "data_of effs = []" "downloads_of effs = []"
    "length effs \<le> 2"
  using assms by (auto simp: attach_def Let_def split: if_splits)

lemma stream_attach_ok:
  assumes "sid \<noteq> 0" "stream_attach sid geom now s st tx_new = (t, e)"
  shows "stream_ok sid t" "data_view t = ring_snapshot (scrollback s)" "dl_view t = []"
proof -
  obtain s1 effs ar where a: "attach sid geom now s = (s1, effs, ar)" by (metis prod_cases3)
  let ?ms = "map encode (data_frames sid (ar_scrollback ar)) @
    [encode (frame_controller_changed sid (initial_status sid (ar_current_controller ar)))]"
  let ?t0 = "\<lparr>tk_sid = sid, tk_session = s1, tk_paste = paste_init st, tk_tx = tx_new\<lparr>tx_hi := ?ms\<rparr>,
    tk_events = bcast_new, tk_downloads = bcast_new, tk_done = False\<rparr>"
  have t: "t = deliver effs ?t0"
    using assms a by (auto simp: stream_attach_def Let_def send_data_frames send_control tx_new_def)
  have "list_all (carries sid) ?ms" using assms(1) data_frames_carry by auto
  then have t0: "stream_ok sid ?t0" "data_view ?t0 = ar_scrollback ar" "dl_view ?t0 = []" "lossless ?t0"
    using assms(1) wire_data_frames [of sid "ar_scrollback ar"]
    by (auto simp: turn_defs tx_new_def bcast_new_def sent_data_def simp del: map_map)
  note eff = attach_effects [OF a]
  have "turn sid ?t0 (deliver effs (?t0\<lparr>tk_session := s1\<rparr>)) effs"
    using turn_deliver [OF t0(1), of effs s1] eff(3) by simp
  then have "turn sid ?t0 t effs" by (simp add: t)
  moreover have "lossless t"
    unfolding t using a
    by (auto simp: attach_def Let_def lossless_def bcast_new_def bcast_push_def BROADCAST_CAP_def split: if_splits)
  ultimately show "stream_ok sid t" "data_view t = ring_snapshot (scrollback s)" "dl_view t = []"
    using t0 eff by (auto simp: turn_def)
qed

section \<open>Streams on a connection\<close>

definition link_inv :: "link \<Rightarrow> bool" where
  "link_inv l \<longleftrightarrow> hm_ok (lk_streams l) \<and>
     (\<forall>a c. hm_get (lk_streams l) a = Some c \<longrightarrow> c < length (lk_chans l)) \<and>
     (\<forall>a b c. hm_get (lk_streams l) a = Some c \<longrightarrow> hm_get (lk_streams l) b = Some c \<longrightarrow> a = b)"

text \<open>Everything of stream \<open>b\<close> is the same in both states.\<close>

definition same_stream :: "stream_id \<Rightarrow> link \<Rightarrow> link \<Rightarrow> bool" where
  "same_stream b l l' \<longleftrightarrow> hm_get (lk_streams l') b = hm_get (lk_streams l) b \<and>
     (\<forall>c. hm_get (lk_streams l) b = Some c \<longrightarrow> lk_chans l' ! c = lk_chans l ! c)"

lemma link_inv_new: "link_inv \<lparr>lk_streams = [], lk_chans = [], lk_tx = w\<rparr>"
  by (simp add: link_inv_def)

lemma route_keeps:
  assumes "link_inv l" "b \<noteq> sid"
  shows "link_inv (route_body sid x l) \<and> same_stream b l (route_body sid x l) \<and>
    lk_tx (route_body sid x l) = lk_tx l"
proof (cases "hm_get (lk_streams l) sid")
  case None
  with assms show ?thesis by (simp add: route_body_def same_stream_def)
next
  case (Some c)
  have "hm_get (lk_streams l) b \<noteq> Some c" using assms Some by (auto simp: link_inv_def)
  then have "lk_chans l ! c' = (lk_chans l)[c := ch] ! c'" if "hm_get (lk_streams l) b = Some c'" for c' ch
    using that by (cases "c' = c") auto
  with Some assms show ?thesis
    by (auto simp: route_body_def same_stream_def link_inv_def split: option.splits)
qed

lemma open_keeps:
  assumes "link_inv l" "b \<noteq> sid"
    and "l' = l\<lparr>lk_chans := lk_chans l @ [ch], lk_streams := hm_insert sid (length (lk_chans l)) (lk_streams l)\<rparr>"
  shows "link_inv l' \<and> same_stream b l l' \<and> lk_tx l' = lk_tx l"
  using assms
  by (auto simp: link_inv_def same_stream_def nth_append less_SucI split: if_splits)

lemma dispatch_keeps:
  assumes "link_inv l" "fstream f \<noteq> b" "dispatch f l = Inr (l', ts)"
  shows "link_inv l' \<and> same_stream b l l' \<and> (fstream f \<noteq> 0 \<longrightarrow> lk_tx l' = lk_tx l)"
proof (cases "fstream f = 0")
  case True
  with assms show ?thesis
    by (auto simp: dispatch_def same_stream_def link_inv_def Let_def split: body.splits)
next
  case False
  with assms route_keeps [OF assms(1), of b "fstream f" "fbody f"] open_keeps [OF assms(1) _ refl, of b "fstream f" chan_new]
  show ?thesis by (auto simp: dispatch_def Let_def split: body.splits)
qed

definition inputs :: "stream_id \<Rightarrow> frame list \<Rightarrow> body list" where
  "inputs sid fs = map fbody (filter (\<lambda>f. fstream f = sid) fs)"

fun is_open :: "body \<Rightarrow> bool" where
  "is_open (BOpen _ _) = True"
| "is_open _ = False"

lemma dispatch_input:
  assumes "link_inv l" "hm_get (lk_streams l) (fstream f) = Some c" "fstream f \<noteq> 0" "\<not> is_open (fbody f)"
    and "chan_try_send (fbody f) (lk_chans l ! c) = Some ch"
  shows "\<exists>l'. dispatch f l = Inr (l', []) \<and> link_inv l' \<and>
    hm_get (lk_streams l') (fstream f) = Some c \<and> lk_chans l' ! c = ch"
proof -
  have "dispatch f l = Inr (route_body (fstream f) (fbody f) l, [])"
    using assms(3,4) by (cases "fbody f") (simp_all add: dispatch_def)
  moreover have "route_body (fstream f) (fbody f) l = l\<lparr>lk_chans := (lk_chans l)[c := ch]\<rparr>"
    using assms(2,5) by (simp add: route_body_def)
  ultimately show ?thesis using assms(1,2) by (auto simp: link_inv_def)
qed

lemma dispatch_all_input:
  assumes "link_inv l" "sid \<noteq> 0" "hm_get (lk_streams l) sid = Some c" "sc_alive (lk_chans l ! c)"
    and "dispatch_all fs l = Inr (l', ts)" "list_all (\<lambda>b. \<not> is_open b) (inputs sid fs)"
    and "length (sc_hi (lk_chans l ! c)) + length (filter (\<lambda>b. \<not> half_lo b) (inputs sid fs)) \<le> STREAM_HI_CAP"
    and "length (sc_lo (lk_chans l ! c)) + length (filter half_lo (inputs sid fs)) \<le> STREAM_LO_CAP"
  shows "hm_get (lk_streams l') sid = Some c \<and> lk_chans l' ! c =
    (lk_chans l ! c)\<lparr>sc_hi := sc_hi (lk_chans l ! c) @ filter (\<lambda>b. \<not> half_lo b) (inputs sid fs),
       sc_lo := sc_lo (lk_chans l ! c) @ filter half_lo (inputs sid fs)\<rparr>"
  using assms
proof (induction fs arbitrary: l ts)
  case Nil
  then show ?case by (simp add: inputs_def)
next
  case (Cons f fs)
  from Cons.prems(5) obtain l1 ts1 ts2 where 1: "dispatch f l = Inr (l1, ts1)" "dispatch_all fs l1 = Inr (l', ts2)"
    by (auto simp: bindE_Inr_iff)
  show ?case
  proof (cases "fstream f = sid")
    case False
    have k: "link_inv l1" "hm_get (lk_streams l1) sid = Some c" "lk_chans l1 ! c = lk_chans l ! c"
      using dispatch_keeps [OF Cons.prems(1) False 1(1)] Cons.prems(3) by (auto simp: same_stream_def)
    have "inputs sid (f # fs) = inputs sid fs" using False by (simp add: inputs_def)
    with Cons.IH [OF k(1) Cons.prems(2) k(2) _ 1(2)] Cons.prems k(3) show ?thesis by simp
  next
    case True
    have i: "inputs sid (f # fs) = fbody f # inputs sid fs" using True by (simp add: inputs_def)
    let ?ch = "if half_lo (fbody f) then (lk_chans l ! c)\<lparr>sc_lo := sc_lo (lk_chans l ! c) @ [fbody f]\<rparr>
      else (lk_chans l ! c)\<lparr>sc_hi := sc_hi (lk_chans l ! c) @ [fbody f]\<rparr>"
    have "chan_try_send (fbody f) (lk_chans l ! c) = Some ?ch"
      using Cons.prems(4,7,8) i by (cases "half_lo (fbody f)") (auto simp: chan_try_send_def)
    from dispatch_input [of l f c, OF Cons.prems(1) _ _ _ this] Cons.prems(2,3,6) True 1(1) i
    have k: "link_inv l1" "hm_get (lk_streams l1) sid = Some c" "lk_chans l1 ! c = ?ch"
      by auto
    from Cons.IH [OF k(1) Cons.prems(2) k(2) _ 1(2)] Cons.prems(4,6-8) k(3) i show ?thesis
      by (auto split: if_splits)
  qed
qed

section \<open>A small instance\<close>

definition demo_shell :: session where
  "demo_shell = (session_spawn [0x61] (24, 80) 8 [0x74] Bracketed 0)\<lparr>scrollback := ring_extend (ring_new 8) [0x68, 0x69]\<rparr>"

lemma demo_attach: "\<exists>t e. stream_attach 5 (24, 80) 1 demo_shell [] tx_new = (t, e) \<and>
   lag_free [StSession (OpOutput [0x6A])] t \<and> data_of (snd (stream_run [StSession (OpOutput [0x6A])] t)) = [0x6A]"
  using feed_plain [of scanner_new "[0x6A]"]
  by (simp add: stream_attach_def attach_def demo_shell_def session_spawn_def Let_def split_beta
     stream_step_def run_session_op_def reader_chunk_def bcast_push_def bcast_new_def BROADCAST_CAP_def ESC_def scanner_new_def)

lemma demo_scrollback: "ring_snapshot (scrollback demo_shell) = [0x68, 0x69]"
  by (simp add: demo_shell_def ring_extend_def ring_new_def ring_snapshot_def)

lemma demo_attach_quiet: "\<exists>t e. stream_attach 5 (24, 80) 1 demo_shell [] tx_new = (t, e) \<and>
   tx_hi (tk_tx t) = [encode (frame_data 5 [0x68, 0x69]), encode (frame_controller_changed 5 1)]"
proof -
  have "chunks 65536 [0x68, 0x69 :: u8] = [[0x68, 0x69]]"
    by (simp add: chunks.simps [of _ "[0x68, 0x69]"] chunks.simps [of _ "[]"])
  then show ?thesis
  using demo_scrollback
  by (auto simp: stream_attach_def attach_def Let_def split_beta send_data_frames send_control data_frames_def tx_new_def
     initial_status_def send_frame_ok wf_frame_ok)
      (simp_all add: demo_shell_def session_spawn_def)
qed

definition demo_task :: stream_task where
  "demo_task = \<lparr>tk_sid = 5, tk_session = demo_shell, tk_paste = paste_init [], tk_tx = tx_new,
     tk_events = \<lparr>br_items = [SClosed], br_lost = 0, br_closed = False\<rparr>,
     tk_downloads = \<lparr>br_items = [DlEnd 1 DOWNLOAD_STATUS_OK], br_lost = 0, br_closed = False\<rparr>, tk_done = False\<rparr>"

definition demo_link :: link where
  "demo_link = \<lparr>lk_streams = [(3, 0)], lk_chans = [chan_new], lk_tx = tx_new\<rparr>"

lemma demo_link_inv: "link_inv demo_link"
  by (auto simp: link_inv_def demo_link_def hm_ok_def)

section \<open>Properties of streams\<close>



text \<open>
  Every message a stream task hands to the writer, on either half, is one the hub accepts and
  that belongs to this stream; in particular none is larger than its half of the writer allows.
\<close>

theorem stream_messages_decode:
  assumes "sid \<noteq> 0" "stream_attach sid geom now s st tx_new = (t0, e0)"
    and "stream_run as t0 = (t, es)" "list_all stream_op_ok as"
    and "m \<in> set (tx_hi (tk_tx t) @ tx_lo (tk_tx t))"
  shows "\<exists>f n. frame_from_ws_payload m = Inr (f, n) \<and> fstream f = sid \<and> length m \<le> WRITE_HI_BYTES"
proof -
  note t0 = stream_attach_ok [OF assms(1,2)]
  have "carries sid m"
    using turn_run [OF t0(1) assms(4,3)] assms(5) by (auto simp: stream_ok_def list_all_iff)
  with carries_length [OF this] show ?thesis
    by (auto simp: carries_def wire_frame_iff ws_payload_iff WRITE_HI_BYTES_def)
qed

theorem stream_messages_decode_witness:
  "\<exists>f n. frame_from_ws_payload (encode (frame_controller_changed 5 1)) = Inr (f, n) \<and> fstream f = 5"
proof -
  obtain t e where a: "stream_attach 5 (24, 80) 1 demo_shell [] tx_new = (t, e)"
     "tx_hi (tk_tx t) = [encode (frame_data 5 [0x68, 0x69]), encode (frame_controller_changed 5 1)]"
    using demo_attach_quiet by blast
  from stream_messages_decode [OF _ a(1), of "[]" t "[]" "encode (frame_controller_changed 5 1)"] a(2) show ?thesis by auto
qed

text \<open>
  Download frames travel on the low half only and in the order in which the session produced them:
  what was sent and what is still queued are together exactly the events so far.
\<close>

theorem downloads_in_order:
  assumes "sid \<noteq> 0" "stream_attach sid geom now s st tx_new = (t0, e0)"
    and "stream_run as t0 = (t, es)" "list_all stream_op_ok as" "lag_free as t0"
  shows "tx_lo (tk_tx t) @ map (\<lambda>ev. encode (dl_frame sid ev)) (br_items (tk_downloads t)) =
    map (\<lambda>ev. encode (dl_frame sid ev)) (downloads_of es)"
proof -
  note t0 = stream_attach_ok [OF assms(1,2)]
  from turn_run [OF t0(1) assms(4,3)] assms(5) t0(1,3) show ?thesis
    by (auto simp: dl_view_def stream_ok_def)
qed

theorem downloads_in_order_witness:
  "\<exists>t0 e0 t es. stream_attach 5 (24, 80) 1 demo_shell [] tx_new = (t0, e0) \<and>
     stream_run [StSession (OpOutput [0x6A])] t0 = (t, es) \<and>
     tx_lo (tk_tx t) @ map (\<lambda>ev. encode (dl_frame 5 ev)) (br_items (tk_downloads t)) =
       map (\<lambda>ev. encode (dl_frame 5 ev)) (downloads_of es)"
proof -
  obtain t0 e0 where a: "stream_attach 5 (24, 80) 1 demo_shell [] tx_new = (t0, e0)"
    "lag_free [StSession (OpOutput [0x6A])] t0"
    using demo_attach by blast
  obtain t es where r: "stream_run [StSession (OpOutput [0x6A])] t0 = (t, es)" by fastforce
  from downloads_in_order [OF _ a(1) r _ a(2)] a r show ?thesis by force
qed

text \<open>
  When the shell exits, a queued \<open>DownloadEnd\<close> is flushed to the low half of the writer before
  \<open>Close\<close> is put on the high half; a writer that has not caught up in between sends \<open>Close\<close> first,
  so the end of the download still arrives after its stream is closed.
\<close>

theorem close_overtakes_download_end:
  assumes "stream_ok sid t" "br_lost (tk_events t) = 0" "br_lost (tk_downloads t) = 0"
    and "br_items (tk_events t) = SClosed # evs" "br_items (tk_downloads t) = ds @ [DlEnd i st]"
    and "w = tk_tx (outbound_event t)"
  shows "\<exists>r'. prio_drain (length (tx_hi w) + length (tx_lo w) + 1) mpsc_poll
      (prio_rx_new \<lparr>q_items = tx_hi w, q_closed = True\<rparr> \<lparr>q_items = tx_lo w, q_closed = True\<rparr>) =
    Some (tx_hi (tk_tx t) @ encode (frame_close sid) # tx_lo (tk_tx t) @
      map (\<lambda>ev. encode (dl_frame sid ev)) ds @ [encode (frame_download_end sid i st)], True, r')"
proof -
  note sid = stream_okD [OF assms(1)]
  have "flush_downloads sid (tk_downloads t) (tk_tx t) =
      ((tk_downloads t)\<lparr>br_items := []\<rparr>, (tk_tx t)\<lparr>tx_lo := tx_lo (tk_tx t) @
         map (\<lambda>ev. encode (dl_frame sid ev)) (ds @ [DlEnd i st])\<rparr>)"
    using assms(1,3,5) by (subst flush_downloads_ok) (auto simp: stream_ok_def)
  then have w: "tx_hi w = tx_hi (tk_tx t) @ [encode (frame_close sid)]"
    "tx_lo w = tx_lo (tk_tx t) @ map (\<lambda>ev. encode (dl_frame sid ev)) ds @ [encode (frame_download_end sid i st)]"
    using assms(2,4,6) sid by (simp_all add: outbound_event_def bcast_recv_def send_control)
  show ?thesis
    using mpsc.prio_drain_queues [OF mpsc.rx_ok_new, of "\<lparr>q_items = tx_hi w, q_closed = True\<rparr>"
      "\<lparr>q_items = tx_lo w, q_closed = True\<rparr>" "length (tx_hi w) + length (tx_lo w) + 1"] w
    by (auto simp: prio_rx_new_def)
qed

theorem close_overtakes_download_end_witness:
  "\<exists>k r'. prio_drain k mpsc_poll
      (prio_rx_new \<lparr>q_items = tx_hi (tk_tx (outbound_event demo_task)), q_closed = True\<rparr>
         \<lparr>q_items = tx_lo (tk_tx (outbound_event demo_task)), q_closed = True\<rparr>) =
    Some ([encode (frame_close 5), encode (frame_download_end 5 1 DOWNLOAD_STATUS_OK)], True, r')"
  using close_overtakes_download_end [of 5 demo_task "[]" "[]" 1 DOWNLOAD_STATUS_OK, OF _ _ _ _ _ refl]
  by (auto simp: demo_task_def stream_ok_def tx_new_def simp del: prio_drain.simps)

text \<open>
  C33. A viewer cannot drive the session: unless it asks for control, nothing a stream without the control
  lease sends types, resizes the PTY or announces anything, and no file is created for it.
\<close>

theorem viewer_cannot_drive:
  assumes "controller (tk_session t) \<noteq> Some (tk_sid t)" "b \<noteq> BAcquireControl" "b \<noteq> BTakeControl"
    and "inbound_body lim env b t = (t', es)"
  shows "es = [] \<and> controller (tk_session t') = controller (tk_session t) \<and>
    (\<forall>p. hm_get (files (tk_paste t')) p \<noteq> None \<longrightarrow> hm_get (files (tk_paste t)) p \<noteq> None)"
proof (cases b)
  case (BPasteChunk i bs)
  with assms show ?thesis
    by (auto simp: inbound_body_def run_paste_def handle_paste_chunk_def append_file_def Let_def
        split: option.splits if_splits)
next
  case (BPasteEnd i st)
  with assms show ?thesis
    by (auto simp: inbound_body_def run_paste_def handle_paste_end_def drop_group_def
        inject_paste_paths_def is_controller_def Let_def hm_get_remove_files split: option.splits if_splits)
next
  case (BPasteBegin i tot gid gs name)
  with assms show ?thesis by (auto simp: inbound_body_def run_paste_def is_controller_def)
qed (use assms in \<open>auto simp: inbound_body_def run_session_op_def sess_defs Let_def split: if_splits\<close>)

theorem viewer_cannot_drive_witness:
  "snd (inbound_body demo_limits demo_env (BData [0x78]) demo_task) = []"
  using viewer_cannot_drive [of demo_task "BData [0x78]" demo_limits demo_env]
  by (cases "inbound_body demo_limits demo_env (BData [0x78]) demo_task")
    (simp add: demo_task_def demo_shell_def session_spawn_def)

text \<open>
  A stream that ends releases everything it held: it is no longer attached, does not hold
  the control lease, and has no upload in flight; other streams keep what they had.
\<close>

theorem stream_end_releases:
  assumes "stream_end now t = (t', es)"
  shows "hm_get (attached (tk_session t')) (tk_sid t) = None \<and>
    controller (tk_session t') \<noteq> Some (tk_sid t) \<and>
    (controller (tk_session t) \<noteq> Some (tk_sid t) \<longrightarrow> controller (tk_session t') = controller (tk_session t)) \<and>
    (\<forall>b. b \<noteq> tk_sid t \<longrightarrow> hm_get (attached (tk_session t')) b = hm_get (attached (tk_session t)) b) \<and>
    pastes (tk_paste t') = [] \<and> groups (tk_paste t') = []"
  using assms by (cases "controller (tk_session t) = Some (tk_sid t)")
    (auto simp: stream_end_def detach_def paste_cleanup_def Let_def)

theorem stream_end_releases_witness:
  "hm_get (attached (tk_session (fst (stream_end 9 (demo_task\<lparr>tk_session := demo_shell\<lparr>attached := [(5, (24, 80))], controller := Some 5\<rparr>\<rparr>))))) 5 = None"
  using stream_end_releases [of 9 "demo_task\<lparr>tk_session := demo_shell\<lparr>attached := [(5, (24, 80))], controller := Some 5\<rparr>\<rparr>"]
  by (cases "stream_end 9 (demo_task\<lparr>tk_session := demo_shell\<lparr>attached := [(5, (24, 80))], controller := Some 5\<rparr>\<rparr>)")
    (simp add: demo_task_def)

section \<open>Properties of connections\<close>

lemma dispatch_data: "fstream f \<noteq> 0 \<Longrightarrow> \<exists>l' ts. dispatch f l = Inr (l', ts)"
  by (cases "fbody f") (auto simp: dispatch_def Let_def)

lemma dispatch_all_data: "list_all (\<lambda>f. fstream f \<noteq> 0) fs \<Longrightarrow> \<exists>l' ts. dispatch_all fs l = Inr (l', ts)"
proof (induction fs arbitrary: l)
  case (Cons f fs)
  then obtain l1 ts1 where "dispatch f l = Inr (l1, ts1)" using dispatch_data [of f l] by auto
  moreover from Cons obtain l2 ts2 where "dispatch_all fs l1 = Inr (l2, ts2)" by fastforce
  ultimately show ?case by (simp add: bindE_Inr_iff)
qed simp

text \<open>
  No stream blocks another: a frame for a stream is always dealt with at once, and whatever becomes
  of it, a full or closed channel included, every other stream keeps its registration and its
  queued input, and nothing is sent to the hub on its behalf.
\<close>

theorem streams_are_isolated:
  assumes "link_inv l" "fstream f \<noteq> 0" "fstream f \<noteq> b"
  shows "\<exists>l' ts. dispatch f l = Inr (l', ts) \<and> link_inv l' \<and> same_stream b l l' \<and> lk_tx l' = lk_tx l"
proof -
  obtain l' ts where "dispatch f l = Inr (l', ts)" using dispatch_data [OF assms(2)] by blast
  with dispatch_keeps [OF assms(1,3)] assms(2) show ?thesis by blast
qed

theorem streams_are_isolated_witness:
  "\<exists>l' ts. dispatch (frame_data 7 [0x78]) demo_link = Inr (l', ts) \<and> lk_chans l' ! 0 = chan_new"
  using streams_are_isolated [OF demo_link_inv, of "frame_data 7 [0x78]" 3]
  by (auto simp: same_stream_def demo_link_def)

text \<open>
  The input of a stream arrives in order: after any frames that do not fill its channel, the two
  halves hold exactly the bodies sent to the stream since, uploads on one and everything else on
  the other, each in order of arrival, whatever was sent to other streams in between.
\<close>

theorem stream_input_in_order:
  assumes "link_inv l" "sid \<noteq> 0" "dispatch (frame_open sid i geom) l = Inr (l1, ts1)"
    and "dispatch_all fs l1 = Inr (l2, ts2)" "list_all (\<lambda>b. \<not> is_open b) (inputs sid fs)"
    and "length (filter (\<lambda>b. \<not> half_lo b) (inputs sid fs)) \<le> STREAM_HI_CAP"
    and "length (filter half_lo (inputs sid fs)) \<le> STREAM_LO_CAP"
  shows "\<exists>c. ts1 = [StreamTask sid i geom c] \<and> hm_get (lk_streams l2) sid = Some c \<and>
    sc_hi (lk_chans l2 ! c) = filter (\<lambda>b. \<not> half_lo b) (inputs sid fs) \<and>
    sc_lo (lk_chans l2 ! c) = filter half_lo (inputs sid fs)"
proof -
  let ?c = "length (lk_chans l)"
  have o: "ts1 = [StreamTask sid i geom ?c]" "hm_get (lk_streams l1) sid = Some ?c" "lk_chans l1 ! ?c = chan_new"
    using assms(2,3) by (auto simp: dispatch_def frame_open_def Let_def)
  have "link_inv l1"
    using dispatch_keeps [OF assms(1) _ assms(3), of "sid + 1"] by (simp add: frame_open_def)
  from dispatch_all_input [OF this assms(2) o(2) _ assms(4,5)] assms(6,7) o show ?thesis
    by (auto simp: chan_new_def)
qed

theorem stream_input_in_order_witness:
  "\<exists>l1 ts1 l2 ts2. dispatch (frame_open 9 [0x61] (24, 80)) demo_link = Inr (l1, ts1) \<and>
     dispatch_all [frame_data 9 [1], frame_paste_chunk 9 4 [2], frame_data 3 [7], frame_data 9 [3]] l1 = Inr (l2, ts2) \<and>
     sc_hi (lk_chans l2 ! 1) = [BData [1], BData [3]] \<and> sc_lo (lk_chans l2 ! 1) = [BPasteChunk 4 [2]]"
proof -
  let ?fs = "[frame_data 9 [1], frame_paste_chunk 9 4 [2], frame_data 3 [7], frame_data 9 [3]]"
  have i: "inputs 9 ?fs = [BData [1], BPasteChunk 4 [2], BData [3]]"
    by (simp add: inputs_def frame_data_def frame_paste_chunk_def)
  obtain l1 ts1 where o: "dispatch (frame_open 9 [0x61] (24, 80)) demo_link = Inr (l1, ts1)"
    "ts1 = [StreamTask 9 [0x61] (24, 80) 1]"
    by (simp add: dispatch_def frame_open_def demo_link_def)
  from dispatch_all_data [of ?fs l1] obtain l2 ts2 where r: "dispatch_all ?fs l1 = Inr (l2, ts2)"
    by (auto simp: frame_paste_chunk_def)
  from stream_input_in_order [OF demo_link_inv _ o(1) r] i o(2) have
    "sc_hi (lk_chans l2 ! 1) = [BData [1], BData [3]] \<and> sc_lo (lk_chans l2 ! 1) = [BPasteChunk 4 [2]]"
    by (auto simp: half_lo_def STREAM_HI_CAP_def STREAM_LO_CAP_def)
  with o(1) r show ?thesis by blast
qed

text \<open>
  The link ends exactly on protocol errors of the hub: of the frames the hub's decoder lets through
  on the control stream, \<open>Ping\<close>, \<open>Pong\<close> and the two requests are served (a \<open>Ping\<close> with a \<open>Pong\<close> of the
  same payload), and every other one ends the connection.
\<close>

theorem control_stream_protocol:
  assumes "wf_frame f" "fstream f = 0" "tx_open (lk_tx l)"
  shows "case fbody f of
      BPing p \<Rightarrow> dispatch f l = Inr (l\<lparr>lk_tx := (lk_tx l)\<lparr>tx_hi := tx_hi (lk_tx l) @ [encode (frame_pong p)]\<rparr>\<rparr>, [])
    | BPong p \<Rightarrow> dispatch f l = Inr (l, [])
    | BListSessions i \<Rightarrow> dispatch f l = Inr (l, [ListTask i])
    | BKillSession i s \<Rightarrow> dispatch f l = Inr (l, [KillTask i s])
    | _ \<Rightarrow> \<exists>e. dispatch f l = Inl e"
proof -
  have "send_frame_to_hub (frame_pong p) (lk_tx l) =
      (True, (lk_tx l)\<lparr>tx_hi := tx_hi (lk_tx l) @ [encode (frame_pong p)]\<rparr>)" if "length p \<le> 64" for p
    using that assms(3) by (subst send_frame_ok)
      (auto intro!: wf_frame_ok simp: wf_frame_def frame_pong_def CONTROL_STREAM_def hub_half_def ty_of_def)
  with assms(1,2) show ?thesis
    by (auto simp: dispatch_def wf_frame_def split: body.splits)
qed

theorem control_stream_protocol_witness:
  "dispatch (frame_ping [1, 2]) demo_link =
     Inr (demo_link\<lparr>lk_tx := tx_new\<lparr>tx_hi := [encode (frame_pong [1, 2])]\<rparr>\<rparr>, [])"
  using control_stream_protocol [of "frame_ping [1, 2]" demo_link]
  by (simp add: frame_ping_def wf_frame_def demo_link_def tx_new_def CONTROL_STREAM_def)

lemma min_doubling: "min (min (b * 2) m * 2 ^ j) m = min (b * 2 * 2 ^ j) (m :: nat)"
proof (cases "b * 2 \<le> m")
  case False
  have m: "m \<le> m * 2 ^ j" by simp
  also have "m * 2 ^ j \<le> b * 2 * 2 ^ j" using False by (intro mult_right_mono) simp_all
  finally have "min (b * 2 * 2 ^ j) m = m" by (rule min.absorb2)
  moreover have "min (b * 2) m = m" using False by simp
  ultimately show ?thesis using min.absorb2 [OF m] by (simp only:)
qed simp

lemma reconnect_bounds:
  "1000 \<le> b \<Longrightarrow> b \<le> 60000 \<Longrightarrow> list_all (\<lambda>d. 250 \<le> d \<and> d \<le> 60000) (reconnect_sleeps rs b)"
  by (induction rs b rule: reconnect_sleeps.induct)
    (auto simp: reconnect_step_def RECONNECT_INITIAL_def RECONNECT_MAX_def)

lemma reconnect_failing:
  "list_all (\<lambda>(clean, lasted). \<not> (clean \<and> HEALTHY_SESSION \<le> lasted)) rs \<Longrightarrow> k < length rs \<Longrightarrow> b \<le> 60000 \<Longrightarrow>
     reconnect_sleeps rs b ! k = min (b * 2 ^ k) 60000"
proof (induction rs arbitrary: b k)
  case (Cons r rs)
  obtain clean lasted where r: "r = (clean, lasted)" by fastforce
  then have st: "reconnect_step clean lasted b = (b, min (b * 2) 60000)"
    using Cons.prems(1) by (auto simp: reconnect_step_def RECONNECT_MAX_def)
  show ?case
  proof (cases k)
    case 0
    with st r Cons.prems(3) show ?thesis by simp
  next
    case (Suc j)
    with Cons.IH [of j "min (b * 2) 60000"] Cons.prems(1,2) r st min_doubling [of b 60000 j]
    show ?thesis by (simp add: mult.assoc)
  qed
qed simp

text \<open>
  Reconnecting backs off: after \<open>k\<close> failures in a row the agent waits \<open>2 ^ k\<close> seconds but never more
  than a minute, and it never waits less than 250 milliseconds whatever the connections do.
\<close>

theorem reconnect_backoff:
  "list_all (\<lambda>d. 250 \<le> d \<and> d \<le> 60000) (reconnect_sleeps rs RECONNECT_INITIAL) \<and>
   (list_all (\<lambda>(clean, lasted). \<not> (clean \<and> HEALTHY_SESSION \<le> lasted)) rs \<and> k < length rs \<longrightarrow>
      reconnect_sleeps rs RECONNECT_INITIAL ! k = min (1000 * 2 ^ k) 60000)"
  using reconnect_bounds [of RECONNECT_INITIAL rs] reconnect_failing [of rs k RECONNECT_INITIAL]
  by (simp add: RECONNECT_INITIAL_def)

theorem reconnect_backoff_witness:
  "reconnect_sleeps [(False, 0), (True, 5), (False, 7)] RECONNECT_INITIAL ! 2 = 4000"
  using reconnect_backoff [of "[(False, 0), (True, 5), (False, 7)]" 2]
  by (simp add: HEALTHY_SESSION_def del: reconnect_sleeps.simps)

section \<open>Sessions outlive connections\<close>

text \<open>
  The life of the registry across connections. The collector's pass is taken apart: it chooses under the
  map lock, and then takes the lock anew for each session it drops, with anything in between. The end of
  a connection touches no session: each of its streams detaches.
\<close>

datatype life_op = LMgr mgr_op | LGcCollect nat | LGcDrop

fun life_step :: "life_op \<Rightarrow> manager \<times> (bytes \<times> nat) list \<Rightarrow> manager \<times> (bytes \<times> nat) list" where
  "life_step (LMgr a) (m, drops) = (mgr_step a m, drops)"
| "life_step (LGcCollect now) (m, []) = (m, gc_collect now m)"
| "life_step (LGcCollect now) (m, d # drops) = (m, d # drops)"
| "life_step LGcDrop (m, d # drops) = (fst (gc_drop d m), drops)"
| "life_step LGcDrop (m, []) = (m, [])"

text \<open>
  What may happen to session \<open>h\<close>, named \<open>i\<close>: it is not removed by an operator, its shell does not exit, the
  clock does not run backwards for it, and the collector's passes start no later than \<open>limit\<close>.
\<close>

fun spares :: "bytes \<Rightarrow> nat \<Rightarrow> nat \<Rightarrow> nat \<Rightarrow> life_op \<Rightarrow> bool" where
  "spares i h t limit (LMgr (MRemove j)) = (j \<noteq> i)"
| "spares i h t limit (LMgr (MGc now)) = (now \<le> limit)"
| "spares i h t limit (LMgr (MSession k OpExit)) = (k \<noteq> h)"
| "spares i h t limit (LMgr (MSession k (OpAttach sid geom now))) = (t \<le> now)"
| "spares i h t limit (LMgr (MSession k (OpDetach sid now))) = (t \<le> now)"
| "spares i h t limit (LGcCollect now) = (now \<le> limit)"
| "spares i h t limit _ = True"

fun ops_on :: "nat \<Rightarrow> life_op list \<Rightarrow> sess_op list" where
  "ops_on h [] = []"
| "ops_on h (LMgr (MSession k a) # ls) = (if k = h then a # ops_on h ls else ops_on h ls)"
| "ops_on h (_ # ls) = ops_on h ls"

text \<open>The session is in the registry, alive, used at \<open>t\<close> or later, and not chosen by a pass under way.\<close>

definition session_kept :: "bytes \<Rightarrow> nat \<Rightarrow> nat \<Rightarrow> nat \<Rightarrow> manager \<times> (bytes \<times> nat) list \<Rightarrow> bool" where
  "session_kept i h t ttl md \<longleftrightarrow> mgr_inv (fst md) \<and> idle_ttl (fst md) = ttl \<and> hm_get (smap (fst md)) i = Some h \<and>
     \<not> exited (arena (fst md) ! h) \<and> t \<le> last_attached_at (arena (fst md) ! h) \<and> i \<notin> fst ` set (snd md)"

lemma kept_not_due:
  "session_kept i h t ttl (m, ds) \<Longrightarrow> now \<le> t + ttl \<Longrightarrow> \<not> gc_due (idle_ttl m) now (arena m ! h)"
  by (auto simp: session_kept_def gc_due_def)

lemma lookup_arena:
  "k < length (arena m) \<Longrightarrow> arena (fst (lookup_or_spawn j geom now spawned m)) ! k = arena m ! k"
  by (auto simp: lookup_or_spawn_def Let_def nth_append split: option.splits)

lemma lookup_others:
  "hm_get (smap m) i = Some h \<Longrightarrow> \<not> exited (arena m ! h) \<Longrightarrow>
     hm_get (smap (fst (lookup_or_spawn j geom now spawned m))) i = Some h"
  by (auto simp: lookup_or_spawn_def Let_def split: option.splits)

lemma gc_pass_arena: "arena (fst (gc_pass now m)) = arena m"
  by (simp add: gc_pass_def Let_def gc_drops_smap)

lemma step_times:
  "spares i h t limit (LMgr (MSession h a)) \<Longrightarrow> t \<le> last_attached_at s \<Longrightarrow> \<not> exited s \<Longrightarrow>
     t \<le> last_attached_at (fst (sess_step a s)) \<and> \<not> exited (fst (sess_step a s))"
  by (cases a) (auto simp: sess_defs Let_def split: option.splits prod.splits)

lemma kept_step:
  assumes "session_kept i h t ttl md" "spares i h t (t + ttl) a"
  shows "session_kept i h t ttl (life_step a md)"
    and "arena (fst (life_step a md)) ! h = fst (sess_run (ops_on h [a]) (arena (fst md) ! h))"
proof -
  obtain m ds where md: "md = (m, ds)" by (cases md)
  note k = assms(1) [unfolded md session_kept_def fst_conv snd_conv]
  have h: "h < length (arena m)" using k by (auto simp: mgr_inv_def)
  have lim: "idle_ttl (mgr_step b m) = ttl" for b using mgr_step_limits [of b m] k by simp
  have "session_kept i h t ttl (life_step a (m, ds)) \<and>
      arena (fst (life_step a (m, ds))) ! h = fst (sess_run (ops_on h [a]) (arena m ! h))"
  proof (cases a)
    case (LMgr b)
    note inv = mgr_inv_step [of m b] lim [of b]
    show ?thesis
    proof (cases b)
      case (MLookup j geom now spawned)
      with LMgr k inv h show ?thesis by (auto simp: session_kept_def lookup_arena lookup_others)
    next
      case (MRemove j)
      with LMgr k inv assms(2) show ?thesis by (auto simp: session_kept_def mgr_remove_def)
    next
      case (MGc now)
      with LMgr k inv assms show ?thesis
        using kept_not_due [of i h t ttl m ds now] by (auto simp: session_kept_def gc_pass_get gc_pass_arena md)
    next
      case (MSession j x)
      with LMgr k inv assms(2) h step_times [of i h t "t + ttl" x "arena m ! h"] show ?thesis
        by (cases "j = h") (auto simp: session_kept_def Let_def split_beta simp del: sess_step.simps)
    qed
  next
    case (LGcCollect now)
    with assms md kept_not_due [of i h t ttl m ds now] have "\<not> gc_due (idle_ttl m) now (arena m ! h)" by simp
    with k have "i \<notin> fst ` set (gc_collect now m)"
      by (auto simp: gc_collect_def mgr_inv_def hm_get_iff_mem [symmetric])
    with k LGcCollect show ?thesis by (cases ds) (auto simp: session_kept_def)
  next
    case LGcDrop
    with k show ?thesis by (cases ds) (auto simp: session_kept_def gc_drop_def mgr_inv_remove)
  qed
  then show "session_kept i h t ttl (life_step a md)"
    "arena (fst (life_step a md)) ! h = fst (sess_run (ops_on h [a]) (arena (fst md) ! h))"
    by (simp_all add: md)
qed

lemma ops_on_Cons: "ops_on h (a # ls) = ops_on h [a] @ ops_on h ls"
  by (cases "(h, a # ls)" rule: ops_on.cases) auto

lemma kept_run:
  assumes "session_kept i h t ttl md" "list_all (spares i h t (t + ttl)) ls"
  shows "session_kept i h t ttl (fold life_step ls md) \<and>
    arena (fst (fold life_step ls md)) ! h = fst (sess_run (ops_on h ls) (arena (fst md) ! h))"
  using assms
proof (induction ls arbitrary: md)
  case (Cons a ls)
  then have a: "spares i h t (t + ttl) a" by simp
  note st = kept_step [OF Cons.prems(1) a]
  from Cons.IH [OF st(1)] Cons.prems(2) st(2) show ?case
    by (subst ops_on_Cons) (simp add: sess_run_append Let_def split_beta)
qed simp

text \<open>Every state the agent reaches is well formed, as are all its sessions.\<close>

definition life_inv :: "manager \<times> (bytes \<times> nat) list \<Rightarrow> bool" where
  "life_inv md \<longleftrightarrow> mgr_inv (fst md) \<and> list_all sess_inv (arena (fst md))"

lemma lookup_arena_inv:
  "list_all sess_inv (arena m) \<Longrightarrow> list_all sess_inv (arena (fst (lookup_or_spawn i geom now spawned m)))"
  by (auto simp: lookup_or_spawn_def Let_def sess_inv_spawn split: option.splits)

lemma mgr_step_arena_inv: "list_all sess_inv (arena m) \<Longrightarrow> list_all sess_inv (arena (mgr_step a m))"
proof (cases a)
  case (MSession h x)
  assume "list_all sess_inv (arena m)"
  with MSession sess_inv_step show ?thesis
    by (auto simp: list_all_length nth_list_update simp del: sess_step.simps)
qed (simp_all add: lookup_arena_inv gc_pass_arena mgr_remove_def)

lemma life_inv_run: "life_inv md \<Longrightarrow> life_inv (fold life_step ls md)"
proof (induction ls arbitrary: md)
  case (Cons a ls)
  from Cons.prems have "life_inv (life_step a md)"
    by (cases "(a, md)" rule: life_step.cases)
      (auto simp: life_inv_def mgr_inv_step mgr_step_arena_inv gc_drop_def mgr_inv_remove split: prod.splits)
  with Cons.IH show ?case by simp
qed simp

lemma life_inv_new: "life_inv (mgr_new maxs ttl cap, [])"
  by (simp add: life_inv_def mgr_inv_new) (simp add: mgr_new_def)

lemma stream_attach_sent:
  assumes "sid \<noteq> 0" "stream_attach sid geom now s st tx_new = (t, e)"
  shows "sent_data (tk_tx t) = ring_snapshot (scrollback s)" "hm_get (attached (tk_session t)) sid = Some geom"
proof -
  have "event_data (br_items (tk_events t)) = []"
    using assms(2)
    by (auto simp: stream_attach_def attach_def Let_def split_beta bcast_new_def bcast_push_def BROADCAST_CAP_def split: if_splits)
  with stream_attach_ok(2) [OF assms] show "sent_data (tk_tx t) = ring_snapshot (scrollback s)" by (simp add: data_view_def)
  show "hm_get (attached (tk_session t)) sid = Some geom"
    using assms(2) by (auto simp: stream_attach_def attach_def Let_def split_beta split: if_splits)
qed

text \<open>
  C2. A terminal survives the loss of its connection. Within the idle limit after a session was last attached or
  detached, and whatever else happens on the agent meanwhile (connections and streams of this and other sessions
  come and go, the shell prints, other sessions are spawned and killed, the collector runs, its
  passes interleaved with all this), as long as its shell lives and no operator kills it, a browser that opens
  the session's name again on a new connection gets that same session, and never a fresh shell or an error; and what it
  is sent first is the last \<open>cap\<close> bytes of the scrollback of that time and the output since.
\<close>

theorem session_survives_reconnect:
  assumes "fold life_step pre (mgr_new maxs ttl cap, []) = (m, drops)" "hm_get (smap m) i = Some h" "\<not> exited (arena m ! h)"
    and "i \<notin> fst ` set drops" "sid \<noteq> 0"
    and "list_all (spares i h (last_attached_at (arena m ! h)) (last_attached_at (arena m ! h) + idle_ttl m)) ls"
    and "fold life_step ls (m, drops) = (m1, drops1)"
  shows "\<exists>m2 w task effs. stream_start spawn_text sid i geom now spawned st m1 tx_new = (m2, w, Some (h, task, effs)) \<and>
    tk_tx task = w \<and> hm_get (attached (arena m2 ! h)) sid = Some geom \<and>
    sent_data w = last_n (rcap (scrollback (arena m ! h)))
      (ring_snapshot (scrollback (arena m ! h)) @
       fst (snd (feed (reader_osc (arena m ! h)) (concat (output_of (ops_on h ls))))))"
proof -
  let ?s = "arena m ! h"
  have inv: "life_inv (m, drops)" using life_inv_run [OF life_inv_new [of maxs ttl cap], of pre] assms(1) by simp
  then have "session_kept i h (last_attached_at ?s) (idle_ttl m) (m, drops)" using assms(2-4) by (simp add: session_kept_def life_inv_def)
  from kept_run [OF this assms(6)] assms(7)
  have k: "session_kept i h (last_attached_at ?s) (idle_ttl m) (m1, drops1)" "arena m1 ! h = fst (sess_run (ops_on h ls) ?s)" by auto
  then have l: "lookup_or_spawn i geom now spawned m1 = (m1, Inr h)" by (simp add: session_kept_def lookup_or_spawn_def)
  have h: "h < length (arena m1)" "h < length (arena m)" using k(1) inv assms(2) by (auto simp: session_kept_def life_inv_def mgr_inv_def)
  then have cap: "length (ring_snapshot (scrollback ?s)) \<le> rcap (scrollback ?s)"
    using inv by (auto simp: life_inv_def list_all_length sess_inv_def)
  obtain t e where t: "stream_attach sid geom now (arena m1 ! h) st tx_new = (t, e)" by fastforce
  have "stream_start spawn_text sid i geom now spawned st m1 tx_new =
      (m1\<lparr>arena := (arena m1)[h := tk_session t]\<rparr>, tk_tx t, Some (h, t, e))"
    by (simp add: stream_start_def l t)
  with stream_attach_sent [OF assms(5) t] run_replay [OF cap, of "ops_on h ls"] h(1) k(2) show ?thesis by auto
qed

text \<open>
  The shell says hi, its browser goes away at time 10; while it is gone the shell prints more, the collector looks at
  time 60, and another session is opened; at time 65 the browser is back.
\<close>

definition demo_before :: "life_op list" where
  "demo_before = [LMgr (MLookup [0x61] (24, 80) 0 (Some ([0x74], Bracketed))), LMgr (MSession 0 (OpAttach 5 (24, 80) 1)),
     LMgr (MSession 0 (OpOutput [0x68, 0x69])), LMgr (MSession 0 (OpDetach 5 10))]"

definition demo_away :: "life_op list" where
  "demo_away = [LMgr (MSession 0 (OpOutput [0x6A])), LGcCollect 60,
     LMgr (MLookup [0x62] (24, 80) 61 (Some ([0x75], Bracketed))), LGcDrop]"

theorem session_survives_reconnect_witness:
  "\<exists>m2 w task effs. stream_start (\<lambda>e. []) 7 [0x61] (30, 90) 65 (Some ([0x76], Bracketed)) []
      (fst (fold life_step demo_away (fold life_step demo_before (mgr_new 4 60 8, [])))) tx_new = (m2, w, Some (0, task, effs)) \<and>
     sent_data w = [0x68, 0x69, 0x6A]"
proof -
  let ?s = "\<lparr>sess_id = [0x61], created_at = 0, dl_token = [0x74], paste_style = Bracketed, next_download_id = 1,
      controller = None, last_size = (24, 80), attached = [], scrollback = \<lparr>rbuf = [0x68, 0x69], rcap = 8\<rparr>,
      last_attached_at = 10, exited = False, reader_osc = scanner_new\<rparr>"
  let ?m = "\<lparr>arena = [?s], smap = [([0x61], 0)], max_sessions = 4, idle_ttl = 60, scrollback_cap = 8\<rparr>"
  have plain: "feed scanner_new bs = (scanner_new, bs, [])" if "ESC \<notin> set bs" for bs
    using feed_plain [of scanner_new bs] that by (auto simp: scanner_new_def list_all_iff)
  have "fold life_step demo_before (mgr_new 4 60 8, []) = (?m, [])"
    by (simp add: demo_before_def mgr_new_def lookup_or_spawn_def session_spawn_def attach_def detach_def
        reader_chunk_def plain ESC_def ring_extend_def ring_new_def Let_def del: feed.simps)
  note b = this
  obtain m1 d1 where "fold life_step demo_away (?m, []) = (m1, d1)" by fastforce
  with session_survives_reconnect [OF b, of "[0x61]" 0 7 demo_away m1 d1 "\<lambda>e. []" "(30, 90)" 65 "Some ([0x76], Bracketed)" "[]"]
  show ?thesis
    by (auto simp: b demo_away_def plain ESC_def ring_snapshot_def last_n_def simp del: life_step.simps feed.simps)
qed

end
