(* ===== verification/Hub_Link.thy ===== *)
theory Hub_Link
  imports Agent_Mux "HOL-Library.Sublist"
begin

text \<open>
  The hub's end of an agent connection, from \<open>hub/src/agent_link.rs\<close>, and the browser proxy of
  \<open>hub/src/proxy.rs\<close>: stream ids and handles, the priority writer, the frame dispatch of the reader
  loop, the requests of the admin API, the registry of connected agents, and the two directions of a
  proxied terminal.

  A stream handle is the channel between the reader loop and one browser: its queue, whether the
  browser side still reads, and its id. The registry maps a stream id to the handle that receives for it.
  A request parks under its request id; the answer, when it comes, is kept under the number of the
  call. What the hub handed to its writer is kept per half, as in the model of the agent.
\<close>

section \<open>State\<close>

definition HUB_WRITER_HI_BYTES :: nat where "HUB_WRITER_HI_BYTES = 4 * 1024 * 1024"
definition HUB_WRITER_LO_BYTES :: nat where "HUB_WRITER_LO_BYTES = 16 * 1024 * 1024"
definition STREAM_CHAN_CAP :: nat where "STREAM_CHAN_CAP = 64"
definition MAX_STREAMS_PER_AGENT :: nat where "MAX_STREAMS_PER_AGENT = 256"

record stream_handle =
  sh_id :: u32
  sh_items :: "body list"
  sh_reading :: bool

record agent_link =
  al_writer :: prio_tx
  al_next_stream_id :: u32
  al_streams :: "(u32, nat) hash_map"
  al_handles :: "stream_handle list"
  al_next_request_id :: u32
  al_pending_rpcs :: "(u32, nat) hash_map"
  al_calls :: nat
  al_replies :: "(nat, body) hash_map"
  al_bytes_in :: u64
  al_bytes_out :: u64
  al_frames_in :: u64
  al_frames_out :: u64

text \<open>A link right after its hello, whose bytes count as received.\<close>

definition agent_link_new :: "u64 \<Rightarrow> agent_link" where
  "agent_link_new hello_bytes_in =
     \<lparr>al_writer = \<lparr>tx_hi = [], tx_lo = [], tx_open = True\<rparr>, al_next_stream_id = 1, al_streams = [], al_handles = [],
      al_next_request_id = 1, al_pending_rpcs = [], al_calls = 0, al_replies = [],
      al_bytes_in = hello_bytes_in, al_bytes_out = 0, al_frames_in = 1, al_frames_out = 0\<rparr>"

section \<open>Sending\<close>

definition writer_send :: "half \<Rightarrow> bytes \<Rightarrow> prio_tx \<Rightarrow> bool \<times> prio_tx" where
  "writer_send h bs w =
     (if length bs > (case h of Hi \<Rightarrow> HUB_WRITER_HI_BYTES | Lo \<Rightarrow> HUB_WRITER_LO_BYTES) \<or> \<not> tx_open w then (False, w)
      else (True, case h of Hi \<Rightarrow> w\<lparr>tx_hi := tx_hi w @ [bs]\<rparr> | Lo \<Rightarrow> w\<lparr>tx_lo := tx_lo w @ [bs]\<rparr>))"

definition agent_half :: "frame_type \<Rightarrow> half" where
  "agent_half ty = (case ty of FtPasteBegin \<Rightarrow> Lo | FtPasteChunk \<Rightarrow> Lo | FtPasteEnd \<Rightarrow> Lo | _ \<Rightarrow> Hi)"

definition send_frame :: "frame \<Rightarrow> agent_link \<Rightarrow> bool \<times> agent_link" where
  "send_frame f l =
     (let encoded = encode f; n = word_of_nat (length encoded) in
      case writer_send (agent_half (ty_of f)) encoded (al_writer l) of
        (False, w) \<Rightarrow> (False, l\<lparr>al_writer := w\<rparr>)
      | (True, w) \<Rightarrow> (True, l\<lparr>al_writer := w, al_bytes_out := al_bytes_out l + n, al_frames_out := al_frames_out l + 1\<rparr>))"

section \<open>Streams\<close>

text \<open>\<open>fetch_add\<close> until the id is not zero; the counter wraps.\<close>

function alloc_stream_id :: "u32 \<Rightarrow> u32 \<times> u32" where
  "alloc_stream_id next = (if next \<noteq> 0 then (next, next + 1) else alloc_stream_id (next + 1))"
  by pat_completeness auto
termination
  by (relation "measure (\<lambda>n. if n = 0 then 1 else 0)") auto

declare alloc_stream_id.simps [simp del]

definition open_stream :: "agent_link \<Rightarrow> nat \<times> agent_link" where
  "open_stream l =
     (let (i, next) = alloc_stream_id (al_next_stream_id l); h = length (al_handles l) in
      (h, l\<lparr>al_next_stream_id := next, al_handles := al_handles l @ [\<lparr>sh_id = i, sh_items = [], sh_reading = True\<rparr>],
            al_streams := hm_insert i h (al_streams l)\<rparr>))"

definition sink_send :: "nat \<Rightarrow> body \<Rightarrow> agent_link \<Rightarrow> bool \<times> agent_link" where
  "sink_send h b l = send_frame \<lparr>fstream = sh_id (al_handles l ! h), fbody = b\<rparr> l"

text \<open>
  \<open>StreamSource::recv\<close>: the oldest body; the end when the sender is gone from the registry and the
  queue is empty; otherwise it waits.
\<close>

definition source_recv :: "nat \<Rightarrow> agent_link \<Rightarrow> body option poll \<times> agent_link" where
  "source_recv h l =
     (case sh_items (al_handles l ! h) of
        b # bs \<Rightarrow> (Ready (Some b), l\<lparr>al_handles := (al_handles l)[h := (al_handles l ! h)\<lparr>sh_items := bs\<rparr>]\<rparr>)
      | [] \<Rightarrow> (if h \<in> set (map snd (al_streams l)) then Pending else Ready None, l))"

text \<open>The end of a handle: the receiver is dropped; the guard's task removes the id and sends \<open>Close\<close>.\<close>

definition drop_handle :: "nat \<Rightarrow> agent_link \<Rightarrow> agent_link" where
  "drop_handle h l = l\<lparr>al_handles := (al_handles l)[h := (al_handles l ! h)\<lparr>sh_reading := False\<rparr>]\<rparr>"

definition guard_task :: "nat \<Rightarrow> agent_link \<Rightarrow> agent_link" where
  "guard_task h l =
     (let i = sh_id (al_handles l ! h) in
      snd (send_frame (frame_close i) (l\<lparr>al_streams := hm_remove i (al_streams l)\<rparr>)))"

definition stream_count :: "agent_link \<Rightarrow> nat" where
  "stream_count l = length (al_streams l)"

section \<open>Requests\<close>

definition rpc_start :: "(u32 \<Rightarrow> frame) \<Rightarrow> agent_link \<Rightarrow> nat option \<times> agent_link" where
  "rpc_start build l =
     (let request_id = al_next_request_id l; call = al_calls l;
          l = l\<lparr>al_next_request_id := request_id + 1, al_calls := call + 1,
                al_pending_rpcs := hm_insert request_id call (al_pending_rpcs l)\<rparr>
      in case send_frame (build request_id) l of
           (True, l) \<Rightarrow> (Some call, l)
         | (False, l) \<Rightarrow> (None, l\<lparr>al_pending_rpcs := hm_remove request_id (al_pending_rpcs l)\<rparr>))"

datatype rpc_error = WriterClosed | AgentDropped | NoResponse | UnexpectedResponse | BadJson

text \<open>After the answer, the loss of the sender or the deadline.\<close>

definition rpc_finish :: "u32 \<Rightarrow> nat \<Rightarrow> bool \<Rightarrow> agent_link \<Rightarrow> (rpc_error + body) \<times> agent_link" where
  "rpc_finish request_id call dropped l =
     (case hm_get (al_replies l) call of
        Some b \<Rightarrow> (Inr b, l)
      | None \<Rightarrow>
          (Inl (if dropped then AgentDropped else NoResponse),
           l\<lparr>al_pending_rpcs := hm_remove request_id (al_pending_rpcs l)\<rparr>))"

definition list_sessions_result :: "(bytes \<Rightarrow> session_info list option) \<Rightarrow> body \<Rightarrow> rpc_error + session_info list" where
  "list_sessions_result parse b =
     (case b of BSessionList _ json \<Rightarrow> ok_orE (parse json) BadJson | _ \<Rightarrow> Inl UnexpectedResponse)"

definition kill_session_result :: "body \<Rightarrow> rpc_error + bool" where
  "kill_session_result b =
     (case b of BKillSessionAck _ status \<Rightarrow> Inr (status = KILL_STATUS_OK) | _ \<Rightarrow> Inl UnexpectedResponse)"

section \<open>The reader loop\<close>

datatype reader_error = HelloAfterRegistration | UnexpectedAgentControl | EvictedByNewer | HubIdleTimeout | HubRecvFailed

definition deliver_body :: "u32 \<Rightarrow> body \<Rightarrow> agent_link \<Rightarrow> agent_link" where
  "deliver_body sid b l =
     (case hm_get (al_streams l) sid of
        Some h \<Rightarrow>
          (let c = al_handles l ! h in
           if sh_reading c \<and> length (sh_items c) < STREAM_CHAN_CAP
           then l\<lparr>al_handles := (al_handles l)[h := c\<lparr>sh_items := sh_items c @ [b]\<rparr>]\<rparr>
           else l\<lparr>al_streams := hm_remove sid (al_streams l)\<rparr>)
      | None \<Rightarrow> l)"

definition answer_rpc :: "u32 \<Rightarrow> body \<Rightarrow> agent_link \<Rightarrow> agent_link" where
  "answer_rpc request_id b l =
     (case hm_get (al_pending_rpcs l) request_id of
        Some call \<Rightarrow> l\<lparr>al_pending_rpcs := hm_remove request_id (al_pending_rpcs l),
                       al_replies := hm_insert call b (al_replies l)\<rparr>
      | None \<Rightarrow> l)"

definition hub_dispatch :: "frame \<Rightarrow> agent_link \<Rightarrow> reader_error + agent_link" where
  "hub_dispatch f l =
     (let sid = fstream f in
      if sid = 0
      then (case fbody f of
              BPing p \<Rightarrow> Inr (snd (send_frame (frame_pong p) l))
            | BPong _ \<Rightarrow> Inr l
            | BHello _ \<Rightarrow> Inl HelloAfterRegistration
            | BSessionList request_id json \<Rightarrow> Inr (answer_rpc request_id (BSessionList request_id json) l)
            | BKillSessionAck request_id status \<Rightarrow> Inr (answer_rpc request_id (BKillSessionAck request_id status) l)
            | _ \<Rightarrow> Inl UnexpectedAgentControl)
      else Inr (deliver_body sid (fbody f) l))"

text \<open>
  What the reader's \<open>select!\<close> yields: the eviction notice, the idle deadline, an error or the end of the
  transport, or a frame with the bytes it took. The loop runs over these events and says how it ended;
  \<open>None\<close> when it still waits for the next one.
\<close>

datatype reader_event = ReadEvicted | ReadIdle | ReadFailed | ReadEof | ReadFrame frame u64

definition reader_turn :: "reader_event \<Rightarrow> agent_link \<Rightarrow> (reader_error + unit) option \<times> agent_link" where
  "reader_turn ev l =
     (case ev of
        ReadEvicted \<Rightarrow> (Some (Inl EvictedByNewer), l)
      | ReadIdle \<Rightarrow> (Some (Inl HubIdleTimeout), l)
      | ReadFailed \<Rightarrow> (Some (Inl HubRecvFailed), l)
      | ReadEof \<Rightarrow> (Some (Inr ()), l)
      | ReadFrame f n \<Rightarrow>
          (let l = l\<lparr>al_bytes_in := al_bytes_in l + n, al_frames_in := al_frames_in l + 1\<rparr> in
           case hub_dispatch f l of Inl e \<Rightarrow> (Some (Inl e), l) | Inr l \<Rightarrow> (None, l)))"

fun reader_loop :: "reader_event list \<Rightarrow> agent_link \<Rightarrow> (reader_error + unit) option \<times> agent_link" where
  "reader_loop [] l = (None, l)"
| "reader_loop (ev # evs) l = (case reader_turn ev l of (None, l) \<Rightarrow> reader_loop evs l | r \<Rightarrow> r)"

text \<open>The end of a connection: the streams' senders are dropped and the writer stops.\<close>

definition link_end :: "agent_link \<Rightarrow> agent_link" where
  "link_end l = l\<lparr>al_streams := [], al_writer := (al_writer l)\<lparr>tx_open := False\<rparr>\<rparr>"

section \<open>Registration\<close>

text \<open>The version handshake; the JSON parser yields the version of a hello.\<close>

datatype hello_error = HelloEof | HelloNotFirst | HelloJson | HelloVersion u32

definition check_hello :: "(bytes \<Rightarrow> u32 option) \<Rightarrow> frame option \<Rightarrow> hello_error + unit" where
  "check_hello parse first =
     (case first of
        None \<Rightarrow> Inl HelloEof
      | Some f \<Rightarrow>
          (case (fstream f = 0, fbody f) of
             (True, BHello b) \<Rightarrow>
               bindE (ok_orE (parse b) HelloJson) (\<lambda>version. failE (version \<noteq> HELLO_VERSION) (HelloVersion version))
           | _ \<Rightarrow> Inl HelloNotFirst))"

text \<open>
  The connections so far, in the order they registered, and the map from a machine to the one that
  serves it. \<open>link_accept\<close> is the start of \<open>handle_connection\<close>: the hello, the fresh link, and the insertion
  that replaces and evicts an older link; \<open>link_teardown\<close> is its end.
\<close>

record hub_links =
  hl_links :: "agent_link list"
  hl_agents :: "(bytes, nat) hash_map"

definition link_accept ::
  "(bytes \<Rightarrow> u32 option) \<Rightarrow> bytes \<Rightarrow> (frame \<times> u64) option \<Rightarrow> hub_links \<Rightarrow> hello_error + nat \<times> nat option \<times> hub_links" where
  "link_accept parse machine_id first hl =
     bindE (check_hello parse (map_option fst first)) (\<lambda>_.
       (let hello_bytes_in = (case first of Some (_, n) \<Rightarrow> n | None \<Rightarrow> 0); conn = length (hl_links hl) in
        Inr (conn, hm_get (hl_agents hl) machine_id,
             \<lparr>hl_links = hl_links hl @ [agent_link_new hello_bytes_in],
              hl_agents = hm_insert machine_id conn (hl_agents hl)\<rparr>)))"

definition link_teardown :: "bytes \<Rightarrow> nat \<Rightarrow> hub_links \<Rightarrow> hub_links" where
  "link_teardown machine_id conn hl =
     \<lparr>hl_links = (hl_links hl)[conn := link_end (hl_links hl ! conn)],
      hl_agents = (if hm_get (hl_agents hl) machine_id = Some conn then hm_remove machine_id (hl_agents hl)
                   else hl_agents hl)\<rparr>"

section \<open>The proxy\<close>

datatype ws_msg = WsBinary bytes | WsClose | WsPing | WsPong | WsText bytes

datatype proxy_action = ProxyBreak | ProxyContinue | ProxyForward body

definition ws_to_stream :: "u32 \<Rightarrow> ws_msg \<Rightarrow> proxy_action" where
  "ws_to_stream stream_id msg =
     (case msg of
        WsBinary data \<Rightarrow>
          if length data < HEADER_LEN then ProxyBreak
          else
          (case header_fields data :: frame_error fail + u32 \<times> u8 \<times> u32 of
             Inl _ \<Rightarrow> ProxyBreak
           | Inr (in_stream, ty_byte, len) \<Rightarrow>
               if in_stream \<noteq> 0 then ProxyBreak
               else
               (case validate_header stream_id ty_byte len of
                  Inl _ \<Rightarrow> ProxyBreak
                | Inr (ty, len) \<Rightarrow>
                    if length data \<noteq> HEADER_LEN + unat len then ProxyBreak
                    else
                    (case from_payload stream_id ty (drop HEADER_LEN data) of
                       Inl _ \<Rightarrow> ProxyBreak
                     | Inr f \<Rightarrow> ProxyForward (fbody f))))
      | WsClose \<Rightarrow> ProxyBreak
      | WsPing \<Rightarrow> ProxyContinue
      | WsPong \<Rightarrow> ProxyContinue
      | WsText _ \<Rightarrow> ProxyBreak)"

text \<open>
  \<open>WsRecv::recv\<close> of the agent's WebSocket, on either side: binary messages are frames, a close, an error and
  the end of the stream are the end of the connection, and everything else is skipped.
\<close>

datatype ws_item = WsMsg ws_msg | WsError

fun ws_recv :: "ws_item list \<Rightarrow> (frame_error fail + (frame \<times> u64) option) \<times> ws_item list" where
  "ws_recv [] = (Inr None, [])"
| "ws_recv (WsError # rest) = (Inr None, rest)"
| "ws_recv (WsMsg (WsBinary data) # rest) = (bindE (frame_from_ws_payload data) (\<lambda>r. Inr (Some r)), rest)"
| "ws_recv (WsMsg WsClose # rest) = (Inr None, rest)"
| "ws_recv (WsMsg WsPing # rest) = ws_recv rest"
| "ws_recv (WsMsg WsPong # rest) = ws_recv rest"
| "ws_recv (WsMsg (WsText _) # rest) = ws_recv rest"

definition stream_to_ws :: "body \<Rightarrow> bytes" where
  "stream_to_ws b = encode \<lparr>fstream = 0, fbody = b\<rparr>"

text \<open>One turn of the browser loop: the flag says whether it goes on.\<close>

definition proxy_turn :: "nat \<Rightarrow> ws_msg \<Rightarrow> agent_link \<Rightarrow> bool \<times> agent_link" where
  "proxy_turn h msg l =
     (case ws_to_stream (sh_id (al_handles l ! h)) msg of
        ProxyBreak \<Rightarrow> (False, l)
      | ProxyContinue \<Rightarrow> (True, l)
      | ProxyForward b \<Rightarrow> sink_send h b l)"

fun proxy_loop :: "nat \<Rightarrow> ws_msg list \<Rightarrow> agent_link \<Rightarrow> agent_link" where
  "proxy_loop h [] l = l"
| "proxy_loop h (msg # msgs) l = (case proxy_turn h msg l of (True, l) \<Rightarrow> proxy_loop h msgs l | (False, l) \<Rightarrow> l)"

text \<open>
  The last checks of \<open>term_ws\<close> before the upgrade, and the requests of the admin API: both look for the
  link that serves the machine now. The upgraded connection opens its stream later.
\<close>

definition proxy_link :: "hub_links \<Rightarrow> bytes \<Rightarrow> nat + nat" where
  "proxy_link hl machine_id =
     (case hm_get (hl_agents hl) machine_id of
        None \<Rightarrow> Inl 503
      | Some conn \<Rightarrow> if stream_count (hl_links hl ! conn) \<ge> MAX_STREAMS_PER_AGENT then Inl 503 else Inr conn)"

text \<open>
  The two routes of \<open>api_routes.rs\<close> that ask an agent: no link is \<open>503\<close>, every failure of the request is
  \<open>504\<close>. The request is sent first; the response is made when the call ends.
\<close>

datatype api_resp = ApiSessions "session_info list" | ApiKilled bool | ApiStatus nat

definition api_call :: "(u32 \<Rightarrow> frame) \<Rightarrow> bytes \<Rightarrow> hub_links \<Rightarrow> api_resp + nat \<times> nat option \<times> agent_link" where
  "api_call build machine_id hl =
     (case hm_get (hl_agents hl) machine_id of
        None \<Rightarrow> Inl (ApiStatus 503)
      | Some conn \<Rightarrow> Inr (conn, rpc_start build (hl_links hl ! conn)))"

definition api_list_sessions :: "bytes \<Rightarrow> hub_links \<Rightarrow> api_resp + nat \<times> nat option \<times> agent_link" where
  "api_list_sessions machine_id hl = api_call frame_list_sessions machine_id hl"

definition api_kill_session :: "bytes \<Rightarrow> bytes \<Rightarrow> hub_links \<Rightarrow> api_resp + nat \<times> nat option \<times> agent_link" where
  "api_kill_session machine_id session_id hl = api_call (\<lambda>rid. frame_kill_session rid session_id) machine_id hl"

definition api_list_response :: "(bytes \<Rightarrow> session_info list option) \<Rightarrow> rpc_error + body \<Rightarrow> api_resp" where
  "api_list_response parse r =
     (case bindE r (list_sessions_result parse) of Inr sessions \<Rightarrow> ApiSessions sessions | Inl _ \<Rightarrow> ApiStatus 504)"

definition api_kill_response :: "rpc_error + body \<Rightarrow> api_resp" where
  "api_kill_response r =
     (case bindE r kill_session_result of Inr killed \<Rightarrow> ApiKilled killed | Inl _ \<Rightarrow> ApiStatus 504)"

section \<open>What the proxy forwards\<close>

lemma ws_to_stream_iff:
  "ws_to_stream sid (WsBinary d) = ProxyForward b \<longleftrightarrow>
     wf_frame \<lparr>fstream = sid, fbody = b\<rparr> \<and> d = be32 0 @ drop 4 (encode \<lparr>fstream = sid, fbody = b\<rparr>)"
proof (cases "length d < 9")
  case True
  then show ?thesis by (auto simp: ws_to_stream_def length_encode)
next
  case False
  then obtain s t len p where d: "d = be32 s @ t # be32 len @ p" using header_prefix [of d] by auto
  let ?f = "\<lparr>fstream = sid, fbody = b\<rparr>"
  have enc: "encode ?f = be32 sid @ drop 4 (encode ?f)" by (simp add: encode_fields)
  have eq: "d = be32 0 @ drop 4 (encode ?f) \<longleftrightarrow> s = 0 \<and> be32 sid @ t # be32 len @ p = encode ?f"
    by (subst (2) enc) (simp add: d)
  show ?thesis
  proof (cases "length p = unat len")
    case True
    have "ws_to_stream sid (WsBinary d) = ProxyForward b \<longleftrightarrow> s = 0 \<and> delimited sid t len p = Inr ?f"
    proof (cases "validate_header sid t len")
      case (Inl e)
      then show ?thesis by (simp add: ws_to_stream_def d header_fields_be delimited_def result_simps map_errE_def)
    next
      case (Inr r)
      then obtain ty where r: "r = (ty, len)" by (cases r) (auto simp: validate_header_iff)
      show ?thesis using True
        by (auto simp: ws_to_stream_def d header_fields_be Inr r delimited_def result_simps map_errE_def
            from_payload_def split: sum.splits)
    qed
    then show ?thesis unfolding delimited_iff [OF True] eq by blast
  next
    case False
    then have "be32 sid @ t # be32 len @ p \<noteq> encode ?f" if "wf_frame ?f"
      using wf_header_len [OF that] by (auto simp: encode_fields)
    moreover have "ws_to_stream sid (WsBinary d) \<noteq> ProxyForward b"
      using False by (auto simp: ws_to_stream_def d header_fields_be validate_header_iff split: sum.splits)
    ultimately show ?thesis unfolding eq by blast
  qed
qed

lemma ws_to_stream_wf: "ws_to_stream sid msg = ProxyForward b \<Longrightarrow> wf_frame \<lparr>fstream = sid, fbody = b\<rparr>"
  using ws_to_stream_iff by (cases msg) (auto simp: ws_to_stream_def)

lemma agent_half_lo: "agent_half (ty_of \<lparr>fstream = sid, fbody = b\<rparr>) = (if half_lo b then Lo else Hi)"
  by (cases b) (simp_all add: agent_half_def ty_of_def half_lo_def)

lemma writer_send_eq: "writer_send = half_send"
  by (intro ext) (simp add: writer_send_def half_send_def HUB_WRITER_HI_BYTES_def HUB_WRITER_LO_BYTES_def
      WRITE_HI_BYTES_def WRITE_LO_BYTES_def split: half.splits)

lemma send_frame_fields [simp]:
  "al_streams (snd (send_frame f l)) = al_streams l" "al_handles (snd (send_frame f l)) = al_handles l"
  "al_next_stream_id (snd (send_frame f l)) = al_next_stream_id l"
  "al_pending_rpcs (snd (send_frame f l)) = al_pending_rpcs l" "al_replies (snd (send_frame f l)) = al_replies l"
  "al_calls (snd (send_frame f l)) = al_calls l" "al_next_request_id (snd (send_frame f l)) = al_next_request_id l"
  by (auto simp: send_frame_def Let_def split: prod.splits bool.splits)

lemma send_frame_wf:
  assumes "wf_frame f" "tx_open (al_writer l)"
  shows "fst (send_frame f l)"
    and "al_writer (snd (send_frame f l)) =
      (case agent_half (ty_of f) of
         Hi \<Rightarrow> (al_writer l)\<lparr>tx_hi := tx_hi (al_writer l) @ [encode f]\<rparr>
       | Lo \<Rightarrow> (al_writer l)\<lparr>tx_lo := tx_lo (al_writer l) @ [encode f]\<rparr>)"
  using half_send_ok [OF carries_wf [OF assms(1) refl] assms(2)]
  by (simp_all add: send_frame_def Let_def writer_send_eq split: half.splits)

text \<open>The bodies a browser's messages carry to the agent, up to the first one that ends the proxy.\<close>

fun forwarded :: "u32 \<Rightarrow> ws_msg list \<Rightarrow> body list" where
  "forwarded sid [] = []"
| "forwarded sid (msg # msgs) =
     (case ws_to_stream sid msg of
        ProxyBreak \<Rightarrow> []
      | ProxyContinue \<Rightarrow> forwarded sid msgs
      | ProxyForward b \<Rightarrow> b # forwarded sid msgs)"

lemma forwarded_wf: "b \<in> set (forwarded sid msgs) \<Longrightarrow> wf_frame \<lparr>fstream = sid, fbody = b\<rparr>"
  by (induction msgs) (auto split: proxy_action.splits dest: ws_to_stream_wf)

abbreviation on_stream :: "u32 \<Rightarrow> body \<Rightarrow> bytes" where
  "on_stream sid b \<equiv> encode \<lparr>fstream = sid, fbody = b\<rparr>"

lemma proxy_loop_writes:
  assumes "tx_open (al_writer l)" "sh_id (al_handles l ! h) = sid"
  shows "al_writer (proxy_loop h msgs l) = (al_writer l)\<lparr>
      tx_hi := tx_hi (al_writer l) @ map (on_stream sid) (filter (\<lambda>b. \<not> half_lo b) (forwarded sid msgs)),
      tx_lo := tx_lo (al_writer l) @ map (on_stream sid) (filter half_lo (forwarded sid msgs))\<rparr>"
  using assms
proof (induction msgs arbitrary: l)
  case (Cons msg msgs)
  show ?case
  proof (cases "ws_to_stream sid msg")
    case ProxyBreak
    with Cons.prems show ?thesis by (simp add: proxy_turn_def)
  next
    case ProxyContinue
    with Cons show ?thesis by (simp add: proxy_turn_def)
  next
    case (ProxyForward b)
    let ?f = "\<lparr>fstream = sid, fbody = b\<rparr>" and ?r = "send_frame \<lparr>fstream = sid, fbody = b\<rparr> l"
    note sent = send_frame_wf [OF ws_to_stream_wf [OF ProxyForward] Cons.prems(1)]
    have turn: "proxy_turn h msg l = (True, snd ?r)"
      using ProxyForward Cons.prems sent(1) by (simp add: proxy_turn_def sink_send_def prod_eq_iff)
    have "tx_open (al_writer (snd ?r))" using sent(2) Cons.prems(1) by (simp split: half.splits)
    from Cons.IH [OF this] Cons.prems(2) sent(2) turn ProxyForward show ?thesis
      by (simp add: agent_half_lo)
  qed
qed simp

text \<open>Messages that are no frames do not disturb the one that follows them.\<close>

fun is_chatter :: "ws_item \<Rightarrow> bool" where
  "is_chatter (WsMsg WsPing) = True"
| "is_chatter (WsMsg WsPong) = True"
| "is_chatter (WsMsg (WsText _)) = True"
| "is_chatter _ = False"

lemma ws_recv_skips: "list_all is_chatter pre \<Longrightarrow> ws_recv (pre @ rest) = ws_recv rest"
  by (induction pre rule: ws_recv.induct) auto

section \<open>Runs of a link\<close>

text \<open>
  Everything that happens to one link, in any order: browsers open streams, send, receive and go away,
  the admin API calls and gives up, and the reader loop takes frames of the agent.
\<close>

datatype link_event =
  EvOpened nat | EvSent nat body | EvReceived nat "body option" | EvDropped nat | EvClosed nat
| EvCalled "nat option" | EvFinished nat "rpc_error + body" | EvRead frame

inductive link_run :: "u64 \<Rightarrow> link_event list \<Rightarrow> agent_link \<Rightarrow> bool" for n where
  run_init: "link_run n [] (agent_link_new n)"
| run_open: "link_run n log l \<Longrightarrow> open_stream l = (h, l') \<Longrightarrow> link_run n (log @ [EvOpened h]) l'"
| run_send: "link_run n log l \<Longrightarrow> h < length (al_handles l) \<Longrightarrow> sink_send h b l = (sent, l') \<Longrightarrow>
    link_run n (log @ [EvSent h b]) l'"
| run_recv: "link_run n log l \<Longrightarrow> h < length (al_handles l) \<Longrightarrow> source_recv h l = (Ready r, l') \<Longrightarrow>
    link_run n (log @ [EvReceived h r]) l'"
| run_drop: "link_run n log l \<Longrightarrow> h < length (al_handles l) \<Longrightarrow> link_run n (log @ [EvDropped h]) (drop_handle h l)"
| run_guard: "link_run n log l \<Longrightarrow> h < length (al_handles l) \<Longrightarrow> \<not> sh_reading (al_handles l ! h) \<Longrightarrow>
    link_run n (log @ [EvClosed h]) (guard_task h l)"
| run_call: "link_run n log l \<Longrightarrow> rpc_start build l = (call, l') \<Longrightarrow> link_run n (log @ [EvCalled call]) l'"
| run_finish: "link_run n log l \<Longrightarrow> call < al_calls l \<Longrightarrow>
    rpc_finish (word_of_nat (Suc call)) call dropped l = (r, l') \<Longrightarrow> link_run n (log @ [EvFinished call r]) l'"
| run_read: "link_run n log l \<Longrightarrow> reader_turn (ReadFrame f k) l = (None, l') \<Longrightarrow> link_run n (log @ [EvRead f]) l'"

lemma open_stream_eq:
  assumes "al_next_stream_id l \<noteq> 0"
  shows "open_stream l = (length (al_handles l), l\<lparr>al_next_stream_id := al_next_stream_id l + 1,
    al_handles := al_handles l @ [\<lparr>sh_id = al_next_stream_id l, sh_items = [], sh_reading = True\<rparr>],
    al_streams := hm_insert (al_next_stream_id l) (length (al_handles l)) (al_streams l)\<rparr>)"
  using assms by (simp add: open_stream_def alloc_stream_id.simps Let_def)

text \<open>What one event changes of the streams: the frame conditions of the operations that send.\<close>

lemma sink_send_fields [simp]:
  "al_streams (snd (sink_send h b l)) = al_streams l" "al_handles (snd (sink_send h b l)) = al_handles l"
  "al_next_stream_id (snd (sink_send h b l)) = al_next_stream_id l"
  "al_pending_rpcs (snd (sink_send h b l)) = al_pending_rpcs l" "al_replies (snd (sink_send h b l)) = al_replies l"
  "al_calls (snd (sink_send h b l)) = al_calls l" "al_next_request_id (snd (sink_send h b l)) = al_next_request_id l"
  by (simp_all add: sink_send_def)

lemma guard_task_fields [simp]:
  "al_streams (guard_task h l) = hm_remove (sh_id (al_handles l ! h)) (al_streams l)"
  "al_handles (guard_task h l) = al_handles l" "al_next_stream_id (guard_task h l) = al_next_stream_id l"
  "al_pending_rpcs (guard_task h l) = al_pending_rpcs l" "al_replies (guard_task h l) = al_replies l"
  "al_calls (guard_task h l) = al_calls l" "al_next_request_id (guard_task h l) = al_next_request_id l"
  by (simp_all add: guard_task_def Let_def)

lemma rpc_start_fields [simp]:
  "al_streams (snd (rpc_start build l)) = al_streams l" "al_handles (snd (rpc_start build l)) = al_handles l"
  "al_next_stream_id (snd (rpc_start build l)) = al_next_stream_id l" "al_replies (snd (rpc_start build l)) = al_replies l"
  "al_calls (snd (rpc_start build l)) = Suc (al_calls l)"
  "al_next_request_id (snd (rpc_start build l)) = al_next_request_id l + 1"
  by (auto simp: rpc_start_def Let_def prod_eq_iff split: prod.splits bool.splits
      dest!: arg_cong [where f = snd])

lemma rpc_finish_fields:
  assumes "rpc_finish rid call dropped l = (r, l')"
  shows "al_streams l' = al_streams l" "al_handles l' = al_handles l" "al_next_stream_id l' = al_next_stream_id l"
    "al_replies l' = al_replies l" "al_calls l' = al_calls l" "al_next_request_id l' = al_next_request_id l"
  using assms by (auto simp: rpc_finish_def split: option.splits)

text \<open>
  The registry names handles by their own ids, ids are handed out in order, and no queue grows past
  its capacity.
\<close>

definition streams_ok :: "agent_link \<Rightarrow> bool" where
  "streams_ok l \<longleftrightarrow>
     al_next_stream_id l = word_of_nat (Suc (length (al_handles l))) \<and>
     (\<forall>h < length (al_handles l). sh_id (al_handles l ! h) = word_of_nat (Suc h) \<and>
        length (sh_items (al_handles l ! h)) \<le> STREAM_CHAN_CAP) \<and>
     (\<forall>sid h. hm_get (al_streams l) sid = Some h \<longrightarrow> h < length (al_handles l) \<and> sid = word_of_nat (Suc h))"

fun request_of :: "body \<Rightarrow> u32 option" where
  "request_of (BSessionList rid _) = Some rid"
| "request_of (BKillSessionAck rid _) = Some rid"
| "request_of _ = None"

definition calls_ok :: "agent_link \<Rightarrow> bool" where
  "calls_ok l \<longleftrightarrow>
     al_next_request_id l = word_of_nat (Suc (al_calls l)) \<and>
     (\<forall>rid call. hm_get (al_pending_rpcs l) rid = Some call \<longrightarrow>
        call < al_calls l \<and> rid = word_of_nat (Suc call) \<and> hm_get (al_replies l) call = None) \<and>
     (\<forall>call b. hm_get (al_replies l) call = Some b \<longrightarrow>
        call < al_calls l \<and> request_of b = Some (word_of_nat (Suc call)))"

text \<open>An event of the log touches the streams in one of these ways.\<close>

lemma hub_dispatch_cases [consumes 1, case_names other answered delivered]:
  assumes "hub_dispatch f l = Inr l'"
  obtains "al_streams l' = al_streams l" "al_handles l' = al_handles l" "al_next_stream_id l' = al_next_stream_id l"
    "al_pending_rpcs l' = al_pending_rpcs l" "al_replies l' = al_replies l" "al_calls l' = al_calls l"
    "al_next_request_id l' = al_next_request_id l" "fstream f = 0"
  | rid where "request_of (fbody f) = Some rid" "l' = answer_rpc rid (fbody f) l" "fstream f = 0"
  | "fstream f \<noteq> 0" "l' = deliver_body (fstream f) (fbody f) l"
  using assms by (cases "fstream f = 0"; cases "fbody f") (simp_all add: hub_dispatch_def Let_def, auto)

lemma reader_turn_Read: "reader_turn (ReadFrame f k) l = (None, l') \<longleftrightarrow>
    hub_dispatch f (l\<lparr>al_bytes_in := al_bytes_in l + k, al_frames_in := al_frames_in l + 1\<rparr>) = Inr l'"
  by (auto simp: reader_turn_def Let_def split: sum.splits)

lemma streams_ok_cong:
  "al_streams l' = al_streams l \<Longrightarrow> al_handles l' = al_handles l \<Longrightarrow> al_next_stream_id l' = al_next_stream_id l \<Longrightarrow>
     streams_ok l' \<longleftrightarrow> streams_ok l"
  by (simp add: streams_ok_def)

lemma streams_ok_update:
  assumes "streams_ok l" "h < length (al_handles l)" "sh_id c = sh_id (al_handles l ! h)"
    and "length (sh_items c) \<le> STREAM_CHAN_CAP"
  shows "streams_ok (l\<lparr>al_handles := (al_handles l)[h := c]\<rparr>)"
  using assms by (auto simp: streams_ok_def nth_list_update)

lemma streams_ok_remove: "streams_ok l \<Longrightarrow> streams_ok (l\<lparr>al_streams := hm_remove sid (al_streams l)\<rparr>)"
  by (auto simp: streams_ok_def)

lemma streams_ok_open:
  assumes "streams_ok l" "Suc (length (al_handles l)) < 2 ^ 32"
  shows "streams_ok (snd (open_stream l))"
proof -
  have "al_next_stream_id l = word_of_nat (Suc (length (al_handles l)))" using assms(1) by (simp add: streams_ok_def)
  moreover from this assms(2) have "al_next_stream_id l \<noteq> 0"
    by (simp add: word_of_nat_eq_0_iff nat_dvd_not_less del: of_nat_Suc)
  ultimately show ?thesis
    using assms(1) by (auto simp: open_stream_eq streams_ok_def nth_append less_Suc_eq add.commute)
qed

lemma streams_ok_deliver: "streams_ok l \<Longrightarrow> streams_ok (deliver_body sid b l)"
  by (auto simp: deliver_body_def Let_def streams_ok_def nth_list_update split: option.splits)
   
lemma streams_ok_answer: "streams_ok (answer_rpc rid b l) = streams_ok l"
  by (simp add: answer_rpc_def streams_ok_def split: option.splits)

text \<open>Handles stay where they are, so an event never lowers the number of opened streams.\<close>

lemma deliver_handles [simp]: "length (al_handles (deliver_body sid b l)) = length (al_handles l)"
  by (simp add: deliver_body_def Let_def split: option.splits)

lemma answer_fields [simp]:
  "al_handles (answer_rpc rid b l) = al_handles l" "al_streams (answer_rpc rid b l) = al_streams l"
  "al_next_stream_id (answer_rpc rid b l) = al_next_stream_id l" "al_calls (answer_rpc rid b l) = al_calls l"
  "al_next_request_id (answer_rpc rid b l) = al_next_request_id l"
  by (simp_all add: answer_rpc_def split: option.splits)

lemma source_recv_cases [consumes 1, case_names took ended]:
  assumes "source_recv h l = (Ready r, l')"
  obtains b bs where "sh_items (al_handles l ! h) = b # bs" "r = Some b"
    "l' = l\<lparr>al_handles := (al_handles l)[h := (al_handles l ! h)\<lparr>sh_items := bs\<rparr>]\<rparr>"
  | "sh_items (al_handles l ! h) = []" "r = None" "l' = l"
  using assms by (auto simp: source_recv_def split: list.splits if_splits)

lemma streams_ok_run:
  assumes "link_run n log l" "length (al_handles l) < 2 ^ 32"
  shows "streams_ok l"
  using assms
proof (induction rule: link_run.induct)
  case run_init
  then show ?case by (simp add: streams_ok_def agent_link_new_def)
next
  case (run_open log l h l')
  have l': "l' = snd (open_stream l)" using run_open.hyps by simp
  then have "length (al_handles l') = Suc (length (al_handles l))"
    by (simp add: open_stream_def Let_def split: prod.splits)
  with run_open l' show ?case by (auto intro: streams_ok_open)
next
  case (run_send log l h b sent l')
  then show ?case using sink_send_fields [of h b l] by (simp add: streams_ok_cong [of l' l])
next
  case (run_recv log l h r l')
  from run_recv(3) show ?case
  proof (cases rule: source_recv_cases)
    case (took b bs)
    with run_recv show ?thesis
      by (simp, intro streams_ok_update) (auto simp: streams_ok_def)
  next
    case ended
    with run_recv show ?thesis by simp
  qed
next
  case (run_drop log l h)
  then show ?case unfolding drop_handle_def by (intro streams_ok_update) (auto simp: streams_ok_def)
next
  case (run_guard log l h)
  then show ?case by (subst streams_ok_cong [where l = "l\<lparr>al_streams := hm_remove (sh_id (al_handles l ! h)) (al_streams l)\<rparr>"])
      (auto intro: streams_ok_remove)
next
  case (run_call log l build call l')
  then show ?case using rpc_start_fields(1-3) [of build l] by (simp add: streams_ok_cong [of l' l])
next
  case (run_finish log l call dropped r l')
  with rpc_finish_fields [OF run_finish(3)] show ?case by (simp add: streams_ok_cong [of l' l])
next
  case (run_read log l f k l')
  let ?l = "l\<lparr>al_bytes_in := al_bytes_in l + k, al_frames_in := al_frames_in l + 1\<rparr>"
  have d: "hub_dispatch f ?l = Inr l'" using run_read(2) by (simp add: reader_turn_Read)
  have ok: "streams_ok ?l" if "streams_ok l" using that by (simp add: streams_ok_def)
  from d show ?case
  proof (cases rule: hub_dispatch_cases)
    case other
    with run_read show ?thesis by (simp add: streams_ok_cong [of l' l])
  next
    case (answered rid)
    with run_read ok show ?thesis by (simp add: streams_ok_answer)
  next
    case delivered
    with run_read ok show ?thesis by (simp add: streams_ok_deliver)
  qed
qed

text \<open>
  What a browser received from its stream, and what the agent sent to it since it was opened.
\<close>

fun received_body :: "nat \<Rightarrow> link_event \<Rightarrow> body list" where
  "received_body h (EvReceived k (Some b)) = (if k = h then [b] else [])"
| "received_body h _ = []"

fun read_body :: "u32 \<Rightarrow> link_event \<Rightarrow> body list" where
  "read_body sid (EvRead f) = (if fstream f = sid then [fbody f] else [])"
| "read_body sid _ = []"

definition received :: "nat \<Rightarrow> link_event list \<Rightarrow> body list" where
  "received h log = concat (map (received_body h) log)"

definition agent_sent :: "nat \<Rightarrow> link_event list \<Rightarrow> body list" where
  "agent_sent h log = concat (map (read_body (word_of_nat (Suc h))) (dropWhile (\<lambda>e. e \<noteq> EvOpened h) log))"

lemma received_snoc [simp]: "received h (log @ [e]) = received h log @ received_body h e"
  by (simp add: received_def)

lemma agent_sent_snoc:
  "agent_sent h (log @ [e]) = (if EvOpened h \<in> set log then agent_sent h log @ read_body (word_of_nat (Suc h)) e else [])"
proof (cases "EvOpened h \<in> set log")
  case True
  then have "dropWhile (\<lambda>e. e \<noteq> EvOpened h) (log @ [e]) = dropWhile (\<lambda>e. e \<noteq> EvOpened h) log @ [e]"
    by (auto simp: dropWhile_append)
  with True show ?thesis by (simp add: agent_sent_def)
next
  case False
  then have "dropWhile (\<lambda>e. e \<noteq> EvOpened h) log = []" by (auto simp: dropWhile_eq_Nil_conv)
  with False show ?thesis by (auto simp: agent_sent_def dropWhile_append)
qed

abbreviation registered :: "agent_link \<Rightarrow> nat \<Rightarrow> bool" where
  "registered l h \<equiv> hm_get (al_streams l) (word_of_nat (Suc h)) = Some h"

definition handle_ok :: "link_event list \<Rightarrow> agent_link \<Rightarrow> nat \<Rightarrow> bool" where
  "handle_ok log l h \<longleftrightarrow>
     (if h < length (al_handles l)
      then EvOpened h \<in> set log \<and> prefix (received h log @ sh_items (al_handles l ! h)) (agent_sent h log) \<and>
        (registered l h \<longrightarrow> received h log @ sh_items (al_handles l ! h) = agent_sent h log)
      else EvOpened h \<notin> set log \<and> received h log = [])"

text \<open>An event moves \<open>d\<close> into a handle's queue, or takes from its front: the log and the queue stay in step.\<close>

lemma handle_step:
  assumes "handle_ok log l h" "length (al_handles l') = length (al_handles l)" "\<And>k. e \<noteq> EvOpened k"
    and "length (al_handles l) \<le> h \<Longrightarrow> received_body h e = []"
    and "h < length (al_handles l) \<Longrightarrow>
      received_body h e @ sh_items (al_handles l' ! h) = sh_items (al_handles l ! h) @ d \<and>
      (d = [] \<or> registered l h \<and> d = read_body (word_of_nat (Suc h)) e) \<and>
      (registered l' h \<longrightarrow> registered l h \<and> d = read_body (word_of_nat (Suc h)) e)"
  shows "handle_ok (log @ [e]) l' h"
proof (cases "h < length (al_handles l)")
  case True
  let ?q = "received h log @ sh_items (al_handles l ! h)" and ?b = "read_body (word_of_nat (Suc h)) e"
  have ok: "EvOpened h \<in> set log" "prefix ?q (agent_sent h log)" "registered l h \<longrightarrow> ?q = agent_sent h log"
    using assms(1) True by (simp_all add: handle_ok_def)
  have q: "received h (log @ [e]) @ sh_items (al_handles l' ! h) = ?q @ d" using assms(5) True by simp
  have sent: "agent_sent h (log @ [e]) = agent_sent h log @ ?b" using ok(1) by (simp add: agent_sent_snoc)
  have "d = [] \<or> ?q = agent_sent h log \<and> d = ?b" using assms(5) [OF True] ok(3) by blast
  then have "prefix (?q @ d) (agent_sent h log @ ?b)"
    using prefix_prefix [OF ok(2), of ?b] by (elim disjE conjE) simp_all
  moreover have "registered l' h \<longrightarrow> ?q @ d = agent_sent h log @ ?b"
    using assms(5) [OF True] ok(3) by auto
  ultimately show ?thesis using True assms(2) ok(1) unfolding handle_ok_def q sent by simp
next
  case False
  with assms(1-4) show ?thesis by (auto simp: handle_ok_def)
qed

lemma stream_no_inj:
  "k < 2 ^ 32 - 1 \<Longrightarrow> h < 2 ^ 32 - 1 \<Longrightarrow> word_of_nat (Suc k) = (word_of_nat (Suc h) :: u32) \<longleftrightarrow> k = h"
  by (simp add: word_of_nat_eq_iff take_bit_nat_eq_self del: of_nat_Suc)

lemma handle_open:
  assumes "handle_ok log l h" and l': "l' = l\<lparr>al_next_stream_id := i,
    al_handles := al_handles l @ [\<lparr>sh_id = sid, sh_items = [], sh_reading = True\<rparr>],
    al_streams := hm_insert sid (length (al_handles l)) (al_streams l)\<rparr>"
  shows "handle_ok (log @ [EvOpened (length (al_handles l))]) l' h"
proof (cases "h = length (al_handles l)")
  case True
  then show ?thesis using assms(1) by (simp add: handle_ok_def agent_sent_snoc l')
next
  case False
  then show ?thesis using assms(1)
    by (auto simp: handle_ok_def agent_sent_snoc l' nth_append simp del: of_nat_Suc split: if_splits)
qed

lemma handle_deliver:
  assumes "handle_ok log l h" "streams_ok l" "length (al_handles l) < 2 ^ 32"
  shows "handle_ok (log @ [EvRead f]) (deliver_body (fstream f) (fbody f) l) h"
proof (cases "hm_get (al_streams l) (fstream f)")
  case None
  then show ?thesis using assms(1) by (intro handle_step [where d = "[]"]) (auto simp: deliver_body_def)
next
  case (Some k)
  then have k: "k < length (al_handles l)" "fstream f = word_of_nat (Suc k)" using assms(2) by (auto simp: streams_ok_def)
  let ?c = "al_handles l ! k"
  have inj: "word_of_nat (Suc h) \<noteq> fstream f" if "h < length (al_handles l)" "h \<noteq> k"
    using that k assms(3) stream_no_inj [of h k] by (simp del: of_nat_Suc)
  show ?thesis
  proof (cases "sh_reading ?c \<and> length (sh_items ?c) < STREAM_CHAN_CAP")
    case True
    then have del: "deliver_body (fstream f) (fbody f) l =
        l\<lparr>al_handles := (al_handles l)[k := ?c\<lparr>sh_items := sh_items ?c @ [fbody f]\<rparr>]\<rparr>"
      using Some by (simp add: deliver_body_def Let_def)
    show ?thesis
    proof (cases "h = k")
      case True
      with assms(1) Some k show ?thesis unfolding del
        by (intro handle_step [where d = "[fbody f]"]) (simp_all del: of_nat_Suc)
    next
      case False
      with assms(1) inj k(1) show ?thesis unfolding del
        by (intro handle_step [where d = "[]"]) (auto simp del: of_nat_Suc)
    qed
  next
    case False
    then have "deliver_body (fstream f) (fbody f) l = l\<lparr>al_streams := hm_remove (fstream f) (al_streams l)\<rparr>"
      unfolding deliver_body_def Let_def Some by (simp only: option.case if_False)
    with assms(1) inj k show ?thesis
      by (cases "h = k") (auto intro!: handle_step [where d = "[]"] simp del: of_nat_Suc)
  qed
qed

lemma order_run:
  assumes "link_run n log l" "length (al_handles l) < 2 ^ 32"
  shows "handle_ok log l h"
  using assms
proof (induction rule: link_run.induct)
  case run_init
  then show ?case by (simp add: handle_ok_def agent_link_new_def received_def)
next
  case (run_open log l k l')
  have "length (al_handles l') = Suc (length (al_handles l))" 
    using run_open.hyps(2) by (auto simp: open_stream_def Let_def split: prod.splits)
  with run_open.prems have bound: "Suc (length (al_handles l)) < 2 ^ 32" by simp
  then have "al_next_stream_id l \<noteq> 0"
    using streams_ok_run [OF run_open.hyps(1)]
    by (simp add: streams_ok_def word_of_nat_eq_0_iff nat_dvd_not_less del: of_nat_Suc)
  with run_open.hyps(2) handle_open [OF run_open.IH] bound show ?case by (auto simp: open_stream_eq)
next
  case (run_send log l k b sent l')
  then show ?case using sink_send_fields(1,2) [of k b l] by (intro handle_step [where d = "[]"]) auto
next
  case (run_recv log l k r l')
  from run_recv(3) show ?case
  proof (cases rule: source_recv_cases)
    case (took b bs)
    with run_recv show ?thesis by (cases "k = h") (auto intro!: handle_step [where d = "[]"])
  next
    case ended
    with run_recv show ?thesis by (intro handle_step [where d = "[]"]) auto
  qed
next
  case (run_drop log l k)
  then show ?case by (intro handle_step [where d = "[]"]) (auto simp: drop_handle_def nth_list_update)
next
  case (run_guard log l k)
  then show ?case by (intro handle_step [where d = "[]"]) auto
next
  case (run_call log l build call l')
  then show ?case using rpc_start_fields(1,2) [of build l] by (intro handle_step [where d = "[]"]) auto
next
  case (run_finish log l call dropped r l')
  then show ?case using rpc_finish_fields [OF run_finish(3)] by (intro handle_step [where d = "[]" and l = l]) auto
next
  case (run_read log l f k l')
  let ?l = "l\<lparr>al_bytes_in := al_bytes_in l + k, al_frames_in := al_frames_in l + 1\<rparr>"
  have d: "hub_dispatch f ?l = Inr l'" using run_read(2) by (simp add: reader_turn_Read)
  then have len: "length (al_handles l') = length (al_handles l)" by (cases rule: hub_dispatch_cases) simp_all
  have nz: "word_of_nat (Suc h) \<noteq> (0 :: u32)" if "h < length (al_handles l)"
    using that run_read.prems len by (simp add: word_of_nat_eq_0_iff nat_dvd_not_less del: of_nat_Suc)
  have bound: "length (al_handles l) < 2 ^ 32" using run_read.prems len by simp
  have ok: "handle_ok log ?l h" using run_read.IH [OF bound] unfolding handle_ok_def by simp
  have ok2: "streams_ok ?l" using streams_ok_run [OF run_read(1) bound] by (subst streams_ok_cong [of _ l]) simp_all
  from d show ?case
  proof (cases rule: hub_dispatch_cases)
    case other
    with ok nz show ?thesis by (intro handle_step [where d = "[]" and l = ?l]) (auto simp del: of_nat_Suc)
  next
    case (answered rid)
    with ok nz show ?thesis by (intro handle_step [where d = "[]" and l = ?l]) (auto simp del: of_nat_Suc)
  next
    case delivered
    with handle_deliver [OF ok ok2, of f] bound show ?thesis by simp
  qed
qed

lemma calls_ok_cong:
  "al_pending_rpcs l' = al_pending_rpcs l \<Longrightarrow> al_replies l' = al_replies l \<Longrightarrow> al_calls l' = al_calls l \<Longrightarrow>
     al_next_request_id l' = al_next_request_id l \<Longrightarrow> calls_ok l' \<longleftrightarrow> calls_ok l"
  by (simp add: calls_ok_def)

lemma calls_ok_remove: "calls_ok l \<Longrightarrow> calls_ok (l\<lparr>al_pending_rpcs := hm_remove rid (al_pending_rpcs l)\<rparr>)"
  by (auto simp: calls_ok_def)

lemma calls_ok_start:
  assumes "calls_ok l"
  shows "calls_ok (snd (rpc_start build l))"
proof -
  let ?l = "l\<lparr>al_next_request_id := al_next_request_id l + 1, al_calls := al_calls l + 1,
                al_pending_rpcs := hm_insert (al_next_request_id l) (al_calls l) (al_pending_rpcs l)\<rparr>"
  have none: "hm_get (al_replies l) (al_calls l) = None"
    using assms by (cases "hm_get (al_replies l) (al_calls l)") (auto simp: calls_ok_def)
  have "calls_ok ?l" using assms none by (auto simp: calls_ok_def less_Suc_eq add.commute)
  then have "calls_ok (snd (send_frame f ?l))" for f by (subst calls_ok_cong [of _ ?l]) simp_all
  from this [of "build (al_next_request_id l)"] show ?thesis
    by (auto simp: rpc_start_def Let_def calls_ok_remove split: prod.splits bool.splits)
qed

lemma calls_ok_answer:
  assumes "calls_ok l" "request_of b = Some rid"
  shows "calls_ok (answer_rpc rid b l)"
  using assms by (auto simp: calls_ok_def answer_rpc_def split: option.splits) metis

lemma calls_ok_run: "link_run n log l \<Longrightarrow> calls_ok l"
proof (induction rule: link_run.induct)
  case run_init
  then show ?case by (simp add: calls_ok_def agent_link_new_def)
next
  case (run_open log l h l')
  then show ?case by (auto simp: open_stream_def Let_def calls_ok_def split: prod.splits)
next
  case (run_send log l h b sent l')
  then show ?case using sink_send_fields [of h b l] by (simp add: calls_ok_cong [of l' l])
next
  case (run_recv log l h r l')
  from run_recv(3) show ?case by (cases rule: source_recv_cases) (use run_recv in \<open>simp_all add: calls_ok_def\<close>)
next
  case (run_drop log l h)
  then show ?case by (simp add: drop_handle_def calls_ok_def)
next
  case (run_guard log l h)
  then show ?case by (simp add: calls_ok_cong [of "guard_task h l" l])
next
  case (run_call log l build call l')
  then show ?case using calls_ok_start [of l build] by simp
next
  case (run_finish log l call dropped r l')
  then show ?case by (auto simp: rpc_finish_def calls_ok_remove split: option.splits)
next
  case (run_read log l f k l')
  let ?l = "l\<lparr>al_bytes_in := al_bytes_in l + k, al_frames_in := al_frames_in l + 1\<rparr>"
  have ok: "calls_ok ?l" using run_read.IH by (subst calls_ok_cong [of _ l]) simp_all
  have "hub_dispatch f ?l = Inr l'" using run_read(2) by (simp add: reader_turn_Read)
  then show ?case
  proof (cases rule: hub_dispatch_cases)
    case other
    with ok show ?thesis by (subst calls_ok_cong [of _ ?l]) simp_all
  next
    case (answered rid)
    with ok show ?thesis by (simp add: calls_ok_answer)
  next
    case delivered
    with ok show ?thesis by (simp add: deliver_body_def Let_def calls_ok_def split: option.splits)
  qed
qed

text \<open>An answer is a frame the agent sent, and a call keeps the first one it gets.\<close>

definition answers_ok :: "link_event list \<Rightarrow> agent_link \<Rightarrow> bool" where
  "answers_ok log l \<longleftrightarrow>
     (\<forall>call b. hm_get (al_replies l) call = Some b \<longrightarrow> EvRead \<lparr>fstream = 0, fbody = b\<rparr> \<in> set log) \<and>
     (\<forall>call b. EvFinished call (Inr b) \<in> set log \<longrightarrow> hm_get (al_replies l) call = Some b)"

lemma answers_quiet:
  "answers_ok log l \<Longrightarrow> al_replies l' = al_replies l \<Longrightarrow>
     (\<And>call b. e = EvFinished call (Inr b) \<Longrightarrow> hm_get (al_replies l) call = Some b) \<Longrightarrow> answers_ok (log @ [e]) l'"
  by (auto simp: answers_ok_def)

lemma answers_answered:
  assumes "answers_ok log l" "calls_ok l" "fstream f = 0"
  shows "answers_ok (log @ [EvRead f]) (answer_rpc rid (fbody f) l)"
proof -
  have f: "f = \<lparr>fstream = 0, fbody = fbody f\<rparr>" using assms(3) by (cases f) simp
  show ?thesis
  proof (cases "hm_get (al_pending_rpcs l) rid")
    case None
    with assms(1) show ?thesis by (intro answers_quiet [of log l]) (simp_all add: answer_rpc_def)
  next
    case (Some call)
    with assms(2) have "hm_get (al_replies l) call = None" by (simp add: calls_ok_def)
    with assms(1) Some f show ?thesis by (auto simp: answers_ok_def answer_rpc_def)
  qed
qed

lemma answers_run: "link_run n log l \<Longrightarrow> answers_ok log l"
proof (induction rule: link_run.induct)
  case (run_read log l f k l')
  let ?l = "l\<lparr>al_bytes_in := al_bytes_in l + k, al_frames_in := al_frames_in l + 1\<rparr>"
  have ok: "answers_ok log ?l" "calls_ok ?l"
    using run_read.IH calls_ok_run [OF run_read(1)] by (simp_all add: answers_ok_def calls_ok_def)
  have "hub_dispatch f ?l = Inr l'" using run_read(2) by (simp add: reader_turn_Read)
  then show ?case
  proof (cases rule: hub_dispatch_cases)
    case other
    with ok(1) show ?thesis by (auto intro!: answers_quiet [of log ?l])
  next
    case (answered rid)
    with answers_answered [OF ok answered(3)] show ?thesis by simp
  next
    case delivered
    with ok(1) show ?thesis
      by (intro answers_quiet [of log ?l]) (simp_all add: deliver_body_def Let_def split: option.splits)
  qed
next
  case (run_recv log l h r l')
  from run_recv(3) show ?case
    by (cases rule: source_recv_cases) (use run_recv in \<open>auto intro!: answers_quiet [of log l]\<close>)
next
  case (run_send log l h b sent l')
  then show ?case using sink_send_fields(5) [of h b l] by (auto intro!: answers_quiet [of log l])
next
  case (run_call log l build call l')
  then show ?case using rpc_start_fields(4) [of build l] by (auto intro!: answers_quiet [of log l])
next
  case (run_finish log l call dropped r l')
  then show ?case using rpc_finish_fields(4) [OF run_finish(3)]
    by (intro answers_quiet [of log l]) (auto simp: rpc_finish_def split: option.splits)
qed (auto intro!: answers_quiet simp: open_stream_def drop_handle_def Let_def split: prod.splits,
    simp add: answers_ok_def agent_link_new_def)

section \<open>Properties\<close>

lemma stream_to_ws_eq: "be32 0 @ drop 4 (encode \<lparr>fstream = sid, fbody = b\<rparr>) = stream_to_ws b"
  by (simp add: stream_to_ws_def encode_fields)

lemma ws_to_stream_wire [simp]:
  "wf_frame \<lparr>fstream = sid, fbody = b\<rparr> \<Longrightarrow> ws_to_stream sid (WsBinary (stream_to_ws b)) = ProxyForward b"
  by (simp add: ws_to_stream_iff stream_to_ws_eq)

text \<open>
  C9. A browser cannot address anything but its own stream: the proxy forwards a body exactly when the
  message is the encoding, under stream id zero, of a frame that is well formed on the browser's own
  stream, and the bytes the agent then reads decode to exactly that body on that stream. Every other
  message sends nothing.
\<close>

theorem browser_confined_to_stream:
  "ws_to_stream sid msg = ProxyForward b \<longleftrightarrow>
     msg = WsBinary (stream_to_ws b) \<and> wire_frame (encode \<lparr>fstream = sid, fbody = b\<rparr>) = Some \<lparr>fstream = sid, fbody = b\<rparr>"
proof (cases msg)
  case (WsBinary d)
  then show ?thesis using ws_to_stream_iff [of sid d b] by (auto simp: stream_to_ws_eq wire_frame_iff)
qed (simp_all add: ws_to_stream_def)

definition agent_stream_holds :: "link \<Rightarrow> stream_id \<Rightarrow> body list \<Rightarrow> bool" where
  "agent_stream_holds la sid bodies \<longleftrightarrow>
     (\<exists>c. hm_get (lk_streams la) sid = Some c \<and>
        sc_hi (lk_chans la ! c) = filter (\<lambda>b. \<not> half_lo b) bodies \<and> sc_lo (lk_chans la ! c) = filter half_lo bodies)"

lemma inputs_stream [simp]: "inputs sid (map (\<lambda>b. \<lparr>fstream = sid, fbody = b\<rparr>) bs) = bs"
  by (simp add: inputs_def comp_def filter_map)

lemma half_lo_open [simp]: "\<not> half_lo (BOpen i geom)" "half_lo b \<Longrightarrow> \<not> is_open b"
  by (auto simp: half_lo_def split: body.splits)

lemma rpc_start_ok:
  assumes "wf_frame (build (al_next_request_id l))" "tx_open (al_writer l)"
  shows "fst (rpc_start build l) = Some (al_calls l)"
    and "al_pending_rpcs (snd (rpc_start build l)) = hm_insert (al_next_request_id l) (al_calls l) (al_pending_rpcs l)"
proof -
  let ?l = "l\<lparr>al_next_request_id := al_next_request_id l + 1, al_calls := al_calls l + 1,
                al_pending_rpcs := hm_insert (al_next_request_id l) (al_calls l) (al_pending_rpcs l)\<rparr>"
  obtain l' where l': "send_frame (build (al_next_request_id l)) ?l = (True, l')"
    using send_frame_wf(1) [OF assms(1), of ?l] assms(2) by (cases "send_frame (build (al_next_request_id l)) ?l") simp
  then show "fst (rpc_start build l) = Some (al_calls l)"
    and "al_pending_rpcs (snd (rpc_start build l)) = hm_insert (al_next_request_id l) (al_calls l) (al_pending_rpcs l)"
    using send_frame_fields(4) [of "build (al_next_request_id l)" ?l] by (simp_all add: rpc_start_def Let_def)
qed

text \<open>A link on which a browser opens the first stream and reads a line of output, and one kill is answered.\<close>

definition demo_kill_ack :: body where "demo_kill_ack = BKillSessionAck 1 KILL_STATUS_OK"

definition demo_events :: "link_event list" where
  "demo_events = [EvOpened 0, EvRead (frame_data 1 [7]), EvReceived 0 (Some (BData [7])), EvRead (frame_data 1 [8]),
     EvCalled (Some 0), EvRead \<lparr>fstream = 0, fbody = demo_kill_ack\<rparr>, EvFinished 0 (Inr demo_kill_ack)]"

lemma demo_run: "\<exists>l. link_run 9 demo_events l \<and> al_handles l = [\<lparr>sh_id = 1, sh_items = [BData [8]], sh_reading = True\<rparr>] \<and>
    hm_get (al_streams l) 1 = Some 0 \<and> al_calls l = 1"
proof -
  let ?ack = "\<lparr>fstream = 0, fbody = demo_kill_ack\<rparr>"
  let ?l1 = "snd (open_stream (agent_link_new 9))"
  let ?read = "\<lambda>f l. snd (reader_turn (ReadFrame f 10) l)"
  let ?l2 = "?read (frame_data 1 [7]) ?l1"
  let ?l3 = "snd (source_recv 0 ?l2)"
  let ?l4 = "?read (frame_data 1 [8]) ?l3"
  let ?l5 = "snd (rpc_start (\<lambda>rid. frame_kill_session rid [0x61]) ?l4)"
  let ?l6 = "?read ?ack ?l5"
  note defs = open_stream_eq agent_link_new_def reader_turn_def hub_dispatch_def deliver_body_def source_recv_def
    rpc_start_def answer_rpc_def rpc_finish_def demo_kill_ack_def STREAM_CHAN_CAP_def frame_data_def Let_def
  have 1: "link_run 9 [EvOpened 0] ?l1"
    using run_open [OF run_init, of 9 0 ?l1] by (simp add: defs)
  have 2: "link_run 9 [EvOpened 0, EvRead (frame_data 1 [7])] ?l2"
    using run_read [OF 1, of "frame_data 1 [7]" 10 ?l2] by (simp add: defs)
  have 3: "link_run 9 (take 3 demo_events) ?l3"
    using run_recv [OF 2, of 0 "Some (BData [7])" ?l3] by (simp add: defs demo_events_def)
  have 4: "link_run 9 (take 4 demo_events) ?l4"
    using run_read [OF 3, of "frame_data 1 [8]" 10 ?l4] by (simp add: defs demo_events_def)
  have "wf_frame (frame_kill_session 1 [0x61])"
    by (simp add: frame_kill_session_def wf_frame_def is_valid_session_id_def is_ascii_alphanumeric_def Let_def CONTROL_STREAM_def)
  moreover have l4: "al_next_request_id ?l4 = 1" "tx_open (al_writer ?l4)" "al_calls ?l4 = 0" "al_pending_rpcs ?l4 = []"
    "al_handles ?l4 = [\<lparr>sh_id = 1, sh_items = [BData [8]], sh_reading = True\<rparr>]" "al_streams ?l4 = [(1, 0)]"
    "al_replies ?l4 = []" by (simp_all add: defs)
  ultimately have l5: "rpc_start (\<lambda>rid. frame_kill_session rid [0x61]) ?l4 = (Some 0, ?l5)" "al_pending_rpcs ?l5 = [(1, 0)]"
    using rpc_start_ok [of "\<lambda>rid. frame_kill_session rid [0x61]" ?l4] unfolding l4 by (simp_all add: prod_eq_iff)
  have l5': "al_handles ?l5 = [\<lparr>sh_id = 1, sh_items = [BData [8]], sh_reading = True\<rparr>]" "al_streams ?l5 = [(1, 0)]"
    "al_calls ?l5 = 1" "al_replies ?l5 = []"
    unfolding rpc_start_fields l4 by simp_all
  have 5: "link_run 9 (take 5 demo_events) ?l5"
    using run_call [OF 4 l5(1)] by (simp add: demo_events_def)
  have l6: "reader_turn (ReadFrame ?ack 10) ?l5 = (None, ?l6)" "al_replies ?l6 = [(0, demo_kill_ack)]"
    "al_handles ?l6 = al_handles ?l5" "al_streams ?l6 = al_streams ?l5" "al_calls ?l6 = 1"
    using l5(2) l5'(3,4) by (simp_all add: reader_turn_def hub_dispatch_def answer_rpc_def demo_kill_ack_def Let_def)
  have 6: "link_run 9 (take 6 demo_events) ?l6"
    using run_read [OF 5 l6(1)] by (simp add: demo_events_def)
  have "link_run 9 demo_events ?l6"
    using run_finish [OF 6, of 0 False "Inr demo_kill_ack" ?l6] l6 by (simp add: rpc_finish_def demo_events_def)
  with l5' l6(3-5) show ?thesis by auto
qed

text \<open>
  One slow or departed browser harms no one else: a frame on a data stream never ends the link; it
  changes no other stream, no pending request and nothing on the writer. Its own stream gets the body
  when there is room, and is reset, with nothing queued, when there is not.
\<close>

theorem hub_streams_isolated:
  assumes "streams_ok l" "fstream f \<noteq> 0"
  shows "\<exists>l'. hub_dispatch f l = Inr l' \<and> al_writer l' = al_writer l \<and> al_pending_rpcs l' = al_pending_rpcs l \<and>
    (\<forall>sid. sid \<noteq> fstream f \<longrightarrow> hm_get (al_streams l') sid = hm_get (al_streams l) sid) \<and>
    (\<forall>h. hm_get (al_streams l) (fstream f) \<noteq> Some h \<longrightarrow> al_handles l' ! h = al_handles l ! h) \<and>
    (\<forall>h. hm_get (al_streams l) (fstream f) = Some h \<longrightarrow>
       (if sh_reading (al_handles l ! h) \<and> length (sh_items (al_handles l ! h)) < STREAM_CHAN_CAP
        then sh_items (al_handles l' ! h) = sh_items (al_handles l ! h) @ [fbody f] \<and> hm_get (al_streams l') (fstream f) = Some h
        else al_handles l' ! h = al_handles l ! h \<and> hm_get (al_streams l') (fstream f) = None))"
proof -
  have "h < length (al_handles l)" if "hm_get (al_streams l) (fstream f) = Some h" for h
    using assms(1) that by (simp add: streams_ok_def)
  with assms(2) show ?thesis by (auto simp: hub_dispatch_def deliver_body_def Let_def split: option.splits)
qed

theorem hub_streams_isolated_witness:
  "\<exists>l l'. hub_dispatch (frame_data 1 [9]) l = Inr l' \<and> sh_items (al_handles l' ! 0) = [BData [8], BData [9]]"
proof -
  obtain l where l: "link_run 9 demo_events l" "al_handles l = [\<lparr>sh_id = 1, sh_items = [BData [8]], sh_reading = True\<rparr>]"
    "hm_get (al_streams l) 1 = Some 0" using demo_run by blast
  with hub_streams_isolated [OF streams_ok_run [OF l(1)], of "frame_data 1 [9]"] show ?thesis
    by (auto simp: frame_data_def STREAM_CHAN_CAP_def)
qed

text \<open>
  C11. A browser sees its terminal's output in order: what it received so far, followed by what waits in
  its queue, is a prefix of what the agent sent to its stream since it was opened; while the stream is
  registered nothing is missing, and the queue never holds more than 64 bodies.
\<close>

theorem browser_output_in_order:
  assumes "link_run n log l" "length (al_handles l) < 2 ^ 32" "h < length (al_handles l)"
  shows "prefix (received h log @ sh_items (al_handles l ! h)) (agent_sent h log) \<and>
    (registered l h \<longrightarrow> received h log @ sh_items (al_handles l ! h) = agent_sent h log) \<and>
    length (sh_items (al_handles l ! h)) \<le> 64"
proof -
  have "length (sh_items (al_handles l ! h)) \<le> 64"
    using streams_ok_run [OF assms(1,2)] assms(3) by (simp add: streams_ok_def STREAM_CHAN_CAP_def)
  with order_run [OF assms(1,2), of h] show ?thesis unfolding handle_ok_def if_P [OF assms(3)] by blast
qed

theorem browser_output_in_order_witness:
  "\<exists>l. link_run 9 demo_events l \<and> received 0 demo_events @ sh_items (al_handles l ! 0) = [BData [7], BData [8]] \<and>
     agent_sent 0 demo_events = [BData [7], BData [8]]"
proof -
  obtain l where l: "link_run 9 demo_events l" "al_handles l = [\<lparr>sh_id = 1, sh_items = [BData [8]], sh_reading = True\<rparr>]"
    "hm_get (al_streams l) 1 = Some 0" using demo_run by blast
  have "received 0 demo_events = [BData [7]]" by (simp add: received_def demo_events_def)
  with browser_output_in_order [OF l(1), of 0] l show ?thesis by (intro exI [of _ l]) simp
qed

text \<open>
  Stream ids are never zero and never shared: allocation always ends, and the ids of the streams a
  link opened, fewer than \<open>2 ^ 32\<close> of them, are pairwise distinct.
\<close>

theorem stream_ids_distinct:
  assumes "link_run n log l" "length (al_handles l) < 2 ^ 32"
  shows "distinct (map sh_id (al_handles l)) \<and> 0 \<notin> set (map sh_id (al_handles l))"
proof -
  have ids: "sh_id (al_handles l ! h) = word_of_nat (Suc h)" if "h < length (al_handles l)" for h
    using streams_ok_run [OF assms] that by (simp add: streams_ok_def)
  show ?thesis
    using assms(2) stream_no_inj
    by (auto simp: distinct_conv_nth in_set_conv_nth ids word_of_nat_eq_0_iff nat_dvd_not_less simp del: of_nat_Suc)
qed

theorem stream_ids_distinct_witness:
  "\<exists>l. link_run 9 demo_events l \<and> map sh_id (al_handles l) = [1] \<and> distinct (map sh_id (al_handles l))"
proof -
  obtain l where l: "link_run 9 demo_events l" "al_handles l = [\<lparr>sh_id = 1, sh_items = [BData [8]], sh_reading = True\<rparr>]"
    using demo_run by blast
  with stream_ids_distinct [OF l(1)] show ?thesis by (intro exI [of _ l]) simp
qed

text \<open>
  C37. An answer belongs to its call: the body a request returns was sent by the agent on the control
  stream and carries the request id of that very call, a call has at most one answer, and two calls,
  fewer than \<open>2 ^ 32\<close> apart in number, never share one.
\<close>

theorem rpc_answers_match:
  assumes "link_run n log l" "EvFinished call (Inr b) \<in> set log"
  shows "EvRead \<lparr>fstream = 0, fbody = b\<rparr> \<in> set log \<and> request_of b = Some (word_of_nat (Suc call)) \<and>
    (\<forall>b'. EvFinished call (Inr b') \<in> set log \<longrightarrow> b' = b) \<and>
    (\<forall>call'. EvFinished call' (Inr b) \<in> set log \<and> al_calls l < 2 ^ 32 \<longrightarrow> call' = call)"
proof -
  have a: "hm_get (al_replies l) k = Some b" if "EvFinished k (Inr b) \<in> set log" for k b
    using answers_run [OF assms(1)] that by (simp add: answers_ok_def)
  have r: "EvRead \<lparr>fstream = 0, fbody = b\<rparr> \<in> set log" using answers_run [OF assms(1)] a [OF assms(2)]
    unfolding answers_ok_def by blast
  have c: "k < al_calls l \<and> request_of b = Some (word_of_nat (Suc k))" if "hm_get (al_replies l) k = Some b" for k b
    using calls_ok_run [OF assms(1)] that by (simp add: calls_ok_def)
  have "call' = call" if "EvFinished call' (Inr b) \<in> set log" "al_calls l < 2 ^ 32" for call'
    using c [OF a [OF assms(2)]] c [OF a [OF that(1)]] that(2) stream_no_inj [of call' call] by (simp del: of_nat_Suc)
  moreover have "b' = b" if "EvFinished call (Inr b') \<in> set log" for b' using a [OF that] a [OF assms(2)] by simp
  ultimately show ?thesis using r c [OF a [OF assms(2)]] by blast
qed

theorem rpc_answers_match_witness:
  "EvRead \<lparr>fstream = 0, fbody = demo_kill_ack\<rparr> \<in> set demo_events \<and> request_of demo_kill_ack = Some 1"
proof -
  obtain l where l: "link_run 9 demo_events l" using demo_run by blast
  have "EvFinished 0 (Inr demo_kill_ack) \<in> set demo_events" by (simp add: demo_events_def)
  from rpc_answers_match [OF l this] show ?thesis by simp
qed

text \<open>
  A reconnecting agent is not unregistered by the end of its older connection, and loses nothing of its
  own link; only the connection that serves the machine removes it.
\<close>

lemma newer_connection_survives:
  assumes "link_accept parse m first hl = Inr (conn, old, hl')" "conn' < length (hl_links hl)"
  shows "hm_get (hl_agents (link_teardown m conn' hl')) m = Some conn"
    and "hl_links (link_teardown m conn' hl') ! conn = hl_links hl' ! conn"
    and "hm_get (hl_agents (link_teardown m conn hl')) m = None"
  using assms by (auto simp: link_accept_def link_teardown_def bindE_Inr_iff Let_def)

lemma kill_request_undecodable:
  assumes "\<not> is_valid_session_id (take 64 s)"
  shows "wire_frame (encode (frame_kill_session rid s)) = None"
proof (cases "wire_frame (encode (frame_kill_session rid s))")
  case (Some f)
  then have f: "wf_frame f" "encode (frame_kill_session rid s) = encode f" by (simp_all add: wire_frame_iff)
  then have ty: "ty_u8 (body_ty (fbody f)) = ty_u8 FtKillSession"
    and payload: "encode_payload (fbody f) = enc_kill_session rid s"
    by (simp_all add: encode_fields frame_kill_session_def)
  from ty have "body_ty (fbody f) = FtKillSession" by (metis from_u8_ty_u8 option.inject)
  then obtain rid' s' where b: "fbody f = BKillSession rid' s'" by (cases "fbody f") simp_all
  with f(1) have v: "is_valid_session_id s'" by (simp add: wf_frame_def)
  have "be32 rid' @ word_of_nat (length s') # s' = be32 rid @ word_of_nat (min (length s) 64) # take (min (length s) 64) s"
    using payload enc_kill_session_valid [OF v] by (simp add: b enc_kill_session_def Let_def MAX_SESSION_ID_LEN_def)
  then have "s' = take 64 s" by (simp add: min_def split: if_splits)
  with v assms show ?thesis by simp
qed



end
