(* ===== verification/Link_Writer.thy ===== *)
theory Link_Writer
  imports Hub_Link
begin

text \<open>
  The writer tasks at the two ends of an agent connection: the one \<open>run_session\<close> of \<open>agent/src/main.rs\<close> spawns,
  and the one of \<open>handle_connection\<close> in \<open>hub/src/agent_link.rs\<close>. Each takes messages from a byte-bounded priority
  channel and hands them to the transport, one at a time; the hub's also ends when its link is evicted.

  The state holds the channel, the message being handed to the transport, and what the transport has
  taken. Producers, the task, the transport and the eviction take steps in any order. This closes the gap
  between the two histories of \<open>Hub_Link\<close> and what the agent reads: the order on the wire is derived here from
  the queues.
\<close>

section \<open>The task\<close>

type_synonym byte_half = "(nat, permit_msg mpsc) bytes_chan"

record writer_task =
  wt_rx :: "(byte_half, bytes) prio_rx"
  wt_sending :: "bytes option"
  wt_wire :: "bytes list"
  wt_ended :: bool

definition writer_new :: "nat \<Rightarrow> nat \<Rightarrow> writer_task" where
  "writer_new hi_bytes lo_bytes =
     \<lparr>wt_rx = prio_channel id mpsc_new hi_bytes lo_bytes, wt_sending = None, wt_wire = [], wt_ended = False\<rparr>"

text \<open>
  A producer's \<open>send\<close> on one half. It fails once the task has dropped the receiver; where every sender is gone
  there is no producer.
\<close>

definition post_push :: "bool \<Rightarrow> permit_msg \<Rightarrow> permit_msg mpsc \<Rightarrow> permit_msg mpsc option" where
  "post_push ended x q = (if ended \<or> q_closed q then None else mpsc_push x q)"

definition writer_post :: "half \<Rightarrow> bytes \<Rightarrow> writer_task \<Rightarrow> send_result \<times> writer_task" where
  "writer_post h bs t =
     (case h of
        Hi \<Rightarrow> let (res, c) = bytes_send sem_acquire (post_push (wt_ended t)) bs (rx_hi (wt_rx t))
              in (res, t\<lparr>wt_rx := (wt_rx t)\<lparr>rx_hi := c\<rparr>\<rparr>)
      | Lo \<Rightarrow> let (res, c) = bytes_send sem_acquire (post_push (wt_ended t)) bs (rx_lo (wt_rx t))
              in (res, t\<lparr>wt_rx := (wt_rx t)\<lparr>rx_lo := c\<rparr>\<rparr>))"

text \<open>The end of the loop: the transport is closed and the receiver dropped, with the queued messages and their permits.\<close>

definition drop_half :: "byte_half \<Rightarrow> byte_half" where
  "drop_half c = c\<lparr>bc_sem := fold (\<lambda>(n, _). sem_release n) (q_items (bc_queue c)) (bc_sem c),
     bc_queue := (bc_queue c)\<lparr>q_items := []\<rparr>\<rparr>"

definition writer_end :: "writer_task \<Rightarrow> writer_task" where
  "writer_end t = t\<lparr>wt_ended := True, wt_sending := None,
     wt_rx := (wt_rx t)\<lparr>rx_hi := drop_half (rx_hi (wt_rx t)), rx_lo := drop_half (rx_lo (wt_rx t))\<rparr>\<rparr>"

text \<open>\<open>recv\<close> of the task, when it is not busy with a message.\<close>

definition writer_take :: "writer_task \<Rightarrow> writer_task" where
  "writer_take t =
     (if wt_ended t \<or> wt_sending t \<noteq> None then t
      else (case prio_recv (bytes_recv sem_release mpsc_poll) (wt_rx t) of
              (Ready (Some bs), r) \<Rightarrow> t\<lparr>wt_rx := r, wt_sending := Some bs\<rparr>
            | (Ready None, r) \<Rightarrow> writer_end (t\<lparr>wt_rx := r\<rparr>)
            | (Pending, r) \<Rightarrow> t\<lparr>wt_rx := r\<rparr>))"

text \<open>The transport's answer to the message in hand.\<close>

definition writer_written :: "bool \<Rightarrow> writer_task \<Rightarrow> writer_task" where
  "writer_written ok t =
     (case wt_sending t of
        None \<Rightarrow> t
      | Some bs \<Rightarrow> if ok then t\<lparr>wt_sending := None, wt_wire := wt_wire t @ [bs]\<rparr> else writer_end t)"

text \<open>
  \<open>notify_waiters\<close> stores nothing: it reaches the task only while it waits in its \<open>select!\<close>. A task that is busy
  with a message drops the future that was notified, and waits on a new one afterwards.
\<close>

definition writer_notified :: "writer_task \<Rightarrow> writer_task" where
  "writer_notified t = (if wt_ended t \<or> wt_sending t \<noteq> None then t else writer_end t)"

definition senders_dropped :: "writer_task \<Rightarrow> writer_task" where
  "senders_dropped t =
     t\<lparr>wt_rx := (wt_rx t)\<lparr>rx_hi := (rx_hi (wt_rx t))\<lparr>bc_queue := (bc_queue (rx_hi (wt_rx t)))\<lparr>q_closed := True\<rparr>\<rparr>,
                          rx_lo := (rx_lo (wt_rx t))\<lparr>bc_queue := (bc_queue (rx_lo (wt_rx t)))\<lparr>q_closed := True\<rparr>\<rparr>\<rparr>\<rparr>"

text \<open>The agent's task is never notified; the hub's holds a sender itself, through its link, and never sees them gone.\<close>

datatype writer_ev = Post half bytes | Take | Written bool | Notify | SendersGone

fun writer_step :: "writer_ev \<Rightarrow> writer_task \<Rightarrow> writer_task" where
  "writer_step (Post h bs) t = snd (writer_post h bs t)"
| "writer_step Take t = writer_take t"
| "writer_step (Written ok) t = writer_written ok t"
| "writer_step Notify t = writer_notified t"
| "writer_step SendersGone t = senders_dropped t"

text \<open>The messages the channel has accepted in a run, with their halves.\<close>

fun accepted :: "writer_ev list \<Rightarrow> writer_task \<Rightarrow> (half \<times> bytes) list" where
  "accepted [] t = []"
| "accepted (Post h bs # es) t =
     (if fst (writer_post h bs t) = Sent then [(h, bs)] else []) @ accepted es (writer_step (Post h bs) t)"
| "accepted (e # es) t = accepted es (writer_step e t)"

definition writer_drained :: "writer_task \<Rightarrow> bool" where
  "writer_drained t \<longleftrightarrow> \<not> wt_ended t \<and> wt_sending t = None \<and>
     q_items (bc_queue (rx_hi (wt_rx t))) = [] \<and> q_items (bc_queue (rx_lo (wt_rx t))) = []"

section \<open>The order on the wire\<close>

abbreviation on_half :: "half \<Rightarrow> (half \<times> bytes) list \<Rightarrow> (half \<times> bytes) list" where
  "on_half h \<equiv> filter (\<lambda>m. fst m = h)"

text \<open>
  \<open>A\<close> is what was accepted and \<open>W\<close> what was taken, in order: the taken messages are those on the wire and the one in
  hand, and each half of \<open>A\<close> is that half of \<open>W\<close> followed by its queue.
\<close>

definition writer_inv :: "(half \<times> bytes) list \<Rightarrow> (half \<times> bytes) list \<Rightarrow> writer_task \<Rightarrow> bool" where
  "writer_inv A W t \<longleftrightarrow> budget.bounded.rx_ok (wt_rx t) \<and> \<not> wt_ended t \<and>
     map snd W = wt_wire t @ (case wt_sending t of None \<Rightarrow> [] | Some b \<Rightarrow> [b]) \<and>
     on_half Hi A = on_half Hi W @ map (Pair Hi) (budget.queued (rx_hi (wt_rx t))) \<and>
     on_half Lo A = on_half Lo W @ map (Pair Lo) (budget.queued (rx_lo (wt_rx t)))"

lemma bytes_send_half:
  assumes "bytes_send sem_acquire (post_push e) bs c = (res, c')"
  shows "budget.queued c' = budget.queued c @ (if res = Sent then [bs] else [])"
    and "q_closed (bc_queue c') = q_closed (bc_queue c)"
    and "q_closed (bc_queue c) \<or> e \<Longrightarrow> budget.queued c' = budget.queued c"
  using assms
  by (auto simp: bytes_send_def Let_def post_push_def mpsc_push_def sem_acquire_def budget.queued_def
      split: if_splits)

lemma post_inv:
  assumes "writer_inv A W t" "writer_post h bs t = (res, t')"
  shows "writer_inv (A @ (if res = Sent then [(h, bs)] else [])) W t'"
proof (cases h)
  case Hi
  obtain c where c: "bytes_send sem_acquire (post_push (wt_ended t)) bs (rx_hi (wt_rx t)) = (res, c)"
    "t' = t\<lparr>wt_rx := (wt_rx t)\<lparr>rx_hi := c\<rparr>\<rparr>"
    using assms(2) Hi by (auto simp: writer_post_def split: prod.splits)
  from bytes_send_half [OF c(1)] assms(1) Hi show ?thesis
    by (auto simp: writer_inv_def budget.bounded.rx_ok_def c(2))
next
  case Lo
  obtain c where c: "bytes_send sem_acquire (post_push (wt_ended t)) bs (rx_lo (wt_rx t)) = (res, c)"
    "t' = t\<lparr>wt_rx := (wt_rx t)\<lparr>rx_lo := c\<rparr>\<rparr>"
    using assms(2) Lo by (auto simp: writer_post_def split: prod.splits)
  from bytes_send_half [OF c(1)] assms(1) Lo show ?thesis
    by (auto simp: writer_inv_def budget.bounded.rx_ok_def c(2))
qed

text \<open>A message of the low half is taken only when every message accepted on the high half has been taken.\<close>

definition taken_next :: "(half \<times> bytes) list \<Rightarrow> (half \<times> bytes) list \<Rightarrow> (half \<times> bytes) list \<Rightarrow> bool" where
  "taken_next A W W' \<longleftrightarrow> W' = W \<or> (\<exists>b. W' = W @ [(Hi, b)]) \<or> (\<exists>b. W' = W @ [(Lo, b)] \<and> on_half Hi A = on_half Hi W)"

lemma take_inv:
  assumes "writer_inv A W t" "\<not> wt_ended (writer_take t)"
  shows "\<exists>W'. writer_inv A W' (writer_take t) \<and> taken_next A W W'"
proof (cases "wt_sending t")
  case (Some b)
  with assms(1) show ?thesis by (auto simp: writer_take_def taken_next_def)
next
  case None
  let ?hi = "budget.queued (rx_hi (wt_rx t))" and ?lo = "budget.queued (rx_lo (wt_rx t))"
  have ok: "budget.bounded.rx_ok (wt_rx t)" using assms(1) by (simp add: writer_inv_def)
  obtain r where r: "budget.bounded.rx_ok r"
    "q_closed (bc_queue (rx_hi r)) = q_closed (bc_queue (rx_hi (wt_rx t)))"
    "q_closed (bc_queue (rx_lo r)) = q_closed (bc_queue (rx_lo (wt_rx t)))"
    "budget.queued (rx_hi r) = tl ?hi" "budget.queued (rx_lo r) = (if ?hi = [] then tl ?lo else ?lo)"
    "prio_recv (bytes_recv sem_release mpsc_poll) (wt_rx t) =
       (case ?hi @ ?lo of x # _ \<Rightarrow> Ready (Some x)
        | [] \<Rightarrow> if q_closed (bc_queue (rx_hi (wt_rx t))) \<and> q_closed (bc_queue (rx_lo (wt_rx t))) then Ready None else Pending, r)"
    by (rule budget.bounded.recv_spec [OF ok])
  consider x xs where "?hi = x # xs" | y ys where "?hi = []" "?lo = y # ys" | "?hi = []" "?lo = []"
    by (cases ?hi; cases ?lo) auto
  then show ?thesis
  proof cases
    case 1
    then have "writer_take t = t\<lparr>wt_rx := r, wt_sending := Some x\<rparr>"
      using None assms(1) r(6) by (simp add: writer_take_def writer_inv_def)
    then show ?thesis using 1 None assms(1) r(1,4,5)
      by (intro exI [of _ "W @ [(Hi, x)]"]) (auto simp: writer_inv_def taken_next_def)
  next
    case 2
    then have "writer_take t = t\<lparr>wt_rx := r, wt_sending := Some y\<rparr>"
      using None assms(1) r(6) by (simp add: writer_take_def writer_inv_def)
    then show ?thesis using 2 None assms(1) r(1,4,5)
      by (intro exI [of _ "W @ [(Lo, y)]"]) (auto simp: writer_inv_def taken_next_def)
  next
    case 3
    then have "writer_take t = t\<lparr>wt_rx := r\<rparr>"
      using None assms r(6) by (auto simp: writer_take_def writer_inv_def writer_end_def split: if_splits)
    then show ?thesis using 3 assms(1) r(1,4,5)
      by (intro exI [of _ W]) (auto simp: writer_inv_def taken_next_def)
  qed
qed

lemma step_inv:
  assumes "writer_inv A W t" "\<not> wt_ended (writer_step e t)"
  shows "\<exists>W'. writer_inv (A @ accepted [e] t) W' (writer_step e t) \<and> taken_next (A @ accepted [e] t) W W'"
proof (cases e)
  case (Post h bs)
  obtain res t' where "writer_post h bs t = (res, t')" by fastforce
  with post_inv [OF assms(1) this] Post show ?thesis by (intro exI [of _ W]) (simp add: taken_next_def)
next
  case Take
  with take_inv [OF assms(1)] assms(2) show ?thesis by simp
next
  case (Written ok)
  with assms show ?thesis
    by (intro exI [of _ W]) (auto simp: writer_inv_def writer_written_def writer_end_def taken_next_def split: option.splits if_splits)
next
  case Notify
  with assms show ?thesis
    by (intro exI [of _ W]) (auto simp: writer_notified_def writer_end_def taken_next_def split: if_splits)
next
  case SendersGone
  with assms show ?thesis
    by (intro exI [of _ W])
      (auto simp: writer_inv_def senders_dropped_def taken_next_def budget.bounded.rx_ok_def budget.queued_def)
qed

lemma ended_step: "wt_ended t \<Longrightarrow> wt_sending t = None \<Longrightarrow> wt_ended (writer_step e t) \<and> wt_sending (writer_step e t) = None"
  by (cases e) (auto simp: writer_post_def writer_take_def writer_written_def writer_notified_def senders_dropped_def
      split: half.splits prod.splits)

lemma accepted_Cons: "accepted (e # es) t = accepted [e] t @ accepted es (writer_step e t)"
  by (cases e) simp_all

text \<open>
  Among the messages with a property \<open>P\<close>, such as those of one stream, of which the first accepted is on the high half,
  the first on the wire is on the high half too.
\<close>

definition starts_high :: "(half \<times> bytes \<Rightarrow> bool) \<Rightarrow> (half \<times> bytes) list \<Rightarrow> bool" where
  "starts_high P W \<longleftrightarrow> (case filter P W of [] \<Rightarrow> True | m # _ \<Rightarrow> fst m = Hi)"

lemma taken_accepted: "writer_inv A W t \<Longrightarrow> set W \<subseteq> set A"
proof
  fix m assume "writer_inv A W t" "m \<in> set W"
  then have "m \<in> set (on_half (fst m) A)" by (cases "fst m") (auto simp: writer_inv_def)
  then show "m \<in> set A" by simp
qed

lemma starts_high_next:
  assumes "starts_high P A" "starts_high P W" "taken_next A W W'" "writer_inv A W' t"
  shows "starts_high P W'"
proof -
  have "fst m = Hi" if "W' = W @ [m]" "P m" "filter P W = []" for m
  proof (rule ccontr)
    assume "fst m \<noteq> Hi"
    with that(1) assms(3) have all: "on_half Hi A = on_half Hi W" by (auto simp: taken_next_def)
    have "m \<in> set A" using that(1) taken_accepted [OF assms(4)] by auto
    with that(2) obtain x xs where x: "filter P A = x # xs" by (cases "filter P A") (auto simp: filter_empty_conv)
    with assms(1) have "fst x = Hi" by (simp add: starts_high_def)
    moreover have "x \<in> set (filter P A)" by (simp add: x)
    ultimately have "x \<in> set (on_half Hi W)" "P x" unfolding all [symmetric] by simp_all
    with that(3) show False by (auto simp: filter_empty_conv)
  qed
  then show ?thesis
    using assms(2,3) by (cases "filter P W") (auto simp: starts_high_def taken_next_def)
qed

lemma starts_high_prefix: "starts_high P (A @ B) \<Longrightarrow> starts_high P A"
  by (auto simp: starts_high_def split: list.splits)

lemma ended_run: "wt_ended t \<Longrightarrow> wt_sending t = None \<Longrightarrow> wt_ended (fold writer_step es t)"
  by (induction es arbitrary: t) (use ended_step in auto)

lemma step_ended_idle: "\<not> wt_ended t \<Longrightarrow> wt_ended (writer_step e t) \<Longrightarrow> wt_sending (writer_step e t) = None"
  by (cases e) (auto simp: writer_post_def writer_take_def writer_written_def writer_notified_def senders_dropped_def
      writer_end_def split: half.splits prod.splits option.splits poll.splits if_splits)

lemma run_inv:
  assumes "writer_inv A W t" "\<not> wt_ended (fold writer_step es t)" "starts_high P (A @ accepted es t)" "starts_high P W"
  shows "\<exists>W'. writer_inv (A @ accepted es t) W' (fold writer_step es t) \<and> starts_high P W'"
  using assms
proof (induction es arbitrary: A W t)
  case (Cons e es)
  let ?t = "writer_step e t" and ?A = "A @ accepted [e] t"
  have A: "A @ accepted (e # es) t = ?A @ accepted es ?t" by (subst accepted_Cons) simp
  have "\<not> wt_ended ?t"
    using Cons.prems(1,2) step_ended_idle [of t e] ended_run [of ?t es] by (auto simp: writer_inv_def)
  then obtain W1 where W1: "writer_inv ?A W1 ?t" "taken_next ?A W W1" using step_inv [OF Cons.prems(1)] by blast
  have "starts_high P ?A" using Cons.prems(3) starts_high_prefix unfolding A by blast
  from starts_high_next [OF this Cons.prems(4) W1(2,1)] Cons.IH [OF W1(1)] Cons.prems(2,3) show ?case
    unfolding A by simp
qed auto

lemma writer_inv_new: "writer_inv [] [] (writer_new hi_bytes lo_bytes)"
  by (simp add: writer_inv_def writer_new_def prio_channel_def budget.queued_def bytes_channel_def mpsc_new_def Let_def)
    (simp add: prio_rx_new_def)

section \<open>What the agent makes of it\<close>

text \<open>The frames the hub sends on a connection are well formed, and on the control stream they are those the agent serves.\<close>

definition agent_accepts :: "frame \<Rightarrow> bool" where
  "agent_accepts f \<longleftrightarrow> wf_frame f \<and>
     (fstream f = 0 \<longrightarrow> (case fbody f of BPing _ \<Rightarrow> True | BPong _ \<Rightarrow> True | BListSessions _ \<Rightarrow> True | BKillSession _ _ \<Rightarrow> True | _ \<Rightarrow> False))"

abbreviation posted :: "frame \<Rightarrow> half \<times> bytes" where
  "posted f \<equiv> (agent_half (ty_of f), encode f)"

definition unposted :: "half \<times> bytes \<Rightarrow> frame" where
  "unposted m = the (wire_frame (snd m))"

lemma unposted_posted: "wf_frame f \<Longrightarrow> unposted (posted f) = f"
  using wire_frame_iff [of "encode f" f] by (simp add: unposted_def)

lemma map_unposted: "list_all wf_frame fs \<Longrightarrow> map unposted (map posted fs) = fs"
  by (auto simp: list_all_iff unposted_posted intro: map_idI)

lemma posted_inj: "map posted xs = map posted ys \<Longrightarrow> list_all wf_frame xs \<Longrightarrow> list_all wf_frame ys \<Longrightarrow> xs = ys"
  using map_unposted [of xs] map_unposted [of ys] by metis

lemma on_half_posted: "on_half h (map posted fs) = map posted (filter (\<lambda>f. agent_half (ty_of f) = h) fs)"
  by (simp add: filter_map comp_def)

lemma frame_half: "agent_half (ty_of f) = (if half_lo (fbody f) then Lo else Hi)"
  using agent_half_lo [of "fstream f" "fbody f"] by (simp add: ty_of_def)

lemma half_inputs:
  "filter half_lo (inputs sid fs) = inputs sid (filter (\<lambda>f. agent_half (ty_of f) = Lo) fs)"
  "filter (\<lambda>b. \<not> half_lo b) (inputs sid fs) = inputs sid (filter (\<lambda>f. agent_half (ty_of f) = Hi) fs)"
  by (induction fs) (auto simp: inputs_def frame_half split: if_splits)

text \<open>The wire carries the frames accepted, each half in its order, and the first of a stream stays the first.\<close>

lemma wire_frames:
  assumes "t = fold writer_step evs (writer_new hi_bytes lo_bytes)" "writer_drained t"
    and "accepted evs (writer_new hi_bytes lo_bytes) = map posted fs" "list_all wf_frame fs"
    and "inputs sid fs = b0 # bodies" "\<not> half_lo b0"
  obtains gs ys where "wt_wire t = map encode gs" "set gs \<subseteq> set fs" "inputs sid gs = b0 # ys"
    "filter half_lo ys = filter half_lo bodies" "filter (\<lambda>b. \<not> half_lo b) ys = filter (\<lambda>b. \<not> half_lo b) bodies"
proof -
  let ?A = "map posted fs" and ?P = "\<lambda>m. fstream (unposted m) = sid"
  have wf: "wf_frame f" if "f \<in> set fs" for f using assms(4) that by (simp add: list_all_iff)
  have P: "filter ?P (map posted xs) = map posted (filter (\<lambda>f. fstream f = sid) xs)" if "list_all wf_frame xs" for xs
    using that by (induction xs) (auto simp: unposted_posted)
  have "starts_high ?P ?A"
    unfolding starts_high_def P [OF assms(4)] using assms(5,6) by (auto simp: inputs_def frame_half split: list.splits)
  then obtain W where W: "writer_inv ?A W t" "starts_high ?P W"
    using run_inv [OF writer_inv_new [of hi_bytes lo_bytes], of evs ?P] assms(1-3)
    by (auto simp: writer_drained_def starts_high_def)
  define gs where "gs = map unposted W"
  have mem: "m \<in> posted ` set fs" if "m \<in> set W" for m using taken_accepted [OF W(1)] that by auto
  then have gs: "set gs \<subseteq> set fs" "W = map posted gs"
    by (auto simp: gs_def unposted_posted wf intro!: map_idI [symmetric] dest!: mem)
  have wfg: "list_all wf_frame gs" using gs(1) wf by (auto simp: list_all_iff)
  have "on_half h W = on_half h ?A" for h
    using W(1) assms(2) by (cases h) (auto simp: writer_inv_def writer_drained_def budget.queued_def)
  then have "filter (\<lambda>f. agent_half (ty_of f) = h) gs = filter (\<lambda>f. agent_half (ty_of f) = h) fs" for h
    unfolding gs(2) on_half_posted by (rule posted_inj) (use wf gs(1) in \<open>auto simp: list_all_iff\<close>)
  then have h: "filter half_lo (inputs sid gs) = filter half_lo (b0 # bodies)"
    "filter (\<lambda>b. \<not> half_lo b) (inputs sid gs) = filter (\<lambda>b. \<not> half_lo b) (b0 # bodies)"
    unfolding assms(5) [symmetric] half_inputs by simp_all
  then obtain g ys where g: "inputs sid gs = g # ys" using assms(6) by (cases "inputs sid gs") auto
  then have "\<not> half_lo g"
    using W(2) unfolding gs(2) starts_high_def P [OF wfg] by (auto simp: inputs_def frame_half split: if_splits list.splits)
  moreover have "wt_wire t = map encode gs"
    using W(1) assms(2) gs(2) by (auto simp: writer_inv_def writer_drained_def comp_def)
  ultimately show ?thesis using that [of gs ys] gs(1) g h assms(6) by simp
qed

lemma dispatch_all_append:
  "dispatch_all (xs @ ys) l =
     bindE (dispatch_all xs l) (\<lambda>(l1, t1). bindE (dispatch_all ys l1) (\<lambda>(l2, t2). Inr (l2, t1 @ t2)))"
  by (induction xs arbitrary: l) (auto simp: bindE_def split: sum.splits prod.splits)

lemma dispatch_accepted: "agent_accepts f \<Longrightarrow> \<exists>l' ts. dispatch f l = Inr (l', ts)"
  using dispatch_data [of f l] by (cases "fstream f = 0") (auto simp: agent_accepts_def dispatch_def split: body.splits)

lemma dispatch_all_accepted:
  assumes "list_all agent_accepts fs" "link_inv l"
  shows "\<exists>l' ts. dispatch_all fs l = Inr (l', ts) \<and> link_inv l'"
  using assms
proof (induction fs arbitrary: l)
  case (Cons f fs)
  then obtain l1 ts1 where 1: "dispatch f l = Inr (l1, ts1)" using dispatch_accepted [of f l] by auto
  have "link_inv l1" using dispatch_keeps [OF Cons.prems(2) _ 1, of "fstream f + 1"] by simp
  with Cons 1 show ?case by (fastforce simp: bindE_Inr_iff)
qed simp

lemma inputs_split:
  assumes "inputs sid gs = b # ys"
  obtains pre post where "gs = pre @ \<lparr>fstream = sid, fbody = b\<rparr> # post" "inputs sid post = ys"
proof -
  from assms obtain f fs where f: "filter (\<lambda>f. fstream f = sid) gs = f # fs" "b = fbody f" "ys = map fbody fs"
    by (cases "filter (\<lambda>f. fstream f = sid) gs") (auto simp: inputs_def)
  then obtain pre post where "gs = pre @ f # post" "fstream f = sid" "fs = filter (\<lambda>f. fstream f = sid) post"
    by (auto simp: filter_eq_Cons_iff)
  with f that [of pre post] show ?thesis by (simp add: inputs_def)
qed

section \<open>Properties\<close>


text \<open>
  An eviction ends the hub's task at once when it waits for messages, and is lost when it is busy with one: then the task
  does not end before a second notice or a failure of the transport, whatever is sent or not sent later.
\<close>

fun no_further_notice :: "writer_ev \<Rightarrow> bool" where
  "no_further_notice (Post h bs) = True"
| "no_further_notice Take = True"
| "no_further_notice (Written ok) = ok"
| "no_further_notice Notify = False"
| "no_further_notice SendersGone = False"

definition senders_live :: "writer_task \<Rightarrow> bool" where
  "senders_live t \<longleftrightarrow> budget.bounded.rx_ok (wt_rx t) \<and> \<not> q_closed (bc_queue (rx_hi (wt_rx t))) \<and> \<not> q_closed (bc_queue (rx_lo (wt_rx t)))"

lemma take_live: "senders_live t \<Longrightarrow> \<not> wt_ended t \<Longrightarrow> senders_live (writer_take t) \<and> \<not> wt_ended (writer_take t)"
proof -
  assume a: "senders_live t" "\<not> wt_ended t"
  then have ok: "budget.bounded.rx_ok (wt_rx t)" by (simp add: senders_live_def)
  show ?thesis
    by (rule budget.bounded.recv_spec [OF ok]) (use a in \<open>auto simp: senders_live_def writer_take_def split: list.splits\<close>)
qed

lemma live_step:
  assumes "senders_live t" "\<not> wt_ended t" "no_further_notice e"
  shows "senders_live (writer_step e t) \<and> \<not> wt_ended (writer_step e t)"
proof (cases e)
  case (Post h bs)
  have "senders_live (snd (writer_post h bs t)) \<and> \<not> wt_ended (snd (writer_post h bs t))"
    using assms(1,2)
    by (cases h) (auto simp: writer_post_def senders_live_def budget.bounded.rx_ok_def bytes_send_half(2) split: prod.splits)
  with Post show ?thesis by simp
next
  case Take
  with take_live assms show ?thesis by simp
qed (use assms in \<open>auto simp: writer_written_def senders_live_def split: option.splits\<close>)

lemma eviction_missed:
  assumes "senders_live t" "\<not> wt_ended t"
  shows "wt_sending t = None \<Longrightarrow> wt_ended (writer_step Notify t)"
    and "wt_sending t = Some bs \<Longrightarrow> list_all no_further_notice es \<Longrightarrow> \<not> wt_ended (fold writer_step (Notify # es) t)"
proof -
  show "wt_sending t = None \<Longrightarrow> wt_ended (writer_step Notify t)" using assms by (simp add: writer_notified_def writer_end_def)
  have "senders_live t \<and> \<not> wt_ended t \<Longrightarrow> list_all no_further_notice es \<Longrightarrow> \<not> wt_ended (fold writer_step es t)" for t
    by (induction es arbitrary: t) (use live_step in auto)
  then show "wt_sending t = Some bs \<Longrightarrow> list_all no_further_notice es \<Longrightarrow> \<not> wt_ended (fold writer_step (Notify # es) t)"
    using assms by (simp add: writer_notified_def)
qed

section \<open>An example\<close>

text \<open>
  A browser on stream 1 opens a session, uploads a byte and types; another one types on stream 3 in between. The
  upload is queued before the keystroke and overtaken by it.
\<close>

lemma post_small:
  assumes "length bs \<le> sem" "sem \<le> cap" "cap < 2 ^ 32"
  shows "bytes_send sem_acquire (post_push False) bs \<lparr>bc_sem = sem, bc_queue = \<lparr>q_items = ms, q_closed = False\<rparr>, bc_cap = cap\<rparr> =
    (Sent, \<lparr>bc_sem = sem - length bs, bc_queue = \<lparr>q_items = ms @ [(word_of_nat (length bs), bs)], q_closed = False\<rparr>, bc_cap = cap\<rparr>)"
proof -
  have "unat (word_of_nat (length bs) :: u32) = length bs" using assms by (simp add: unat_of_nat)
  with assms show ?thesis by (simp add: bytes_send_def Let_def sem_acquire_def post_push_def mpsc_push_def)
qed

definition demo_frames :: "frame list" where
  "demo_frames = [frame_open 1 [0x61] (24, 80), frame_paste_chunk 1 4 [2], frame_data 3 [9], frame_data 1 [7]]"

definition demo_writer_run :: "writer_ev list" where
  "demo_writer_run =
     [Post Hi (encode (frame_open 1 [0x61] (24, 80))), Take, Post Lo (encode (frame_paste_chunk 1 4 [2])),
      Post Hi (encode (frame_data 3 [9])), Written True, Post Hi (encode (frame_data 1 [7])),
      Take, Written True, Take, Written True, Take, Written True, Take]"

lemma demo_writer_turns:
  assumes "length a = 14" "length b = 14" "length c = 10" "length d = 10"
  defines "evs \<equiv> [Post Hi a, Take, Post Lo b, Post Hi c, Written True, Post Hi d,
      Take, Written True, Take, Written True, Take, Written True, Take]"
    and "w \<equiv> writer_new HUB_WRITER_HI_BYTES HUB_WRITER_LO_BYTES"
  shows "writer_drained (fold writer_step evs w) \<and> wt_wire (fold writer_step evs w) = [a, c, d, b]"
    and "accepted evs w = [(Hi, a), (Lo, b), (Hi, c), (Hi, d)]"
  using assms(1-4)
  by (simp_all add: evs_def w_def writer_new_def prio_channel_def bytes_channel_def prio_rx_new_def mpsc_new_def HUB_WRITER_HI_BYTES_def
      HUB_WRITER_LO_BYTES_def writer_post_def post_small writer_take_def prio_recv.simps bytes_recv_def mpsc_poll_def sem_release_def
      writer_written_def writer_drained_def Let_def)

lemma demo_lengths: "length (encode (frame_open 1 [0x61] (24, 80))) = 14" "length (encode (frame_paste_chunk 1 4 [2])) = 14"
  "length (encode (frame_data 3 [9])) = 10" "length (encode (frame_data 1 [7])) = 10"
  by code_simp+


end
