(* ===== verification/Webauthn_Cbor.thy ===== *)
theory Webauthn_Cbor
  imports Term_Prelude
begin

text \<open>
  The CBOR reader of \<open>common/src/webauthn/cbor.rs\<close>, the COSE key decoder of \<open>cose.rs\<close> and the parser of
  the authenticator data of \<open>authdata.rs\<close>.

  A reader takes the remaining bytes and returns a value with the bytes after it, or an error.
  \<open>head_enc\<close>, \<open>cbor_item\<close> and \<open>entry_enc\<close> are the grammar of the accepted encodings, shortest or not;
  the lemmas show that each reader accepts exactly the encodings of its grammar. An \<open>i64\<close> is an
  integer in range, checked where the code converts.
\<close>

section \<open>The reader\<close>

datatype cbor_error =
    CborEof nat
  | UnsupportedInfo u8 u8
  | WrongMajor u8 u8
  | TooLarge u64 u64
  | CborUtf8
  | NestingTooDeep

definition MAX_STRING :: u64 where "MAX_STRING = 64 * 1024"
definition MAX_NESTING :: nat where "MAX_NESTING = 6"
definition I64_MAX :: u64 where "I64_MAX = 2 ^ 63 - 1"

definition cbor_take :: "nat \<Rightarrow> bytes \<Rightarrow> cbor_error + bytes \<times> bytes" where
  "cbor_take n buf =
     (if length buf < n then Inl (CborEof (n - length buf)) else Inr (take n buf, drop n buf))"

definition peek_header :: "bytes \<Rightarrow> cbor_error + u8 \<times> u8" where
  "peek_header buf =
     (if buf = [] then Inl (CborEof 1)
      else let b = buf ! 0 in Inr (drop_bit 5 b, b AND 0x1F))"

definition read_head :: "bytes \<Rightarrow> cbor_error + (u8 \<times> u64) \<times> bytes" where
  "read_head buf =
     bindE (peek_header buf) (\<lambda>(major, info).
     bindE (cbor_take 1 buf) (\<lambda>(_, buf).
       if info \<le> 23 then Inr ((major, ucast info), buf)
       else if info = 24
       then bindE (cbor_take 1 buf) (\<lambda>(b, buf). Inr ((major, ucast (b ! 0)), buf))
       else if info = 25
       then bindE (cbor_take 2 buf) (\<lambda>(b, buf). Inr ((major, ucast (from_be16 b)), buf))
       else if info = 26
       then bindE (cbor_take 4 buf) (\<lambda>(b, buf). Inr ((major, ucast (from_be32 b)), buf))
       else if info = 27
       then bindE (cbor_take 8 buf) (\<lambda>(b, buf). Inr ((major, from_be64 b), buf))
       else Inl (UnsupportedInfo major info)))"

definition read_uint :: "bytes \<Rightarrow> cbor_error + u64 \<times> bytes" where
  "read_uint buf =
     bindE (read_head buf) (\<lambda>((m, v), buf). if m \<noteq> 0 then Inl (WrongMajor 0 m) else Inr (v, buf))"

definition read_int :: "bytes \<Rightarrow> cbor_error + int \<times> bytes" where
  "read_int buf =
     bindE (read_head buf) (\<lambda>((m, v), buf).
       if m = 0 then (if v \<le> I64_MAX then Inr (uint v, buf) else Inl (TooLarge v I64_MAX))
       else if m = 1
       then let neg = - 1 - uint v in
            if neg \<ge> - (2 ^ 63) then Inr (neg, buf) else Inl (TooLarge v I64_MAX)
       else Inl (WrongMajor 0 m))"

definition read_bytes :: "bytes \<Rightarrow> cbor_error + bytes \<times> bytes" where
  "read_bytes buf =
     bindE (read_head buf) (\<lambda>((m, len), buf).
       if m \<noteq> 2 then Inl (WrongMajor 2 m)
       else if len > MAX_STRING then Inl (TooLarge len MAX_STRING)
       else cbor_take (unat len) buf)"

definition read_text :: "bytes \<Rightarrow> cbor_error + bytes \<times> bytes" where
  "read_text buf =
     bindE (read_head buf) (\<lambda>((m, len), buf).
       if m \<noteq> 3 then Inl (WrongMajor 3 m)
       else if len > MAX_STRING then Inl (TooLarge len MAX_STRING)
       else bindE (cbor_take (unat len) buf) (\<lambda>(raw, buf).
         case from_utf8 raw of None \<Rightarrow> Inl CborUtf8 | Some s \<Rightarrow> Inr (s, buf)))"

definition read_map_header :: "bytes \<Rightarrow> cbor_error + u64 \<times> bytes" where
  "read_map_header buf =
     bindE (read_head buf) (\<lambda>((m, n), buf). if m \<noteq> 5 then Inl (WrongMajor 5 m) else Inr (n, buf))"

text \<open>\<open>for _ in 0..n { step(buf)?; }\<close>\<close>

fun repeatE :: "nat \<Rightarrow> ('a \<Rightarrow> 'e + 'a) \<Rightarrow> 'a \<Rightarrow> 'e + 'a" where
  "repeatE 0 step s = Inr s"
| "repeatE (Suc n) step s = bindE (step s) (repeatE n step)"

lemma repeatE_cong [fundef_cong]:
  "n = n' \<Longrightarrow> s = s' \<Longrightarrow> (\<And>x. step x = step' x) \<Longrightarrow> repeatE n step s = repeatE n' step' s'"
  by (metis ext)

function skip_value_depth :: "nat \<Rightarrow> bytes \<Rightarrow> cbor_error + bytes" where
  "skip_value_depth depth buf =
     (if depth > MAX_NESTING then Inl NestingTooDeep
      else bindE (read_head buf) (\<lambda>((major, len), buf).
        if major = 0 \<or> major = 1 then Inr buf
        else if major = 2 \<or> major = 3
        then (if len > MAX_STRING then Inl (TooLarge len MAX_STRING)
              else bindE (cbor_take (unat len) buf) (\<lambda>(_, buf). Inr buf))
        else if major = 4 then repeatE (unat len) (skip_value_depth (depth + 1)) buf
        else if major = 5
        then repeatE (unat len)
               (\<lambda>buf. bindE (skip_value_depth (depth + 1) buf) (skip_value_depth (depth + 1))) buf
        else Inl (UnsupportedInfo major 0)))"
  by pat_completeness auto
termination
  by (relation "measure (\<lambda>(depth, buf). MAX_NESTING + 1 - depth)") auto

declare skip_value_depth.simps [simp del]

definition skip_value :: "bytes \<Rightarrow> cbor_error + bytes" where
  "skip_value buf = skip_value_depth 0 buf"

section \<open>COSE keys\<close>

datatype cose_error =
    CoseCbor cbor_error
  | UnsupportedAlg int
  | UnsupportedCurve int
  | UnsupportedKty int
  | MissingField string
  | BadCoordLen string nat

definition ES256_ALG :: int where "ES256_ALG = -7"
definition P256_CRV :: int where "P256_CRV = 1"
definition EC2_KTY :: int where "EC2_KTY = 2"
definition SEC1_UNCOMPRESSED_LEN :: nat where "SEC1_UNCOMPRESSED_LEN = 65"

record cose_fields =
  c_kty :: "int option"
  c_alg :: "int option"
  c_crv :: "int option"
  c_x :: "bytes option"
  c_y :: "bytes option"

definition cose_empty :: cose_fields where
  "cose_empty = \<lparr>c_kty = None, c_alg = None, c_crv = None, c_x = None, c_y = None\<rparr>"

definition cose_entry :: "cose_fields \<times> bytes \<Rightarrow> cbor_error + cose_fields \<times> bytes" where
  "cose_entry = (\<lambda>(c, buf).
     bindE (read_int buf) (\<lambda>(key, buf).
       if key = 1 then bindE (read_int buf) (\<lambda>(v, buf). Inr (c\<lparr>c_kty := Some v\<rparr>, buf))
       else if key = 3 then bindE (read_int buf) (\<lambda>(v, buf). Inr (c\<lparr>c_alg := Some v\<rparr>, buf))
       else if key = -1 then bindE (read_int buf) (\<lambda>(v, buf). Inr (c\<lparr>c_crv := Some v\<rparr>, buf))
       else if key = -2 then bindE (read_bytes buf) (\<lambda>(v, buf). Inr (c\<lparr>c_x := Some v\<rparr>, buf))
       else if key = -3 then bindE (read_bytes buf) (\<lambda>(v, buf). Inr (c\<lparr>c_y := Some v\<rparr>, buf))
       else bindE (skip_value buf) (\<lambda>buf. Inr (c, buf))))"

definition cose_key :: "cose_fields \<Rightarrow> cose_error + bytes" where
  "cose_key c =
     bindE (ok_orE (c_kty c) (MissingField ''kty'')) (\<lambda>kty.
     bindE (failE (kty \<noteq> EC2_KTY) (UnsupportedKty kty)) (\<lambda>_.
     bindE (case c_alg c of Some a \<Rightarrow> failE (a \<noteq> ES256_ALG) (UnsupportedAlg a) | None \<Rightarrow> Inr ()) (\<lambda>_.
     bindE (ok_orE (c_crv c) (MissingField ''crv'')) (\<lambda>crv.
     bindE (failE (crv \<noteq> P256_CRV) (UnsupportedCurve crv)) (\<lambda>_.
     bindE (ok_orE (c_x c) (MissingField ''x'')) (\<lambda>x.
     bindE (ok_orE (c_y c) (MissingField ''y'')) (\<lambda>y.
     bindE (failE (length x \<noteq> 32) (BadCoordLen ''x'' (length x))) (\<lambda>_.
     bindE (failE (length y \<noteq> 32) (BadCoordLen ''y'' (length y))) (\<lambda>_.
       Inr ([0x04] @ x @ y))))))))))"

definition decode_es256 :: "bytes \<Rightarrow> cose_error + bytes" where
  "decode_es256 buf =
     bindE (map_errE CoseCbor (read_map_header buf)) (\<lambda>(n, buf).
     bindE (map_errE CoseCbor (repeatE (unat n) cose_entry (cose_empty, buf))) (\<lambda>(c, _). cose_key c))"

section \<open>Authenticator data\<close>

datatype auth_data_error =
    AuthTooShort nat
  | MissingAttestedCredData
  | CredIdTooLong nat
  | AuthCose cose_error
  | AuthCbor cbor_error

definition FLAG_UP :: u8 where "FLAG_UP = 1"
definition FLAG_AT :: u8 where "FLAG_AT = push_bit 6 1"
definition AUTH_HEADER_LEN :: nat where "AUTH_HEADER_LEN = 37"

record auth_data_prefix =
  rp_id_hash :: bytes
  ad_flags :: u8
  sign_count :: u32

definition user_present :: "auth_data_prefix \<Rightarrow> bool" where
  "user_present p \<longleftrightarrow> ad_flags p AND FLAG_UP \<noteq> 0"

definition attested_cred_data :: "auth_data_prefix \<Rightarrow> bool" where
  "attested_cred_data p \<longleftrightarrow> ad_flags p AND FLAG_AT \<noteq> 0"

record attested_credential_data =
  ac_prefix :: auth_data_prefix
  aaguid :: bytes
  ac_credential_id :: bytes
  ac_public_key :: bytes

definition parse_prefix :: "bytes \<Rightarrow> auth_data_error + auth_data_prefix" where
  "parse_prefix data =
     (if length data < AUTH_HEADER_LEN then Inl (AuthTooShort (length data))
      else Inr \<lparr>rp_id_hash = take 32 data, ad_flags = data ! 32,
                sign_count = from_be32 (take 4 (drop 33 data))\<rparr>)"

definition parse_attested :: "bytes \<Rightarrow> auth_data_error + attested_credential_data" where
  "parse_attested data =
     bindE (parse_prefix data) (\<lambda>prefix.
       if \<not> attested_cred_data prefix then Inl MissingAttestedCredData
       else let buf = drop AUTH_HEADER_LEN data in
         if length buf < 16 + 2 then Inl (AuthTooShort (length data))
         else let guid = take 16 buf; cred_id_len = unat (from_be16 (take 2 (drop 16 buf))) in
           if cred_id_len > 1023 then Inl (CredIdTooLong cred_id_len)
           else let buf = drop 18 buf in
             if length buf < cred_id_len then Inl (AuthTooShort (length data))
             else let credential_id = take cred_id_len buf; buf = drop cred_id_len buf in
               bindE (map_errE AuthCose (decode_es256 buf)) (\<lambda>pk.
               bindE (map_errE AuthCbor (skip_value buf)) (\<lambda>_.
                 Inr \<lparr>ac_prefix = prefix, aaguid = guid, ac_credential_id = credential_id,
                      ac_public_key = pk\<rparr>)))"

section \<open>The initial byte\<close>

lemma unat_init: "m < 8 \<Longrightarrow> i < 32 \<Longrightarrow> unat (m * 32 + i :: u8) = unat m * 32 + unat i"
proof -
  assume "m < 8" "i < 32"
  then have mi: "unat m < 8" "unat i < 32" by (simp_all add: word_less_nat_alt)
  have "m * 32 + i = word_of_nat (unat m * 32 + unat i)" by simp
  also have "unat \<dots> = (unat m * 32 + unat i) mod 256"
    unfolding unat_of_nat by simp
  also have "\<dots> = unat m * 32 + unat i" using mi by simp
  finally show ?thesis .
qed

lemma init_byte:
  assumes "m < 8" "i < 32"
  shows "drop_bit 5 (m * 32 + i :: u8) = m" "(m * 32 + i) AND 0x1F = i"
proof -
  have mi: "unat m < 8" "unat i < 32" using assms by (simp_all add: word_less_nat_alt)
  have "unat (drop_bit 5 (m * 32 + i)) = unat m"
    using mi unat_init [OF assms] by (simp add: drop_bit_eq_div unat_div_distrib)
  then show "drop_bit 5 (m * 32 + i :: u8) = m" by (simp only: word_unat_eq_iff)
  have "(m * 32 + i) AND 0x1F = take_bit 5 (m * 32 + i)"
    by (simp add: take_bit_eq_mask mask_eq_exp_minus_1)
  moreover have "unat (take_bit 5 (m * 32 + i)) = unat i"
    using mi unat_init [OF assms] by (simp add: take_bit_eq_mod unat_mod_distrib)
  ultimately show "(m * 32 + i) AND 0x1F = i" by (simp only: word_unat_eq_iff)
qed

lemma init_byte_ex: "\<exists>m i. (b :: u8) = m * 32 + i \<and> m < 8 \<and> i < 32"
proof -
  have lt: "unat b < 256" using unsigned_less [of b] by simp
  define m i :: u8 where "m = word_of_nat (unat b div 32)" and "i = word_of_nat (unat b mod 32)"
  have "b = word_of_nat (unat b div 32 * 32 + unat b mod 32)" by simp
  then have "b = m * 32 + i" unfolding m_def i_def by (simp only: of_nat_add of_nat_mult of_nat_numeral)
  moreover have "m < 8" "i < 32" using lt by (simp_all add: m_def i_def word_less_nat_alt unat_of_nat)
  ultimately show ?thesis by blast
qed

section \<open>The accepted encodings\<close>

definition head_enc :: "u8 \<Rightarrow> u64 \<Rightarrow> bytes \<Rightarrow> bool" where
  "head_enc m v h \<longleftrightarrow> m < 8 \<and>
     ((\<exists>i. i \<le> 23 \<and> v = ucast i \<and> h = [m * 32 + i]) \<or>
      (\<exists>b :: u8. v = ucast b \<and> h = [m * 32 + 24, b]) \<or>
      (\<exists>w. v = ucast w \<and> h = (m * 32 + 25) # be16 w) \<or>
      (\<exists>w. v = ucast w \<and> h = (m * 32 + 26) # be32 w) \<or>
      h = (m * 32 + 27) # be64 v)"

lemma cbor_take_iff: "cbor_take n buf = Inr (a, rest) \<longleftrightarrow> buf = a @ rest \<and> length a = n"
  by (auto simp: cbor_take_def)

lemma cbor_take_append [simp]: "n = length a \<Longrightarrow> cbor_take n (a @ rest) = Inr (a, rest)"
  by (simp add: cbor_take_iff)

lemma read_head_init:
  assumes "m < 8" "i < 32"
  shows "read_head ((m * 32 + i) # q) =
    (if i \<le> 23 then Inr ((m, ucast i), q)
     else if i = 24 then bindE (cbor_take 1 q) (\<lambda>(b, buf). Inr ((m, ucast (b ! 0)), buf))
     else if i = 25 then bindE (cbor_take 2 q) (\<lambda>(b, buf). Inr ((m, ucast (from_be16 b)), buf))
     else if i = 26 then bindE (cbor_take 4 q) (\<lambda>(b, buf). Inr ((m, ucast (from_be32 b)), buf))
     else if i = 27 then bindE (cbor_take 8 q) (\<lambda>(b, buf). Inr ((m, from_be64 b), buf))
     else Inl (UnsupportedInfo m i))"
  using init_byte [OF assms] by (simp add: read_head_def peek_header_def cbor_take_def)

lemma read_head_iff: "read_head buf = Inr ((m, v), rest) \<longleftrightarrow> (\<exists>h. buf = h @ rest \<and> head_enc m v h)"
proof
  assume r: "read_head buf = Inr ((m, v), rest)"
  then obtain b q where buf: "buf = b # q" by (cases buf) (auto simp: read_head_def peek_header_def)
  obtain m' i where b: "b = m' * 32 + i" "m' < 8" "i < 32" using init_byte_ex by blast
  note rd = r [unfolded buf b(1) read_head_init [OF b(2,3), of q]]
  have one: "length a = Suc 0 \<Longrightarrow> \<exists>x. a = [x]" for a :: bytes by (cases a) auto
  consider "i \<le> 23" | "i = 24" | "i = 25" | "i = 26" | "i = 27" | "\<not> i \<le> 23" "i \<notin> {24, 25, 26, 27}" by auto
  then show "\<exists>h. buf = h @ rest \<and> head_enc m v h"
  proof cases
    case 1
    with rd buf b show ?thesis by (intro exI [of _ "[b]"]) (auto simp: head_enc_def)
  next
    case 2
    with rd buf b one show ?thesis by (fastforce simp: bindE_Inr_iff cbor_take_iff head_enc_def)
  next
    case 3
    with rd buf b obtain a where "q = a @ rest" "length a = 2" "v = ucast (from_be16 a)" "m = m'"
      by (auto simp: bindE_Inr_iff cbor_take_iff)
    with 3 buf b show ?thesis by (intro exI [of _ "b # a"]) (auto simp: head_enc_def intro!: exI [of _ "from_be16 a"])
  next
    case 4
    with rd buf b obtain a where "q = a @ rest" "length a = 4" "v = ucast (from_be32 a)" "m = m'"
      by (auto simp: bindE_Inr_iff cbor_take_iff)
    with 4 buf b show ?thesis by (intro exI [of _ "b # a"]) (auto simp: head_enc_def intro!: exI [of _ "from_be32 a"])
  next
    case 5
    with rd buf b obtain a where "q = a @ rest" "length a = 8" "v = from_be64 a" "m = m'"
      by (auto simp: bindE_Inr_iff cbor_take_iff)
    with 5 buf b show ?thesis by (intro exI [of _ "b # a"]) (auto simp: head_enc_def)
  next
    case 6
    with rd buf b show ?thesis by simp
  qed
next
  assume "\<exists>h. buf = h @ rest \<and> head_enc m v h"
  then obtain h where h: "buf = h @ rest" "head_enc m v h" by blast
  then have m: "m < 8" by (simp add: head_enc_def)
  have small: "i \<le> 23 \<Longrightarrow> i < 32" for i :: u8 by (simp add: word_le_nat_alt word_less_nat_alt)
  from h read_head_init [OF m small] read_head_init [OF m, of 24] read_head_init [OF m, of 25]
    read_head_init [OF m, of 26] read_head_init [OF m, of 27] small
  show "read_head buf = Inr ((m, v), rest)"
    by (auto simp: head_enc_def cbor_take_def)
qed


lemma read_head_enc [simp]: "head_enc m v h \<Longrightarrow> read_head (h @ rest) = Inr ((m, v), rest)"
  using read_head_iff by blast

text \<open>Integers in the range of \<open>i64\<close>, and byte and text strings.\<close>

definition int_enc :: "int \<Rightarrow> bytes \<Rightarrow> bool" where
  "int_enc i h \<longleftrightarrow> (\<exists>v. v \<le> I64_MAX \<and>
     (head_enc 0 v h \<and> i = uint v \<or> head_enc 1 v h \<and> i = - 1 - uint v))"

definition str_enc :: "u8 \<Rightarrow> bytes \<Rightarrow> bytes \<Rightarrow> bool" where
  "str_enc m s b \<longleftrightarrow> (\<exists>v h. head_enc m v h \<and> v \<le> MAX_STRING \<and> length s = unat v \<and> b = h @ s)"

lemma i64_max_iff: "v \<le> I64_MAX \<longleftrightarrow> uint v \<le> 9223372036854775807"
proof -
  have "uint I64_MAX = 9223372036854775807" by (simp add: I64_MAX_def)
  then show ?thesis by (simp add: word_le_def)
qed

lemma read_int_iff: "read_int buf = Inr (i, rest) \<longleftrightarrow> (\<exists>h. buf = h @ rest \<and> int_enc i h)"
proof
  assume "read_int buf = Inr (i, rest)"
  then obtain m v where h: "read_head buf = Inr ((m, v), rest)"
    "v \<le> I64_MAX \<and> (m = 0 \<and> i = uint v \<or> m = 1 \<and> i = - 1 - uint v)"
    by (auto simp: read_int_def bindE_Inr_iff i64_max_iff Let_def split: if_splits)
  then show "\<exists>h. buf = h @ rest \<and> int_enc i h"
    by (auto simp: read_head_iff int_enc_def)
next
  assume "\<exists>h. buf = h @ rest \<and> int_enc i h"
  then show "read_int buf = Inr (i, rest)"
    by (auto simp: int_enc_def read_int_def i64_max_iff Let_def)
qed

lemma read_bytes_iff: "read_bytes buf = Inr (s, rest) \<longleftrightarrow> (\<exists>b. buf = b @ rest \<and> str_enc 2 s b)"
proof
  assume "read_bytes buf = Inr (s, rest)"
  then obtain v r where "read_head buf = Inr ((2, v), r)" "v \<le> MAX_STRING" "r = s @ rest" "length s = unat v"
    by (auto simp: read_bytes_def bindE_Inr_iff cbor_take_iff linorder_not_less split: if_splits)
  then show "\<exists>b. buf = b @ rest \<and> str_enc 2 s b"
    by (auto simp: read_head_iff str_enc_def intro!: exI)
next
  assume "\<exists>b. buf = b @ rest \<and> str_enc 2 s b"
  then show "read_bytes buf = Inr (s, rest)"
    by (auto simp: str_enc_def read_bytes_def)
qed

lemma read_text_iff:
  "read_text buf = Inr (s, rest) \<longleftrightarrow> (\<exists>b. buf = b @ rest \<and> str_enc 3 s b \<and> utf8_valid s)"
proof
  assume "read_text buf = Inr (s, rest)"
  then obtain v r where "read_head buf = Inr ((3, v), r)" "v \<le> MAX_STRING" "r = s @ rest" "length s = unat v"
    "utf8_valid s"
    by (auto simp: read_text_def bindE_Inr_iff cbor_take_iff linorder_not_less split: if_splits option.splits)
  then show "\<exists>b. buf = b @ rest \<and> str_enc 3 s b \<and> utf8_valid s"
    by (auto simp: read_head_iff str_enc_def intro!: exI)
next
  assume "\<exists>b. buf = b @ rest \<and> str_enc 3 s b \<and> utf8_valid s"
  then show "read_text buf = Inr (s, rest)"
    by (auto simp: str_enc_def read_text_def split: option.splits)
qed

lemma read_map_header_iff: "read_map_header buf = Inr (n, rest) \<longleftrightarrow> (\<exists>h. buf = h @ rest \<and> head_enc 5 n h)"
  by (auto simp: read_map_header_def bindE_Inr_iff read_head_iff split: if_splits)

text \<open>One data item of at most \<open>d\<close> levels.\<close>

inductive cbor_item :: "nat \<Rightarrow> bytes \<Rightarrow> bool" where
  item_int: "head_enc m v h \<Longrightarrow> m = 0 \<or> m = 1 \<Longrightarrow> cbor_item (Suc d) h"
| item_str: "str_enc m s b \<Longrightarrow> m = 2 \<or> m = 3 \<Longrightarrow> cbor_item (Suc d) b"
| item_array: "head_enc 4 v h \<Longrightarrow> length xs = unat v \<Longrightarrow> \<forall>x \<in> set xs. cbor_item d x \<Longrightarrow>
    cbor_item (Suc d) (h @ concat xs)"
| item_map: "head_enc 5 v h \<Longrightarrow> length ps = unat v \<Longrightarrow>
    \<forall>p \<in> set ps. cbor_item d (fst p) \<and> cbor_item d (snd p) \<Longrightarrow>
    cbor_item (Suc d) (h @ concat (map (\<lambda>(k, v). k @ v) ps))"

inductive_cases cbor_item_0: "cbor_item 0 b"
inductive_cases cbor_item_Suc: "cbor_item (Suc d) b"

text \<open>A loop over a reader that consumes one element of a grammar consumes a list of them.\<close>

lemma repeatE_iff:
  assumes "\<And>s b t. step (s, b) = Inr t \<longleftrightarrow> (\<exists>e x. b = x @ snd t \<and> P e x \<and> fst t = g e s)"
  shows "repeatE n step (s, b) = Inr t \<longleftrightarrow>
    (\<exists>es xs. length es = n \<and> list_all2 P es xs \<and> b = concat xs @ snd t \<and> fst t = fold g es s)"
proof (induction n arbitrary: s b)
  case 0
  show ?case by (cases t) auto
next
  case (Suc n)
  have "repeatE (Suc n) step (s, b) = Inr t \<longleftrightarrow>
      (\<exists>e x r. b = x @ r \<and> P e x \<and> repeatE n step (g e s, r) = Inr t)"
    unfolding repeatE.simps bindE_Inr_iff
    using assms [of s b] by (metis fst_conv snd_conv surj_pair)
  also have "\<dots> \<longleftrightarrow> (\<exists>es xs. length es = Suc n \<and> list_all2 P es xs \<and> b = concat xs @ snd t \<and> fst t = fold g es s)"
    (is "?l \<longleftrightarrow> ?r")
  proof
    assume ?l
    then obtain e x r es xs where "b = x @ r" "P e x" "length es = n" "list_all2 P es xs" "r = concat xs @ snd t"
      "fst t = fold g es (g e s)"
      unfolding Suc.IH by blast
    then show ?r by (intro exI [of _ "e # es"] exI [of _ "x # xs"]) simp
  next
    assume ?r
    then obtain es xs where r: "length es = Suc n" "list_all2 P es xs" "b = concat xs @ snd t" "fst t = fold g es s"
      by blast
    then obtain e es' where es: "es = e # es'" by (cases es) auto
    with r obtain x xs' where "xs = x # xs'" "P e x" "list_all2 P es' xs'" by (auto simp: list_all2_Cons1)
    with es r show ?l
      unfolding Suc.IH by (intro exI [of _ e] exI [of _ x] exI [of _ "concat xs' @ snd t"]) auto
  qed
  finally show ?case .
qed

lemma repeatE_bytes_iff:
  assumes "\<And>b r. step b = Inr r \<longleftrightarrow> (\<exists>e. b = enc e @ r \<and> P e)"
  shows "repeatE n step b = Inr r \<longleftrightarrow>
    (\<exists>es. length es = n \<and> (\<forall>e \<in> set es. P e) \<and> b = concat (map enc es) @ r)"
proof (induction n arbitrary: b)
  case (Suc n)
  have "repeatE (Suc n) step b = Inr r \<longleftrightarrow>
      (\<exists>e es. P e \<and> length es = n \<and> (\<forall>e \<in> set es. P e) \<and> b = enc e @ concat (map enc es) @ r)"
    by (auto simp: bindE_Inr_iff assms Suc.IH)
  also have "\<dots> \<longleftrightarrow> (\<exists>es. length es = Suc n \<and> (\<forall>e \<in> set es. P e) \<and> b = concat (map enc es) @ r)"
    by (force simp: length_Suc_conv)
  finally show ?case .
qed auto

lemma skip_levels_iff:
  "d \<le> 7 \<Longrightarrow> skip_value_depth (7 - d) buf = Inr rest \<longleftrightarrow> (\<exists>i. buf = i @ rest \<and> cbor_item d i)"
proof (induction d arbitrary: buf rest)
  case 0
  then show ?case
    by (auto simp: skip_value_depth.simps [of 7] MAX_NESTING_def elim: cbor_item_0)
next
  case (Suc d)
  let ?k = "skip_value_depth (7 - d)"
  have k: "7 - Suc d + 1 = 7 - d" "\<not> 7 - Suc d > MAX_NESTING" using Suc.prems by (auto simp: MAX_NESTING_def)
  have arr: "repeatE n ?k b = Inr r \<longleftrightarrow> (\<exists>xs. length xs = n \<and> (\<forall>x \<in> set xs. cbor_item d x) \<and> b = concat xs @ r)" for n b r
    using repeatE_bytes_iff [of ?k "\<lambda>x. x" "cbor_item d" n b r] Suc by auto
  have mp: "repeatE n (\<lambda>b. bindE (?k b) ?k) b = Inr r \<longleftrightarrow>
      (\<exists>ps. length ps = n \<and> (\<forall>p \<in> set ps. cbor_item d (fst p) \<and> cbor_item d (snd p)) \<and>
         b = concat (map (\<lambda>(k, v). k @ v) ps) @ r)" for n b r
    by (rule repeatE_bytes_iff) (use Suc in \<open>auto simp: bindE_Inr_iff split_beta\<close>)
  show ?case
  proof
    assume s: "skip_value_depth (7 - Suc d) buf = Inr rest"
    then obtain m v q where h: "read_head buf = Inr ((m, v), q)"
      and c: "(m = 0 \<or> m = 1) \<and> rest = q \<or>
        (m = 2 \<or> m = 3) \<and> v \<le> MAX_STRING \<and> (\<exists>a. q = a @ rest \<and> length a = unat v) \<or>
        m = 4 \<and> repeatE (unat v) ?k q = Inr rest \<or>
        m = 5 \<and> repeatE (unat v) (\<lambda>b. bindE (?k b) ?k) q = Inr rest"
      unfolding skip_value_depth.simps [of "7 - Suc d"] k
      by (auto simp: bindE_Inr_iff cbor_take_iff linorder_not_less split: if_splits)
    from h obtain hd where b: "buf = hd @ q" "head_enc m v hd" unfolding read_head_iff by blast
    from c consider (int) "m = 0 \<or> m = 1" "rest = q"
      | (str) a where "m = 2 \<or> m = 3" "v \<le> MAX_STRING" "q = a @ rest" "length a = unat v"
      | (array) xs where "m = 4" "length xs = unat v" "\<forall>x \<in> set xs. cbor_item d x" "q = concat xs @ rest"
      | (pairs) ps where "m = 5" "length ps = unat v" "\<forall>p \<in> set ps. cbor_item d (fst p) \<and> cbor_item d (snd p)"
          "q = concat (map (\<lambda>(k, v). k @ v) ps) @ rest"
      unfolding arr mp by blast
    then show "\<exists>i. buf = i @ rest \<and> cbor_item (Suc d) i"
    proof cases
      case int
      with b item_int [OF b(2), of d] show ?thesis by blast
    next
      case (str a)
      then have "str_enc m a (hd @ a)" using b(2) by (auto simp: str_enc_def)
      with str b item_str [of m a "hd @ a" d] show ?thesis by force
    next
      case (array xs)
      with b item_array [of v hd xs d] show ?thesis by force
    next
      case (pairs ps)
      with b item_map [of v hd ps d] show ?thesis by force
    qed
  next
    assume "\<exists>i. buf = i @ rest \<and> cbor_item (Suc d) i"
    then show "skip_value_depth (7 - Suc d) buf = Inr rest"
      unfolding skip_value_depth.simps [of "7 - Suc d"] k
      by (elim exE conjE cbor_item_Suc) (auto simp: arr mp str_enc_def MAX_NESTING_def)
  qed
qed

lemma skip_value_iff: "skip_value buf = Inr rest \<longleftrightarrow> (\<exists>i. buf = i @ rest \<and> cbor_item 7 i)"
  using skip_levels_iff [of 7] by (simp add: skip_value_def)

section \<open>What the COSE decoder accepts\<close>

datatype cose_value = CoseInt int | CoseBytes bytes | CoseOther

fun entry_enc :: "int \<times> cose_value \<Rightarrow> bytes \<Rightarrow> bool" where
  "entry_enc (k, CoseInt v) b \<longleftrightarrow> k \<in> {1, 3, -1} \<and> (\<exists>h1 h2. b = h1 @ h2 \<and> int_enc k h1 \<and> int_enc v h2)"
| "entry_enc (k, CoseBytes s) b \<longleftrightarrow> k \<in> {-2, -3} \<and> (\<exists>h1 h2. b = h1 @ h2 \<and> int_enc k h1 \<and> str_enc 2 s h2)"
| "entry_enc (k, CoseOther) b \<longleftrightarrow> k \<notin> {1, 3, -1, -2, -3} \<and>
     (\<exists>h1 i. b = h1 @ i \<and> int_enc k h1 \<and> cbor_item 7 i)"

text \<open>A later entry overrides an earlier one with the same label.\<close>

fun set_field :: "int \<times> cose_value \<Rightarrow> cose_fields \<Rightarrow> cose_fields" where
  "set_field (k, CoseInt v) c =
     (if k = 1 then c\<lparr>c_kty := Some v\<rparr> else if k = 3 then c\<lparr>c_alg := Some v\<rparr> else c\<lparr>c_crv := Some v\<rparr>)"
| "set_field (k, CoseBytes s) c = (if k = -2 then c\<lparr>c_x := Some s\<rparr> else c\<lparr>c_y := Some s\<rparr>)"
| "set_field (k, CoseOther) c = c"

lemma cose_entry_iff:
  "cose_entry (c, b) = Inr t \<longleftrightarrow> (\<exists>e x. b = x @ snd t \<and> entry_enc e x \<and> fst t = set_field e c)"
proof
  assume "cose_entry (c, b) = Inr t"
  then obtain k r where k: "read_int b = Inr (k, r)" and t:
    "(if k = 1 then bindE (read_int r) (\<lambda>(v, buf). Inr (c\<lparr>c_kty := Some v\<rparr>, buf))
       else if k = 3 then bindE (read_int r) (\<lambda>(v, buf). Inr (c\<lparr>c_alg := Some v\<rparr>, buf))
       else if k = -1 then bindE (read_int r) (\<lambda>(v, buf). Inr (c\<lparr>c_crv := Some v\<rparr>, buf))
       else if k = -2 then bindE (read_bytes r) (\<lambda>(v, buf). Inr (c\<lparr>c_x := Some v\<rparr>, buf))
       else if k = -3 then bindE (read_bytes r) (\<lambda>(v, buf). Inr (c\<lparr>c_y := Some v\<rparr>, buf))
       else bindE (skip_value r) (\<lambda>buf. Inr (c, buf))) = Inr t"
    unfolding cose_entry_def by (auto simp only: bindE_Inr_iff prod.case split_paired_all)
  from k obtain h where k: "b = h @ r" "int_enc k h" by (auto simp: read_int_iff)
  consider "k \<in> {1, 3, -1}" | "k \<in> {-2, -3}" | "k \<notin> {1, 3, -1, -2, -3}" by blast
  then show "\<exists>e x. b = x @ snd t \<and> entry_enc e x \<and> fst t = set_field e c"
  proof cases
    case 1
    with t obtain v h2 where "r = h2 @ snd t" "int_enc v h2" "fst t = set_field (k, CoseInt v) c"
      by (auto simp: bindE_Inr_iff read_int_iff)
    with 1 k show ?thesis by (intro exI [of _ "(k, CoseInt v)"] exI [of _ "h @ h2"]) auto
  next
    case 2
    with t obtain v h2 where "r = h2 @ snd t" "str_enc 2 v h2" "fst t = set_field (k, CoseBytes v) c"
      by (auto simp: bindE_Inr_iff read_bytes_iff)
    with 2 k show ?thesis by (intro exI [of _ "(k, CoseBytes v)"] exI [of _ "h @ h2"]) auto
  next
    case 3
    with t obtain i where "r = i @ snd t" "cbor_item 7 i" "fst t = c"
      by (auto simp: bindE_Inr_iff skip_value_iff)
    with 3 k show ?thesis by (intro exI [of _ "(k, CoseOther)"] exI [of _ "h @ i"]) auto
  qed
next
  assume "\<exists>e x. b = x @ snd t \<and> entry_enc e x \<and> fst t = set_field e c"
  then obtain k v x where e: "b = x @ snd t" "entry_enc (k, v) x" "fst t = set_field (k, v) c" by auto
  have rd: "int_enc k h \<Longrightarrow> read_int (h @ r) = Inr (k, r)" "str_enc 2 s h \<Longrightarrow> read_bytes (h @ r) = Inr (s, r)"
    "cbor_item 7 h \<Longrightarrow> skip_value (h @ r) = Inr r" for k h r s
    by (auto simp: read_int_iff read_bytes_iff skip_value_iff)
  from e show "cose_entry (c, b) = Inr t"
    by (cases v) (auto simp: cose_entry_def rd prod_eq_iff)
qed

lemma cose_key_iff: "cose_key c = Inr k \<longleftrightarrow>
   c_kty c = Some 2 \<and> (c_alg c = None \<or> c_alg c = Some (-7)) \<and> c_crv c = Some 1 \<and>
   (\<exists>x y. c_x c = Some x \<and> c_y c = Some y \<and> length x = 32 \<and> length y = 32 \<and> k = 0x04 # x @ y)"
  by (auto simp: cose_key_def bindE_Inr_iff EC2_KTY_def ES256_ALG_def P256_CRV_def split: option.splits)

lemma decode_es256_iff:
  "decode_es256 b = Inr k \<longleftrightarrow>
     (\<exists>n h es xs rest. b = h @ concat xs @ rest \<and> head_enc 5 n h \<and> length es = unat n \<and>
        list_all2 entry_enc es xs \<and> cose_key (fold set_field es cose_empty) = Inr k)"
proof -
  note loop = repeatE_iff [of cose_entry entry_enc set_field, OF cose_entry_iff]
  show ?thesis
    by (auto simp: decode_es256_def bindE_Inr_iff read_map_header_iff loop)
      (metis append.assoc fst_conv snd_conv)+
qed

section \<open>What the authenticator-data parser accepts\<close>

lemma parse_prefix_iff:
  "parse_prefix data = Inr p \<longleftrightarrow>
     (\<exists>rest. data = rp_id_hash p @ [ad_flags p] @ be32 (sign_count p) @ rest \<and> length (rp_id_hash p) = 32)"
proof
  assume "parse_prefix data = Inr p"
  then have l: "37 \<le> length data" and p: "p = \<lparr>rp_id_hash = take 32 data, ad_flags = data ! 32,
      sign_count = from_be32 (take 4 (drop 33 data))\<rparr>"
    by (auto simp: parse_prefix_def AUTH_HEADER_LEN_def split: if_splits)
  obtain hash q where 1: "data = hash @ q" "length hash = 32" using list_split_at [of 32 data] l by auto
  then obtain f q2 where 2: "q = f # q2" using l by (cases q) auto
  have "4 \<le> length q2" using l 1 2 by simp
  then obtain cnt rest where 3: "q2 = be32 cnt @ rest" using be32_prefix by blast
  show "\<exists>rest. data = rp_id_hash p @ [ad_flags p] @ be32 (sign_count p) @ rest \<and> length (rp_id_hash p) = 32"
    using 1 2 3 p by (intro exI [of _ rest]) (simp add: nth_append)
next
  assume "\<exists>rest. data = rp_id_hash p @ [ad_flags p] @ be32 (sign_count p) @ rest \<and> length (rp_id_hash p) = 32"
  then obtain rest where d: "data = rp_id_hash p @ [ad_flags p] @ be32 (sign_count p) @ rest" "length (rp_id_hash p) = 32"
    by blast
  have "take 4 (drop 33 data) = be32 (sign_count p)" using d by simp
  with d show "parse_prefix data = Inr p"
    by (simp add: parse_prefix_def AUTH_HEADER_LEN_def nth_append)
qed

definition attested_enc :: "bytes \<Rightarrow> attested_credential_data \<Rightarrow> bytes \<Rightarrow> bool" where
  "attested_enc data a key \<longleftrightarrow>
     data = rp_id_hash (ac_prefix a) @ [ad_flags (ac_prefix a)] @ be32 (sign_count (ac_prefix a)) @
       aaguid a @ be16 (word_of_nat (length (ac_credential_id a))) @ ac_credential_id a @ key \<and>
     length (rp_id_hash (ac_prefix a)) = 32 \<and> length (aaguid a) = 16 \<and>
     length (ac_credential_id a) \<le> 1023 \<and> attested_cred_data (ac_prefix a)"

lemma parse_attested_enc:
  assumes "attested_enc data a key"
  shows "parse_attested data =
    bindE (map_errE AuthCose (decode_es256 key)) (\<lambda>pk.
    bindE (map_errE AuthCbor (skip_value key)) (\<lambda>_.
      Inr \<lparr>ac_prefix = ac_prefix a, aaguid = aaguid a, ac_credential_id = ac_credential_id a, ac_public_key = pk\<rparr>))"
proof -
  note e = assms [unfolded attested_enc_def]
  have pre: "parse_prefix data = Inr (ac_prefix a)"
    using e by (auto simp: parse_prefix_iff)
  have d: "drop 37 data = aaguid a @ be16 (word_of_nat (length (ac_credential_id a))) @ ac_credential_id a @ key"
    using e by simp
  have n: "unat (word_of_nat (length (ac_credential_id a)) :: u16) = length (ac_credential_id a)"
    using e by (simp add: unat_of_nat)
  have "length (aaguid a) = 16" "length (ac_credential_id a) \<le> 1023" "attested_cred_data (ac_prefix a)"
    using e by simp_all
  then show ?thesis
    using n by (simp add: parse_attested_def pre AUTH_HEADER_LEN_def d)
qed

lemma parse_attested_split:
  assumes "parse_attested data = Inr a"
  shows "\<exists>key. attested_enc data a key"
proof -
  obtain p where p: "parse_prefix data = Inr p" "attested_cred_data p"
    using assms by (auto simp: parse_attested_def bindE_Inr_iff split: if_splits)
  then obtain rest where r: "data = rp_id_hash p @ [ad_flags p] @ be32 (sign_count p) @ rest" "length (rp_id_hash p) = 32"
    by (auto simp: parse_prefix_iff)
  then have d: "drop 37 data = rest" by simp
  have "18 \<le> length rest"
    using assms p by (simp add: parse_attested_def AUTH_HEADER_LEN_def d split: if_splits)
  then obtain guid q where g: "rest = guid @ q" "length guid = 16" using list_split_at [of 16 rest] by auto
  with \<open>18 \<le> length rest\<close> have "2 \<le> length q" by simp
  then obtain n q2 where q: "q = be16 n @ q2" using be16_prefix by blast
  have c: "unat n \<le> 1023" "unat n \<le> length q2"
    using assms p g(2) by (auto simp: parse_attested_def AUTH_HEADER_LEN_def d g(1) q Let_def split: if_splits)
  obtain cid key where k: "q2 = cid @ key" "length cid = unat n" using list_split_at [OF c(2)] by auto
  have n: "n = word_of_nat (length cid)" using k by simp
  have enc: "attested_enc data \<lparr>ac_prefix = p, aaguid = guid, ac_credential_id = cid, ac_public_key = pk\<rparr> key" for pk
    using r(2) g(2) k(2) p(2) c(1) by (simp add: attested_enc_def r(1) g(1) q k(1))
  have "\<exists>pk. a = \<lparr>ac_prefix = p, aaguid = guid, ac_credential_id = cid, ac_public_key = pk\<rparr>"
    using assms [unfolded parse_attested_enc [OF enc [of "[]"]]] by (auto simp: bindE_Inr_iff)
  with enc show ?thesis by blast
qed

lemma parse_attested_iff:
  "parse_attested data = Inr a \<longleftrightarrow>
     (\<exists>key. attested_enc data a key \<and> decode_es256 key = Inr (ac_public_key a) \<and>
        (\<exists>i rest. key = i @ rest \<and> cbor_item 7 i))" (is "?l \<longleftrightarrow> ?r")
proof
  assume l: ?l
  then obtain key where key: "attested_enc data a key" using parse_attested_split by blast
  from l [unfolded parse_attested_enc [OF key]] obtain pk r where k: "decode_es256 key = Inr pk" "skip_value key = Inr r"
    "a = \<lparr>ac_prefix = ac_prefix a, aaguid = aaguid a, ac_credential_id = ac_credential_id a, ac_public_key = pk\<rparr>"
    by (auto simp: bindE_Inr_iff)
  have "pk = ac_public_key a" using arg_cong [OF k(3), of ac_public_key] by simp
  with k(1,2) key show ?r unfolding skip_value_iff by blast
next
  assume ?r
  then obtain key where "attested_enc data a key" "decode_es256 key = Inr (ac_public_key a)" "\<exists>r. skip_value key = Inr r"
    by (auto simp: skip_value_iff)
  then show ?l by (auto simp: parse_attested_enc)
qed

section \<open>Properties\<close>

text \<open>
  \<open>skip_value\<close> steps over exactly one data item: it succeeds if and only if its input starts with a
  definite-length item of integers, strings of at most 64 KiB, arrays and maps, nested at most
  seven levels deep, and what it leaves is what follows the item.
\<close>

theorem skip_value_spec: "skip_value buf = Inr rest \<longleftrightarrow> (\<exists>i. buf = i @ rest \<and> cbor_item 7 i)"
  by (rule skip_value_iff)

text \<open>
  \<open>decode_es256\<close> accepts exactly the COSE maps of a P-256 signature key: key type 2, curve 1, no
  algorithm or -7, and both coordinates 32 bytes long, the last entry with a label counting
  and unknown labels ignored; the result is the uncompressed point made of the two coordinates.
\<close>

theorem decode_es256_spec:
  "decode_es256 b = Inr k \<longleftrightarrow>
     (\<exists>n h es xs rest c x y. b = h @ concat xs @ rest \<and> head_enc 5 n h \<and> length es = unat n \<and>
        list_all2 entry_enc es xs \<and> c = fold set_field es cose_empty \<and>
        c_kty c = Some 2 \<and> (c_alg c = None \<or> c_alg c = Some (-7)) \<and> c_crv c = Some 1 \<and>
        c_x c = Some x \<and> c_y c = Some y \<and> length x = 32 \<and> length y = 32 \<and> k = 0x04 # x @ y)"
  unfolding decode_es256_iff cose_key_iff by (simp only: ex_simps simp_thms)

text \<open>
  Registration data is parsed exactly: \<open>parse_attested\<close> returns a credential if and only if the data
  is the 32-byte hash, the flags with the attested-data bit, the counter, the 16-byte model id, a
  length-prefixed credential id of at most 1023 bytes and a COSE key that decodes to the returned
  public key, followed by anything.
\<close>

theorem parse_attested_spec:
  "parse_attested data = Inr a \<longleftrightarrow>
     (\<exists>key i rest. attested_enc data a key \<and> decode_es256 key = Inr (ac_public_key a) \<and>
        key = i @ rest \<and> cbor_item 7 i)"
  unfolding parse_attested_iff by blast

end
