(* ===== verification/Webauthn_Verify.thy ===== *)
theory Webauthn_Verify
  imports Webauthn_Cbor
begin

text \<open>
  The WebAuthn ceremonies of \<open>common/src/webauthn/mod.rs\<close>, with the check of the client data of
  \<open>client_data.rs\<close> and the challenges of \<open>challenge.rs\<close>.

  The libraries the code calls are the fields of the record \<open>crypto\<close>: base64 in its two alphabets,
  SHA-256, the JSON parser and the P-256 primitives. \<open>crypto_laws\<close> states what is relied on of them:
  decoding inverts encoding and a digest has 32 bytes. A JSON value has the constructors of
  \<open>serde_json::Value\<close>; a number keeps its literal and an object its distinct keys with their values.

  The lemmas say when a ceremony succeeds: exactly when the browser's client data names the
  ceremony, the issued challenge and the origin, the authenticator data starts with the hash of the
  relying party and has the user-presence bit, and, for a login, the stored key of the named credential
  verifies the signature and the counter is zero or above the stored one.
\<close>

section \<open>Libraries\<close>

datatype json =
    JNull
  | JBool bool
  | JNumber bytes
  | JString bytes
  | JArray "json list"
  | JObject "(bytes \<times> json) list"

record crypto =
  b64u_decode :: "bytes \<Rightarrow> bytes option"
  b64u_encode :: "bytes \<Rightarrow> bytes"
  b64_decode :: "bytes \<Rightarrow> bytes option"
  b64_encode :: "bytes \<Rightarrow> bytes"
  sha256 :: "bytes \<Rightarrow> bytes"
  json_parse :: "bytes \<Rightarrow> json option"
  sec1_valid :: "bytes \<Rightarrow> bool"
  der_signature :: "bytes \<Rightarrow> bytes option"
  p256_verify :: "bytes \<Rightarrow> bytes \<Rightarrow> bytes \<Rightarrow> bool"

definition crypto_laws :: "crypto \<Rightarrow> bool" where
  "crypto_laws cr \<longleftrightarrow>
     (\<forall>b. b64u_decode cr (b64u_encode cr b) = Some b) \<and> (\<forall>b. b64_decode cr (b64_encode cr b) = Some b) \<and>
     (\<forall>b. length (sha256 cr b) = 32)"

lemma crypto_lawsD:
  assumes "crypto_laws cr"
  shows "b64u_decode cr (b64u_encode cr b) = Some b" "b64_decode cr (b64_encode cr b) = Some b"
    "length (sha256 cr b) = 32"
  using assms by (auto simp: crypto_laws_def)

lemma b64u_encode_inj: "crypto_laws cr \<Longrightarrow> b64u_encode cr a = b64u_encode cr b \<longleftrightarrow> a = b"
  by (metis crypto_lawsD(1) option.inject)

lemma b64_encode_inj: "crypto_laws cr \<Longrightarrow> b64_encode cr a = b64_encode cr b \<longleftrightarrow> a = b"
  by (metis crypto_lawsD(2) option.inject)

section \<open>Challenges\<close>

definition CHALLENGE_LEN :: nat where "CHALLENGE_LEN = 32"

definition to_b64url :: "crypto \<Rightarrow> bytes \<Rightarrow> bytes" where
  "to_b64url cr challenge = b64u_encode cr challenge"

definition from_b64url :: "crypto \<Rightarrow> bytes \<Rightarrow> bytes option" where
  "from_b64url cr s =
     (case b64u_decode cr s of
        None \<Rightarrow> None
      | Some v \<Rightarrow> if length v \<noteq> CHALLENGE_LEN then None else Some v)"

section \<open>Client data\<close>

datatype client_data_error =
    CdJson
  | CdNotObject
  | CdMissingField string
  | CdNotString string
  | CdWrongType (cd_expected: bytes) (cd_got: bytes)
  | CdChallengeMismatch
  | CdOriginMismatch (cd_expected: bytes) (cd_got: bytes)

definition TYPE_CREATE :: bytes where "TYPE_CREATE = bstr ''webauthn.create''"
definition TYPE_GET :: bytes where "TYPE_GET = bstr ''webauthn.get''"

definition constant_time_eq :: "bytes \<Rightarrow> bytes \<Rightarrow> bool" where
  "constant_time_eq a b = (if length a \<noteq> length b then False else ct_diff a b = 0)"

fun as_object :: "json \<Rightarrow> (bytes \<times> json) list option" where
  "as_object (JObject m) = Some m"
| "as_object _ = None"

fun as_str :: "json \<Rightarrow> bytes option" where
  "as_str (JString s) = Some s"
| "as_str _ = None"

definition str_field :: "(bytes \<times> json) list \<Rightarrow> string \<Rightarrow> client_data_error + bytes" where
  "str_field obj name =
     bindE (ok_orE (map_of obj (bstr name)) (CdMissingField name)) (\<lambda>v. ok_orE (as_str v) (CdNotString name))"

definition validate ::
    "crypto \<Rightarrow> bytes \<Rightarrow> bytes \<Rightarrow> bytes \<Rightarrow> bytes \<Rightarrow> client_data_error + unit" where
  "validate cr client_data_json expected_type expected_challenge_b64u expected_origin =
     bindE (ok_orE (json_parse cr client_data_json) CdJson) (\<lambda>v.
     bindE (ok_orE (as_object v) CdNotObject) (\<lambda>obj.
     bindE (str_field obj ''type'') (\<lambda>ty.
     bindE (failE (ty \<noteq> expected_type) 
       (CdWrongType (if expected_type = TYPE_CREATE then bstr ''webauthn.create'' else bstr ''webauthn.get'') ty)) (\<lambda>_.
     bindE (str_field obj ''challenge'') (\<lambda>chal.
     bindE (failE (\<not> constant_time_eq chal expected_challenge_b64u) CdChallengeMismatch) (\<lambda>_.
     bindE (str_field obj ''origin'') (\<lambda>origin.
     failE (origin \<noteq> expected_origin) (CdOriginMismatch expected_origin origin))))))))"

section \<open>Options sent to the browser\<close>

record relying_party =
  rp_id :: bytes
  rp_name :: bytes

record user_info =
  ui_id :: bytes
  ui_name :: bytes
  ui_display_name :: bytes

record pub_key_cred_param =
  pk_ty :: bytes
  pk_alg :: int

record creation_options =
  co_rp :: relying_party
  co_user :: user_info
  co_challenge :: bytes
  co_pub_key_cred_params :: "pub_key_cred_param list"
  co_user_verification :: bytes
  co_attestation :: bytes
  co_timeout :: u32

definition creation_options_build ::
    "crypto \<Rightarrow> bytes \<Rightarrow> bytes \<Rightarrow> bytes \<Rightarrow> bytes \<Rightarrow> bytes \<Rightarrow> bytes \<Rightarrow> creation_options" where
  "creation_options_build cr rpid rpname user_id_16 user_name display_name challenge =
     \<lparr>co_rp = \<lparr>rp_id = rpid, rp_name = rpname\<rparr>,
      co_user = \<lparr>ui_id = b64u_encode cr user_id_16, ui_name = user_name, ui_display_name = display_name\<rparr>,
      co_challenge = to_b64url cr challenge,
      co_pub_key_cred_params = [\<lparr>pk_ty = bstr ''public-key'', pk_alg = ES256_ALG\<rparr>],
      co_user_verification = bstr ''discouraged'', co_attestation = bstr ''none'', co_timeout = 60000\<rparr>"

record allowed_credential =
  al_ty :: bytes
  al_id :: bytes

record request_options =
  ro_challenge :: bytes
  ro_timeout :: u32
  ro_rp_id :: bytes
  ro_allow_credentials :: "allowed_credential list"
  ro_user_verification :: bytes

definition request_options_build :: "crypto \<Rightarrow> bytes \<Rightarrow> bytes \<Rightarrow> bytes list \<Rightarrow> request_options" where
  "request_options_build cr rpid challenge allow =
     \<lparr>ro_challenge = to_b64url cr challenge, ro_timeout = 60000, ro_rp_id = rpid,
      ro_allow_credentials = map (\<lambda>raw. \<lparr>al_ty = bstr ''public-key'', al_id = b64u_encode cr raw\<rparr>) allow,
      ro_user_verification = bstr ''discouraged''\<rparr>"

section \<open>Ceremonies\<close>

datatype webauthn_error =
    WaBase64 string
  | WaWrongType bytes
  | WaAttestationObject
  | WaCbor cbor_error
  | WaAuthData auth_data_error
  | WaClientData client_data_error
  | RpIdHashMismatch
  | UserPresenceNotSet
  | SignatureInvalid
  | UnknownCredential
  | SignCountRegression u32 u32
  | InvalidStoredPubkey

record registration_inner =
  ri_client_data_json :: bytes
  ri_attestation_object :: bytes

record registration_response =
  rr_id :: bytes
  rr_raw_id :: bytes
  rr_ty :: bytes
  rr_response :: registration_inner

record authentication_inner =
  ai_client_data_json :: bytes
  ai_authenticator_data :: bytes
  ai_signature :: bytes
  ai_user_handle :: "bytes option"

record authentication_response =
  ar_id :: bytes
  ar_raw_id :: bytes
  ar_ty :: bytes
  ar_response :: authentication_inner

record registered_credential =
  rc_credential_id :: bytes
  rc_public_key :: bytes
  rc_sign_count :: u32

record authenticated_credential =
  au_credential_id :: bytes
  au_new_sign_count :: u32
  au_sign_count_advanced :: bool

record stored_credential_view =
  sv_public_key :: bytes
  sv_sign_count :: u32

definition b64u :: "crypto \<Rightarrow> bytes \<Rightarrow> string \<Rightarrow> webauthn_error + bytes" where
  "b64u cr s field_name = ok_orE (b64u_decode cr s) (WaBase64 field_name)"

definition check_rp_id_hash :: "crypto \<Rightarrow> bytes \<Rightarrow> bytes \<Rightarrow> webauthn_error + unit" where
  "check_rp_id_hash cr got rpid = failE (ct_diff got (sha256 cr rpid) \<noteq> 0) RpIdHashMismatch"

definition auth_data_entry :: "bytes option \<times> bytes \<Rightarrow> cbor_error + bytes option \<times> bytes" where
  "auth_data_entry = (\<lambda>(found, buf).
     bindE (read_text buf) (\<lambda>(key, buf).
       if key = bstr ''authData''
       then bindE (read_bytes buf) (\<lambda>(v, buf). Inr (Some v, buf))
       else bindE (skip_value buf) (\<lambda>buf. Inr (found, buf))))"

definition extract_auth_data :: "bytes \<Rightarrow> webauthn_error + bytes" where
  "extract_auth_data att_obj =
     bindE (map_errE WaCbor (read_map_header att_obj)) (\<lambda>(n, buf).
     bindE (map_errE WaCbor (repeatE (unat n) auth_data_entry (None, buf))) (\<lambda>(found, _).
       ok_orE found WaAttestationObject))"

definition finish_register ::
    "crypto \<Rightarrow> registration_response \<Rightarrow> bytes \<Rightarrow> bytes \<Rightarrow> bytes \<Rightarrow> webauthn_error + registered_credential" where
  "finish_register cr response expected_challenge rpid expected_origin =
     bindE (failE (rr_ty response \<noteq> bstr ''public-key'') (WaWrongType (rr_ty response))) (\<lambda>_.
     bindE (b64u cr (ri_client_data_json (rr_response response)) ''clientDataJSON'') (\<lambda>client_data.
     bindE (map_errE WaClientData
       (validate cr client_data TYPE_CREATE (to_b64url cr expected_challenge) expected_origin)) (\<lambda>_.
     bindE (b64u cr (ri_attestation_object (rr_response response)) ''attestationObject'') (\<lambda>attestation_object.
     bindE (extract_auth_data attestation_object) (\<lambda>auth_data.
     bindE (map_errE WaAuthData (parse_attested auth_data)) (\<lambda>parsed.
     bindE (check_rp_id_hash cr (rp_id_hash (ac_prefix parsed)) rpid) (\<lambda>_.
     bindE (failE (\<not> user_present (ac_prefix parsed)) UserPresenceNotSet) (\<lambda>_.
       Inr \<lparr>rc_credential_id = ac_credential_id parsed, rc_public_key = ac_public_key parsed,
            rc_sign_count = sign_count (ac_prefix parsed)\<rparr>))))))))"

definition finish_authenticate ::
    "crypto \<Rightarrow> authentication_response \<Rightarrow> bytes \<Rightarrow> bytes \<Rightarrow> bytes \<Rightarrow> (bytes \<Rightarrow> stored_credential_view option)
       \<Rightarrow> webauthn_error + authenticated_credential" where
  "finish_authenticate cr response expected_challenge rpid expected_origin find_credential =
     bindE (failE (ar_ty response \<noteq> bstr ''public-key'') (WaWrongType (ar_ty response))) (\<lambda>_.
     bindE (b64u cr (ar_raw_id response) ''rawId'') (\<lambda>raw_id.
     bindE (b64u cr (ai_client_data_json (ar_response response)) ''clientDataJSON'') (\<lambda>client_data.
     bindE (map_errE WaClientData
       (validate cr client_data TYPE_GET (to_b64url cr expected_challenge) expected_origin)) (\<lambda>_.
     bindE (b64u cr (ai_authenticator_data (ar_response response)) ''authenticatorData'') (\<lambda>auth_data.
     bindE (b64u cr (ai_signature (ar_response response)) ''signature'') (\<lambda>signature.
     bindE (map_errE WaAuthData (parse_prefix auth_data)) (\<lambda>prefix.
     bindE (check_rp_id_hash cr (rp_id_hash prefix) rpid) (\<lambda>_.
     bindE (failE (\<not> user_present prefix) UserPresenceNotSet) (\<lambda>_.
     bindE (ok_orE (find_credential raw_id) UnknownCredential) (\<lambda>stored.
     let msg = auth_data @ sha256 cr client_data in
     bindE (failE (\<not> sec1_valid cr (sv_public_key stored)) InvalidStoredPubkey) (\<lambda>_.
     bindE (ok_orE (der_signature cr signature) SignatureInvalid) (\<lambda>sig.
     bindE (failE (\<not> p256_verify cr (sv_public_key stored) msg sig) SignatureInvalid) (\<lambda>_.
     let advanced = sign_count prefix > sv_sign_count stored in
     bindE (failE (\<not> advanced \<and> sign_count prefix \<noteq> 0)
       (SignCountRegression (sign_count prefix) (sv_sign_count stored))) (\<lambda>_.
       Inr \<lparr>au_credential_id = raw_id, au_new_sign_count = sign_count prefix,
            au_sign_count_advanced = advanced\<rparr>))))))))))))))"

section \<open>What the ceremonies accept\<close>

lemma constant_time_eq_iff [simp]: "constant_time_eq a b \<longleftrightarrow> a = b"
  by (auto simp: constant_time_eq_def ct_diff_0_iff)

lemma as_object_iff [simp]: "as_object v = Some m \<longleftrightarrow> v = JObject m"
  by (cases v) auto

lemma as_str_iff [simp]: "as_str v = Some m \<longleftrightarrow> v = JString m"
  by (cases v) auto

lemma str_field_iff [simp]: "str_field obj name = Inr s \<longleftrightarrow> map_of obj (bstr name) = Some (JString s)"
  by (auto simp: str_field_def bindE_Inr_iff)

text \<open>The client data states the type of the ceremony, a challenge and an origin.\<close>

definition client_data_says :: "crypto \<Rightarrow> bytes \<Rightarrow> bytes \<Rightarrow> bytes \<Rightarrow> bytes \<Rightarrow> bool" where
  "client_data_says cr client_data ty chal origin \<longleftrightarrow>
     (\<exists>obj. json_parse cr client_data = Some (JObject obj) \<and>
        map_of obj (bstr ''type'') = Some (JString ty) \<and>
        map_of obj (bstr ''challenge'') = Some (JString chal) \<and>
        map_of obj (bstr ''origin'') = Some (JString origin))"

lemma validate_iff:
  "validate cr client_data ty chal origin = Inr u \<longleftrightarrow> client_data_says cr client_data ty chal origin"
  by (auto simp: validate_def client_data_says_def bindE_Inr_iff)

lemma client_data_says_unique:
  "client_data_says cr cd ty chal origin \<Longrightarrow> client_data_says cr cd ty' chal' origin' \<Longrightarrow>
   ty = ty' \<and> chal = chal' \<and> origin = origin'"
  by (auto simp: client_data_says_def)

lemma check_rp_id_hash_iff:
  "crypto_laws cr \<Longrightarrow> length h = 32 \<Longrightarrow> check_rp_id_hash cr h rpid = Inr u \<longleftrightarrow> h = sha256 cr rpid"
  by (simp add: check_rp_id_hash_def ct_diff_0_iff crypto_lawsD)

text \<open>The authenticator data of a ceremony with a touch, for the relying party \<open>rpid\<close>.\<close>

definition touched_for :: "crypto \<Rightarrow> bytes \<Rightarrow> bytes \<Rightarrow> u32 \<Rightarrow> bool" where
  "touched_for cr rpid auth_data n \<longleftrightarrow>
     (\<exists>fl rest. auth_data = sha256 cr rpid @ [fl] @ be32 n @ rest \<and> fl AND FLAG_UP \<noteq> 0)"

lemma touched_iff:
  assumes "crypto_laws cr"
  shows "(\<exists>p. parse_prefix d = Inr p \<and> check_rp_id_hash cr (rp_id_hash p) rpid = Inr () \<and> user_present p \<and> sign_count p = n)
    \<longleftrightarrow> touched_for cr rpid d n"
proof
  assume "\<exists>p. parse_prefix d = Inr p \<and> check_rp_id_hash cr (rp_id_hash p) rpid = Inr () \<and> user_present p \<and> sign_count p = n"
  then show "touched_for cr rpid d n"
    by (auto simp: parse_prefix_iff check_rp_id_hash_iff [OF assms] touched_for_def user_present_def)
next
  assume "touched_for cr rpid d n"
  then obtain fl rest where "d = sha256 cr rpid @ [fl] @ be32 n @ rest" "fl AND FLAG_UP \<noteq> 0"
    by (auto simp: touched_for_def)
  then show "\<exists>p. parse_prefix d = Inr p \<and> check_rp_id_hash cr (rp_id_hash p) rpid = Inr () \<and> user_present p \<and> sign_count p = n"
    using assms
    by (intro exI [of _ "\<lparr>rp_id_hash = sha256 cr rpid, ad_flags = fl, sign_count = n\<rparr>"])
      (simp add: parse_prefix_iff check_rp_id_hash_iff crypto_lawsD user_present_def)
qed

text \<open>An assertion signed with the stored key for the issued challenge.\<close>

definition good_assertion ::
    "crypto \<Rightarrow> authentication_response \<Rightarrow> bytes \<Rightarrow> bytes \<Rightarrow> bytes \<Rightarrow> bytes \<Rightarrow> stored_credential_view \<Rightarrow> u32 \<Rightarrow> bool" where
  "good_assertion cr r challenge rpid origin raw_id stored n \<longleftrightarrow>
     ar_ty r = bstr ''public-key'' \<and> b64u_decode cr (ar_raw_id r) = Some raw_id \<and>
     (\<exists>client_data auth_data signature sig.
        b64u_decode cr (ai_client_data_json (ar_response r)) = Some client_data \<and>
        client_data_says cr client_data TYPE_GET (b64u_encode cr challenge) origin \<and>
        b64u_decode cr (ai_authenticator_data (ar_response r)) = Some auth_data \<and>
        touched_for cr rpid auth_data n \<and>
        b64u_decode cr (ai_signature (ar_response r)) = Some signature \<and> der_signature cr signature = Some sig \<and>
        sec1_valid cr (sv_public_key stored) \<and>
        p256_verify cr (sv_public_key stored) (auth_data @ sha256 cr client_data) sig) \<and>
     (n = 0 \<or> sv_sign_count stored < n)"

lemma finish_authenticate_iff:
  assumes "crypto_laws cr"
  shows "finish_authenticate cr r challenge rpid origin find_credential = Inr a \<longleftrightarrow>
    (\<exists>stored. find_credential (au_credential_id a) = Some stored \<and>
       good_assertion cr r challenge rpid origin (au_credential_id a) stored (au_new_sign_count a) \<and>
       au_sign_count_advanced a = (sv_sign_count stored < au_new_sign_count a))"
  (is "?l \<longleftrightarrow> ?r")
proof
  assume ?l
  then obtain p stored client_data auth_data signature sig where *:
    "ar_ty r = bstr ''public-key''" "b64u_decode cr (ar_raw_id r) = Some (au_credential_id a)"
    "b64u_decode cr (ai_client_data_json (ar_response r)) = Some client_data"
    "client_data_says cr client_data TYPE_GET (b64u_encode cr challenge) origin"
    "b64u_decode cr (ai_authenticator_data (ar_response r)) = Some auth_data"
    "parse_prefix auth_data = Inr p" "check_rp_id_hash cr (rp_id_hash p) rpid = Inr ()" "user_present p"
    "sign_count p = au_new_sign_count a"
    "b64u_decode cr (ai_signature (ar_response r)) = Some signature" "der_signature cr signature = Some sig"
    "find_credential (au_credential_id a) = Some stored" "sec1_valid cr (sv_public_key stored)"
    "p256_verify cr (sv_public_key stored) (auth_data @ sha256 cr client_data) sig"
    "au_new_sign_count a = 0 \<or> sv_sign_count stored < au_new_sign_count a"
    "au_sign_count_advanced a = (sv_sign_count stored < au_new_sign_count a)"
    by (auto simp: finish_authenticate_def b64u_def bindE_Inr_iff validate_iff to_b64url_def Let_def)
  then have "touched_for cr rpid auth_data (au_new_sign_count a)" using touched_iff [OF assms] by blast
  with * show ?r by (auto simp: good_assertion_def)
next
  assume ?r
  then obtain p stored client_data auth_data signature sig where *:
    "ar_ty r = bstr ''public-key''" "b64u_decode cr (ar_raw_id r) = Some (au_credential_id a)"
    "b64u_decode cr (ai_client_data_json (ar_response r)) = Some client_data"
    "client_data_says cr client_data TYPE_GET (b64u_encode cr challenge) origin"
    "b64u_decode cr (ai_authenticator_data (ar_response r)) = Some auth_data"
    "parse_prefix auth_data = Inr p" "check_rp_id_hash cr (rp_id_hash p) rpid = Inr ()" "user_present p"
    "sign_count p = au_new_sign_count a"
    "b64u_decode cr (ai_signature (ar_response r)) = Some signature" "der_signature cr signature = Some sig"
    "find_credential (au_credential_id a) = Some stored" "sec1_valid cr (sv_public_key stored)"
    "p256_verify cr (sv_public_key stored) (auth_data @ sha256 cr client_data) sig"
    "au_new_sign_count a = 0 \<or> sv_sign_count stored < au_new_sign_count a"
    "au_sign_count_advanced a = (sv_sign_count stored < au_new_sign_count a)"
    unfolding good_assertion_def touched_iff [OF assms, symmetric] by blast
  then have "validate cr client_data TYPE_GET (to_b64url cr challenge) origin = Inr ()"
    by (simp add: validate_iff to_b64url_def)
  with * show ?l by (auto simp: finish_authenticate_def b64u_def)
qed

text \<open>An attestation object is a map from text to values, in which the last \<open>authData\<close> counts.\<close>

fun att_entry_enc :: "bytes \<times> bytes option \<Rightarrow> bytes \<Rightarrow> bool" where
  "att_entry_enc (k, Some v) b \<longleftrightarrow> k = bstr ''authData'' \<and> utf8_valid k \<and>
     (\<exists>h1 h2. b = h1 @ h2 \<and> str_enc 3 k h1 \<and> str_enc 2 v h2)"
| "att_entry_enc (k, None) b \<longleftrightarrow> k \<noteq> bstr ''authData'' \<and> utf8_valid k \<and>
     (\<exists>h1 i. b = h1 @ i \<and> str_enc 3 k h1 \<and> cbor_item 7 i)"

fun set_auth_data :: "bytes \<times> bytes option \<Rightarrow> bytes option \<Rightarrow> bytes option" where
  "set_auth_data (k, Some v) found = Some v"
| "set_auth_data (k, None) found = found"

lemma auth_data_entry_iff:
  "auth_data_entry (found, b) = Inr t \<longleftrightarrow>
     (\<exists>e x. b = x @ snd t \<and> att_entry_enc e x \<and> fst t = set_auth_data e found)"
proof
  assume "auth_data_entry (found, b) = Inr t"
  then obtain k r h where k: "b = h @ r" "str_enc 3 k h" "utf8_valid k" and t:
    "(if k = bstr ''authData'' then bindE (read_bytes r) (\<lambda>(v, buf). Inr (Some v, buf))
      else bindE (skip_value r) (\<lambda>buf. Inr (found, buf))) = Inr t"
    unfolding auth_data_entry_def by (auto simp only: bindE_Inr_iff prod.case split_paired_all read_text_iff)
  show "\<exists>e x. b = x @ snd t \<and> att_entry_enc e x \<and> fst t = set_auth_data e found"
  proof (cases "k = bstr ''authData''")
    case True
    with t obtain v h2 where "r = h2 @ snd t" "str_enc 2 v h2" "fst t = Some v"
      by (auto simp: bindE_Inr_iff read_bytes_iff)
    with True k show ?thesis by (intro exI [of _ "(k, Some v)"] exI [of _ "h @ h2"]) auto
  next
    case False
    with t obtain i where "r = i @ snd t" "cbor_item 7 i" "fst t = found"
      by (auto simp: bindE_Inr_iff skip_value_iff)
    with False k show ?thesis by (intro exI [of _ "(k, None)"] exI [of _ "h @ i"]) auto
  qed
next
  assume "\<exists>e x. b = x @ snd t \<and> att_entry_enc e x \<and> fst t = set_auth_data e found"
  then obtain k v x where e: "b = x @ snd t" "att_entry_enc (k, v) x" "fst t = set_auth_data (k, v) found" by auto
  have rd: "str_enc 3 k h \<Longrightarrow> utf8_valid k \<Longrightarrow> read_text (h @ r) = Inr (k, r)"
    "str_enc 2 s h \<Longrightarrow> read_bytes (h @ r) = Inr (s, r)"
    "cbor_item 7 h \<Longrightarrow> skip_value (h @ r) = Inr r" for k h r s
    by (auto simp: read_text_iff read_bytes_iff skip_value_iff)
  from e show "auth_data_entry (found, b) = Inr t"
    by (cases v) (auto simp: auth_data_entry_def rd prod_eq_iff)
qed

definition attestation_object :: "bytes \<Rightarrow> bytes \<Rightarrow> bool" where
  "attestation_object b auth_data \<longleftrightarrow>
     (\<exists>n h es xs rest. b = h @ concat xs @ rest \<and> head_enc 5 n h \<and> length es = unat n \<and>
        list_all2 att_entry_enc es xs \<and> fold set_auth_data es None = Some auth_data)"

lemma extract_auth_data_iff: "extract_auth_data b = Inr d \<longleftrightarrow> attestation_object b d"
proof -
  note loop = repeatE_iff [of auth_data_entry att_entry_enc set_auth_data, OF auth_data_entry_iff]
  show ?thesis
    by (auto simp: extract_auth_data_def attestation_object_def bindE_Inr_iff read_map_header_iff loop)
      (metis append.assoc fst_conv snd_conv)+
qed

text \<open>A response to \<open>navigator.credentials.create\<close> for the issued challenge.\<close>

definition good_registration ::
    "crypto \<Rightarrow> registration_response \<Rightarrow> bytes \<Rightarrow> bytes \<Rightarrow> bytes \<Rightarrow> attested_credential_data \<Rightarrow> bool" where
  "good_registration cr r challenge rpid origin a \<longleftrightarrow>
     rr_ty r = bstr ''public-key'' \<and>
     (\<exists>client_data att_obj auth_data key.
        b64u_decode cr (ri_client_data_json (rr_response r)) = Some client_data \<and>
        client_data_says cr client_data TYPE_CREATE (b64u_encode cr challenge) origin \<and>
        b64u_decode cr (ri_attestation_object (rr_response r)) = Some att_obj \<and>
        attestation_object att_obj auth_data \<and>
        attested_enc auth_data a key \<and> decode_es256 key = Inr (ac_public_key a) \<and>
        (\<exists>i rest. key = i @ rest \<and> cbor_item 7 i)) \<and>
     rp_id_hash (ac_prefix a) = sha256 cr rpid \<and> user_present (ac_prefix a)"

lemma finish_register_iff:
  assumes "crypto_laws cr"
  shows "finish_register cr r challenge rpid origin = Inr c \<longleftrightarrow>
    (\<exists>a. good_registration cr r challenge rpid origin a \<and>
       c = \<lparr>rc_credential_id = ac_credential_id a, rc_public_key = ac_public_key a,
            rc_sign_count = sign_count (ac_prefix a)\<rparr>)"
proof -
  have hash: "attested_enc d a key \<Longrightarrow>
      check_rp_id_hash cr (rp_id_hash (ac_prefix a)) rpid = Inr () \<longleftrightarrow> rp_id_hash (ac_prefix a) = sha256 cr rpid" for d a key
    by (simp add: attested_enc_def check_rp_id_hash_iff [OF assms])
  show ?thesis
    unfolding finish_register_def good_registration_def
    by (simp add: b64u_def bindE_Inr_iff validate_iff to_b64url_def extract_auth_data_iff parse_attested_iff)
      (metis (no_types, lifting) hash)
qed

section \<open>Properties\<close>


text \<open>
  A response is good for one login only: a response that is accepted for two challenges, relying
  parties and origins is accepted for the same challenge, the same origin and relying parties with
  the same hash, and names the same credential; the response of a registration ceremony is never
  accepted as a login.
\<close>

theorem assertion_bound_to_challenge:
  assumes "crypto_laws cr"
    and "finish_authenticate cr r c1 rp1 o1 f1 = Inr a1"
  shows "(finish_authenticate cr r c2 rp2 o2 f2 = Inr a2 \<longrightarrow>
            c1 = c2 \<and> o1 = o2 \<and> sha256 cr rp1 = sha256 cr rp2 \<and> au_credential_id a1 = au_credential_id a2) \<and>
         (ri_client_data_json (rr_response g) = ai_client_data_json (ar_response r) \<longrightarrow>
            (\<forall>c. finish_register cr g c2 rp2 o2 \<noteq> Inr c))"
proof -
  note iff = finish_authenticate_iff [OF assms(1)]
  have hash: "touched_for cr rp1 d n \<Longrightarrow> touched_for cr rp2 d m \<Longrightarrow> sha256 cr rp1 = sha256 cr rp2" for d n m
    using crypto_lawsD(3) [OF assms(1)] by (auto simp: touched_for_def append_eq_append_conv)
  obtain cd d n where 1: "b64u_decode cr (ai_client_data_json (ar_response r)) = Some cd"
    "client_data_says cr cd TYPE_GET (b64u_encode cr c1) o1"
    "b64u_decode cr (ai_authenticator_data (ar_response r)) = Some d" "touched_for cr rp1 d n"
    "b64u_decode cr (ar_raw_id r) = Some (au_credential_id a1)"
    using assms(2) unfolding iff good_assertion_def by blast
  have "c1 = c2 \<and> o1 = o2 \<and> sha256 cr rp1 = sha256 cr rp2 \<and> au_credential_id a1 = au_credential_id a2"
    if two: "finish_authenticate cr r c2 rp2 o2 f2 = Inr a2"
  proof -
    obtain m where 2: "client_data_says cr cd TYPE_GET (b64u_encode cr c2) o2" "touched_for cr rp2 d m"
      "b64u_decode cr (ar_raw_id r) = Some (au_credential_id a2)"
      using two 1 unfolding iff good_assertion_def by auto
    show ?thesis
      using client_data_says_unique [OF 1(2) 2(1)] hash [OF 1(4) 2(2)] 1(5) 2(3) b64u_encode_inj [OF assms(1)] by auto
  qed
  moreover have "finish_register cr g c2 rp2 o2 \<noteq> Inr c"
    if "ri_client_data_json (rr_response g) = ai_client_data_json (ar_response r)" for c
  proof
    assume "finish_register cr g c2 rp2 o2 = Inr c"
    then have "client_data_says cr cd TYPE_CREATE (b64u_encode cr c2) o2"
      using that 1 by (auto simp: finish_register_iff [OF assms(1)] good_registration_def)
    from client_data_says_unique [OF 1(2) this] show False
      by (simp add: TYPE_GET_def TYPE_CREATE_def bstr_def)
  qed
  ultimately show ?thesis by blast
qed

text \<open>
  C34. A registration is accepted if and only if its client data is of type webauthn.create with the
  challenge of the envelope and the configured origin and its attestation object is a CBOR map whose
  last authData field holds attested credential data for the relying party, with the user-presence
  bit; what is returned is the credential id, the P-256 key and the counter found there.
\<close>

theorem registration_spec:
  "crypto_laws cr \<Longrightarrow>
   finish_register cr r challenge rpid origin = Inr c \<longleftrightarrow>
     (\<exists>a. good_registration cr r challenge rpid origin a \<and>
        c = \<lparr>rc_credential_id = ac_credential_id a, rc_public_key = ac_public_key a,
             rc_sign_count = sign_count (ac_prefix a)\<rparr>)"
  by (rule finish_register_iff)

text \<open>A counter that falls back to zero is accepted, although the stored one is not zero.\<close>

lemma zero_counter_accepted:
  assumes "crypto_laws cr" "good_assertion cr r challenge rpid origin raw_id stored 0" "find_credential raw_id = Some stored"
  shows "finish_authenticate cr r challenge rpid origin find_credential =
    Inr \<lparr>au_credential_id = raw_id, au_new_sign_count = 0, au_sign_count_advanced = False\<rparr>"
  using assms by (simp add: finish_authenticate_iff)

section \<open>Examples\<close>

text \<open>
  A concrete instance of the libraries: the alphabets encode a byte string as itself, the digest pads
  or cuts to 32 bytes, the JSON parser knows one document per ceremony, and a signature of a
  message is the message under the key's second byte.
\<close>

definition demo_client_data :: "bytes \<Rightarrow> json" where
  "demo_client_data ty =
     JObject [(bstr ''type'', JString ty), (bstr ''challenge'', JString (replicate 32 7)),
              (bstr ''origin'', JString (bstr ''https://h''))]"

definition demo_crypto :: crypto where
  "demo_crypto =
     \<lparr>b64u_decode = Some, b64u_encode = (\<lambda>b. b), b64_decode = Some, b64_encode = (\<lambda>b. b),
      sha256 = (\<lambda>b. take 32 (b @ replicate 32 0)),
      json_parse = (\<lambda>b. if b = [1] then Some (demo_client_data TYPE_CREATE)
                        else if b = [2] then Some (demo_client_data TYPE_GET) else None),
      sec1_valid = (\<lambda>k. length k = 65), der_signature = Some,
      p256_verify = (\<lambda>k m s. s = k ! 1 # m)\<rparr>"

lemma demo_crypto_laws [simp]: "crypto_laws demo_crypto"
  by (auto simp: crypto_laws_def demo_crypto_def min_def)

definition demo_auth_data :: bytes where
  "demo_auth_data = sha256 demo_crypto (bstr ''h'') @ [1] @ be32 9"

definition demo_key :: bytes where "demo_key = 4 # replicate 64 5"

definition demo_assertion :: authentication_response where
  "demo_assertion =
     \<lparr>ar_id = [3], ar_raw_id = [3], ar_ty = bstr ''public-key'',
      ar_response = \<lparr>ai_client_data_json = [2], ai_authenticator_data = demo_auth_data,
        ai_signature = 5 # demo_auth_data @ sha256 demo_crypto [2], ai_user_handle = None\<rparr>\<rparr>"

definition demo_find :: "bytes \<Rightarrow> stored_credential_view option" where
  "demo_find i = (if i = [3] then Some \<lparr>sv_public_key = demo_key, sv_sign_count = 8\<rparr> else None)"

lemma demo_assertion_good:
  "good_assertion demo_crypto demo_assertion (replicate 32 7) (bstr ''h'') (bstr ''https://h'') [3]
     \<lparr>sv_public_key = demo_key, sv_sign_count = 8\<rparr> 9"
  unfolding good_assertion_def touched_for_def client_data_says_def demo_assertion_def demo_auth_data_def
  by (simp add: demo_crypto_def demo_client_data_def demo_key_def bstr_def FLAG_UP_def TYPE_GET_def)


definition demo_registration :: registration_response where
  "demo_registration =
     \<lparr>rr_id = [3], rr_raw_id = [3], rr_ty = bstr ''public-key'',
      rr_response = \<lparr>ri_client_data_json = [2], ri_attestation_object = []\<rparr>\<rparr>"

theorem assertion_bound_to_challenge_witness:
  "crypto_laws demo_crypto \<and>
   finish_authenticate demo_crypto demo_assertion (replicate 32 7) (bstr ''h'') (bstr ''https://h'') demo_find =
     Inr \<lparr>au_credential_id = [3], au_new_sign_count = 9, au_sign_count_advanced = True\<rparr> \<and>
   (\<forall>a. finish_authenticate demo_crypto demo_assertion (replicate 32 8) (bstr ''h'') (bstr ''https://h'') demo_find \<noteq> Inr a) \<and>
   (\<forall>c. finish_register demo_crypto demo_registration (replicate 32 7) (bstr ''h'') (bstr ''https://h'') \<noteq> Inr c)"
proof -
  have ok: "finish_authenticate demo_crypto demo_assertion (replicate 32 7) (bstr ''h'') (bstr ''https://h'') demo_find =
     Inr \<lparr>au_credential_id = [3], au_new_sign_count = 9, au_sign_count_advanced = True\<rparr>"
    using demo_assertion_good by (simp add: finish_authenticate_iff demo_find_def)
  note bound = assertion_bound_to_challenge [OF demo_crypto_laws ok]
  have ne: "replicate 32 (7 :: u8) \<noteq> replicate 32 8" by simp
  have "finish_authenticate demo_crypto demo_assertion (replicate 32 8) (bstr ''h'') (bstr ''https://h'') demo_find \<noteq> Inr a" for a
    using bound ne by blast
  moreover have "ri_client_data_json (rr_response demo_registration) = ai_client_data_json (ar_response demo_assertion)"
    by (simp add: demo_registration_def demo_assertion_def)
  then have "finish_register demo_crypto demo_registration (replicate 32 7) (bstr ''h'') (bstr ''https://h'') \<noteq> Inr c" for c
    using bound [of _ _ _ _ _ demo_registration] by blast
  ultimately show ?thesis using ok demo_crypto_laws by blast
qed

text \<open>An attestation object \<open>{authData: ...}\<close> with a COSE key of five entries.\<close>

definition demo_cose_key :: bytes where
  "demo_cose_key = [0xA5, 1, 2, 3, 0x26, 0x20, 1, 0x21, 0x58, 32] @ replicate 32 5 @ [0x22, 0x58, 32] @ replicate 32 5"

definition demo_attested :: bytes where
  "demo_attested = sha256 demo_crypto (bstr ''h'') @ [0x41] @ be32 8 @ replicate 16 0 @ [0, 1, 3] @ demo_cose_key"

definition demo_creation :: registration_response where
  "demo_creation =
     \<lparr>rr_id = [3], rr_raw_id = [3], rr_ty = bstr ''public-key'',
      rr_response = \<lparr>ri_client_data_json = [1],
        ri_attestation_object = [0xA1, 0x68] @ bstr ''authData'' @ [0x58, 133] @ demo_attested\<rparr>\<rparr>"

lemma demo_creation_accepted:
  "finish_register demo_crypto demo_creation (replicate 32 7) (bstr ''h'') (bstr ''https://h'') =
     Inr \<lparr>rc_credential_id = [3], rc_public_key = demo_key, rc_sign_count = 8\<rparr>"
  by code_simp

theorem registration_spec_witness:
  "crypto_laws demo_crypto \<and>
   (\<exists>a. good_registration demo_crypto demo_creation (replicate 32 7) (bstr ''h'') (bstr ''https://h'') a \<and>
      ac_credential_id a = [3] \<and> ac_public_key a = demo_key \<and> sign_count (ac_prefix a) = 8)"
  using demo_creation_accepted by (auto simp: registration_spec)

end
