(* ===== verification/Data_Dir.thy ===== *)
theory Data_Dir
  imports Webauthn_Verify
begin

text \<open>
  The hub's data directory: the two JSON stores (\<open>credentials.json\<close> of \<open>common/src/creds.rs\<close>,
  \<open>issued-certs.json\<close> of \<open>common/src/issued_certs.rs\<close>) and the secret of the registration
  envelopes.

  A store file is the file and its temporary sibling, each with its bytes or missing. \<open>save_fault\<close> says at
  which system call a save fails or the machine stops; serialisation is the argument \<open>codec\<close>, of which
  \<open>codec_ok\<close> states what is relied on: what is written can be parsed back, and is text that is not blank.

  Both stores are written to the sibling and renamed over the file, and every writer runs its load,
  change and save under an exclusive lock. The locale \<open>atomic_store\<close> states that contract and derives what it
  gives: after any sequence of updates, interrupted anywhere, the file holds the result of the
  completed ones. It is interpreted on both stores.
\<close>

section \<open>Store files\<close>

record store_file =
  sf_body :: "bytes option"
  sf_tmp :: "bytes option"

datatype save_fault = SaveOk | OpenFails | WriteFails nat | SyncFails | RenameFails

record 's codec =
  ser :: "'s \<Rightarrow> bytes"
  de :: "bytes \<Rightarrow> 's option"

definition codec_ok :: "'s codec \<Rightarrow> bool" where
  "codec_ok c \<longleftrightarrow> (\<forall>s. de c (ser c s) = Some s \<and> utf8_valid (ser c s) \<and> str_trim (ser c s) \<noteq> [])"

text \<open>Write to the sibling, flush, rename. The flag is the success of the whole.\<close>

fun write_rename :: "save_fault \<Rightarrow> bytes \<Rightarrow> store_file \<Rightarrow> bool \<times> store_file" where
  "write_rename OpenFails body f = (False, f)"
| "write_rename (WriteFails n) body f = (False, f\<lparr>sf_tmp := Some (take n body)\<rparr>)"
| "write_rename SyncFails body f = (False, f\<lparr>sf_tmp := Some body\<rparr>)"
| "write_rename RenameFails body f = (False, f\<lparr>sf_tmp := Some body\<rparr>)"
| "write_rename SaveOk body f = (True, f\<lparr>sf_body := Some body, sf_tmp := None\<rparr>)"

section \<open>Passkeys\<close>

record stored_credential =
  sc_label :: bytes
  sc_added_at :: bytes
  credential_id_b64 :: bytes
  credential_public_key_b64 :: bytes
  sc_sign_count :: u32

record credential_store =
  credentials :: "stored_credential list"

datatype store_error = StoreIo | StoreParse | StoreBase64 | WrongPubkeyLen nat

definition credential_id :: "crypto \<Rightarrow> stored_credential \<Rightarrow> store_error + bytes" where
  "credential_id cr c = ok_orE (b64_decode cr (credential_id_b64 c)) StoreBase64"

definition credential_public_key :: "crypto \<Rightarrow> stored_credential \<Rightarrow> store_error + bytes" where
  "credential_public_key cr c =
     bindE (ok_orE (b64_decode cr (credential_public_key_b64 c)) StoreBase64) (\<lambda>v.
       if length v \<noteq> SEC1_UNCOMPRESSED_LEN then Inl (WrongPubkeyLen (length v)) else Inr v)"

text \<open>The flag says whether the file can be read when it exists.\<close>

definition cred_load :: "credential_store codec \<Rightarrow> bool \<Rightarrow> store_file \<Rightarrow> store_error + credential_store" where
  "cred_load cd readable f =
     (case sf_body f of
        None \<Rightarrow> Inr \<lparr>credentials = []\<rparr>
      | Some b \<Rightarrow> if readable then ok_orE (de cd b) StoreParse else Inl StoreIo)"

definition cred_save_atomic ::
    "credential_store codec \<Rightarrow> save_fault \<Rightarrow> credential_store \<Rightarrow> store_file \<Rightarrow> (store_error + unit) \<times> store_file" where
  "cred_save_atomic cd k s f =
     (let (fine, f') = write_rename k (ser cd s) f in (if fine then Inr () else Inl StoreIo, f'))"

definition find_by_id :: "crypto \<Rightarrow> credential_store \<Rightarrow> bytes \<Rightarrow> stored_credential option" where
  "find_by_id cr s i = find (\<lambda>c. credential_id_b64 c = b64_encode cr i) (credentials s)"

text \<open>\<open>find_by_id_mut\<close> and the assignment through it: the first match is replaced.\<close>

fun update_first :: "('a \<Rightarrow> bool) \<Rightarrow> ('a \<Rightarrow> 'a) \<Rightarrow> 'a list \<Rightarrow> 'a list" where
  "update_first P g [] = []"
| "update_first P g (x # xs) = (if P x then g x # xs else x # update_first P g xs)"

definition find_by_id_mut ::
    "crypto \<Rightarrow> bytes \<Rightarrow> (stored_credential \<Rightarrow> stored_credential) \<Rightarrow> credential_store \<Rightarrow> credential_store" where
  "find_by_id_mut cr i g s =
     s\<lparr>credentials := update_first (\<lambda>c. credential_id_b64 c = b64_encode cr i) g (credentials s)\<rparr>"

text \<open>
  The HMAC secret: 32 bytes, created on first use. \<open>fresh\<close> is what the random source returns; the
  fault says whether writing the new file fails.
\<close>

definition load_or_create_secret ::
    "bool \<Rightarrow> save_fault \<Rightarrow> bytes \<Rightarrow> bytes option \<Rightarrow> (store_error + bytes) \<times> bytes option" where
  "load_or_create_secret readable k fresh secret =
     (case secret of
        Some b \<Rightarrow> (if readable \<and> 32 \<le> length b then Inr (take 32 b) else Inl StoreIo, secret)
      | None \<Rightarrow>
          (case k of
             SaveOk \<Rightarrow> (Inr fresh, Some fresh)
           | OpenFails \<Rightarrow> (Inl StoreIo, None)
           | WriteFails n \<Rightarrow> (Inl StoreIo, Some (take n fresh))
           | SyncFails \<Rightarrow> (Inl StoreIo, Some fresh)
           | RenameFails \<Rightarrow> (Inr fresh, Some fresh)))"

section \<open>Issued certificates\<close>

record issued_cert_entry =
  ce_machine_id :: bytes
  ce_fingerprint :: bytes
  ce_serial_hex :: bytes
  ce_issued_at :: bytes
  ce_not_after_unix :: u64
  ce_label :: "bytes option"

record issued_cert_store =
  certs :: "issued_cert_entry list"

definition cert_load :: "issued_cert_store codec \<Rightarrow> bool \<Rightarrow> store_file \<Rightarrow> store_error + issued_cert_store" where
  "cert_load cd readable f =
     (case sf_body f of
        None \<Rightarrow> Inr \<lparr>certs = []\<rparr>
      | Some b \<Rightarrow>
          if \<not> readable then Inl StoreIo
          else if \<not> utf8_valid b then Inl StoreIo
          else if str_trim b = [] then Inr \<lparr>certs = []\<rparr>
          else ok_orE (de cd b) StoreParse)"

definition cert_save_atomic ::
    "issued_cert_store codec \<Rightarrow> save_fault \<Rightarrow> issued_cert_store \<Rightarrow> store_file \<Rightarrow> (store_error + unit) \<times> store_file" where
  "cert_save_atomic cd k s f =
     (let (fine, f') = write_rename k (ser cd s) f in (if fine then Inr () else Inl StoreIo, f'))"

definition find_by_fingerprint :: "issued_cert_store \<Rightarrow> bytes \<Rightarrow> issued_cert_entry option" where
  "find_by_fingerprint s fp = find (\<lambda>c. ce_fingerprint c = fp) (certs s)"

definition remove_where :: "(issued_cert_entry \<Rightarrow> bool) \<Rightarrow> issued_cert_store \<Rightarrow> issued_cert_store \<times> nat" where
  "remove_where P s =
     (let s' = s\<lparr>certs := filter (\<lambda>c. \<not> P c) (certs s)\<rparr> in (s', length (certs s) - length (certs s')))"

section \<open>Updates under the lock\<close>

text \<open>
  The pattern of every writer: take the lock, load, compute the new store or give up, save. The
  change returns an error, nothing to save, or the store to save.
\<close>

definition locked_update ::
    "bool \<Rightarrow> ('f \<Rightarrow> 'e + 's) \<Rightarrow> ('s \<Rightarrow> 'f \<Rightarrow> ('e + unit) \<times> 'f) \<Rightarrow> 'e \<Rightarrow> ('s \<Rightarrow> 'e + 's option) \<Rightarrow> 'f \<Rightarrow> ('e + unit) \<times> 'f" where
  "locked_update locked load_f save_f lock_err change f =
     (if \<not> locked then (Inl lock_err, f)
      else case load_f f of
        Inl e \<Rightarrow> (Inl e, f)
      | Inr s \<Rightarrow>
          (case change s of
             Inl e \<Rightarrow> (Inl e, f)
           | Inr None \<Rightarrow> (Inr (), f)
           | Inr (Some s') \<Rightarrow> save_f s' f))"

locale atomic_store =
  fixes load_f :: "'c \<Rightarrow> bool \<Rightarrow> store_file \<Rightarrow> store_error + 's"
    and save_f :: "'c \<Rightarrow> save_fault \<Rightarrow> 's \<Rightarrow> store_file \<Rightarrow> (store_error + unit) \<times> store_file"
    and codec_fine :: "'c \<Rightarrow> bool"
    and empty_store :: 's
  assumes load_missing: "sf_body f = None \<Longrightarrow> load_f c r f = Inr empty_store"
    and load_unreadable: "load_f c False f = Inr s \<Longrightarrow> load_f c True f = Inr s"
    and load_saved: "codec_fine c \<Longrightarrow> save_f c k s f = (Inr u, f') \<Longrightarrow> load_f c True f' = Inr s"
    and load_unsaved: "save_f c k s f = (Inl e, f') \<Longrightarrow> load_f c r f' = load_f c r f"
begin

text \<open>One update either leaves the store as it was or replaces it by the changed one.\<close>

lemma update_cases:
  assumes "codec_fine c"
    and upd: "locked_update l (map_errE h \<circ> load_f c r) (\<lambda>s f. apfst (map_errE h) (save_f c k s f)) le change f = (res, f')"
  obtains (same) "load_f c True f' = load_f c True f" "\<forall>r. load_f c r f' = load_f c r f"
    "\<forall>u. res = Inr u \<longrightarrow> l \<and> (\<exists>s. load_f c r f = Inr s \<and> change s = Inr None)"
  | (changed) s s' where "l" "load_f c r f = Inr s" "change s = Inr (Some s')" "load_f c True f' = Inr s'" "res = Inr ()"
proof (cases "load_f c r f")
  case (Inl e)
  with upd show ?thesis by (intro same) (auto simp: locked_update_def split: if_splits)
next
  case (Inr s)
  show ?thesis
  proof (cases "\<exists>s'. change s = Inr (Some s') \<and> l")
    case False
    with upd Inr show ?thesis
      by (intro same) (auto simp: locked_update_def split: if_splits sum.splits option.splits)
  next
    case True
    then obtain s' where s': "change s = Inr (Some s')" "l" by blast
    obtain res' where sv: "save_f c k s' f = (res', f')" "res = map_errE h res'"
      using upd Inr s' by (cases "save_f c k s' f") (auto simp: locked_update_def)
    show ?thesis
    proof (cases res')
      case (Inl e)
      with sv show ?thesis by (intro same) (auto dest: load_unsaved)
    next
      case (Inr u)
      with sv s' \<open>load_f c r f = Inr s\<close> assms(1) show ?thesis by (intro changed) (auto dest: load_saved)
    qed
  qed
qed

text \<open>A property of the store that every change keeps holds after every update, whatever fails.\<close>

lemma update_keeps:
  assumes "codec_fine c"
    and "locked_update l (map_errE h \<circ> load_f c r) (\<lambda>s f. apfst (map_errE h) (save_f c k s f)) le change f = (res, f')"
    and "\<And>s s'. P s \<Longrightarrow> change s = Inr (Some s') \<Longrightarrow> P s'"
    and "\<And>s. load_f c True f = Inr s \<Longrightarrow> P s"
    and "load_f c True f' = Inr s'"
  shows "P s'"
  using assms(1,2)
proof (cases rule: update_cases)
  case same
  with assms(4,5) show ?thesis by simp
next
  case (changed s t)
  have "load_f c True f = Inr s" using changed(2) load_unreadable by (cases r) auto
  with changed assms(3-5) show ?thesis by auto
qed

end

lemma write_rename_body:
  "write_rename k b f = (fine, f') \<Longrightarrow> sf_body f' = (if fine then Some b else sf_body f)"
  by (cases k) auto

interpretation passkeys: atomic_store cred_load cred_save_atomic codec_ok "\<lparr>credentials = []\<rparr>"
proof
  show "sf_body f = None \<Longrightarrow> cred_load c r f = Inr \<lparr>credentials = []\<rparr>" for f c r
    by (simp add: cred_load_def)
  show "cred_load c False f = Inr s \<Longrightarrow> cred_load c True f = Inr s" for c f s
    by (simp add: cred_load_def split: option.splits)
  show "codec_ok c \<Longrightarrow> cred_save_atomic c k s f = (Inr u, f') \<Longrightarrow> cred_load c True f' = Inr s" for c k s f u f'
    by (auto simp: cred_save_atomic_def cred_load_def codec_ok_def dest!: write_rename_body split: prod.splits if_splits)
  show "cred_save_atomic c k s f = (Inl e, f') \<Longrightarrow> cred_load c r f' = cred_load c r f" for c k s f e f' r
    by (auto simp: cred_save_atomic_def cred_load_def dest!: write_rename_body split: prod.splits if_splits)
qed

interpretation agent_certs: atomic_store cert_load cert_save_atomic codec_ok "\<lparr>certs = []\<rparr>"
proof
  show "sf_body f = None \<Longrightarrow> cert_load c r f = Inr \<lparr>certs = []\<rparr>" for f c r
    by (simp add: cert_load_def)
  show "cert_load c False f = Inr s \<Longrightarrow> cert_load c True f = Inr s" for c f s
    by (simp add: cert_load_def split: option.splits)
  show "codec_ok c \<Longrightarrow> cert_save_atomic c k s f = (Inr u, f') \<Longrightarrow> cert_load c True f' = Inr s" for c k s f u f'
    by (auto simp: cert_save_atomic_def cert_load_def codec_ok_def dest!: write_rename_body split: prod.splits if_splits)
  show "cert_save_atomic c k s f = (Inl e, f') \<Longrightarrow> cert_load c r f' = cert_load c r f" for c k s f e f' r
    by (auto simp: cert_save_atomic_def cert_load_def dest!: write_rename_body split: prod.splits if_splits)
qed

section \<open>A concrete text form\<close>

text \<open>
  A text form of lists of byte strings that satisfies \<open>codec_ok\<close>: two letters for a byte, a full stop after
  each string. The examples use it in place of JSON.
\<close>

definition letters :: "bytes \<Rightarrow> bytes" where
  "letters x = concat (map (\<lambda>b. [0x41 + b div 16, 0x41 + b mod 16]) x)"

fun unletters :: "bytes \<Rightarrow> bytes" where
  "unletters (a # b # r) = ((a - 0x41) * 16 + (b - 0x41)) # unletters r"
| "unletters _ = []"

definition pack :: "bytes list \<Rightarrow> bytes" where
  "pack xs = 0x7B # concat (map (\<lambda>x. letters x @ [0x2E]) xs)"

fun unpack :: "bytes \<Rightarrow> bytes list option" where
  "unpack (b # bs) = (if b = 0x7B then Some (map unletters (butlast (split_on 0x2E bs))) else None)"
| "unpack [] = None"

lemma unletters_letters [simp]: "unletters (letters x) = x"
  by (induction x) (simp_all add: letters_def div_mult_mod_eq)

lemma letter_range:
  assumes "c \<in> set (letters x)"
  shows "0x41 \<le> c \<and> c < 0x51"
proof -
  obtain d :: u8 where d: "c = 0x41 + d" "unat d < 16"
  proof -
    obtain b where "c = 0x41 + b div 16 \<or> c = 0x41 + b mod 16" using assms by (auto simp: letters_def)
    moreover have "unat (b div 16) < 16" "unat (b mod 16) < 16"
      using unat_u8_le [of b] by (simp_all add: unat_div_distrib unat_mod_distrib less_mult_imp_div_less)
    ultimately show ?thesis using that by blast
  qed
  then have "unat c = 65 + unat d" by (simp add: unat_word_ariths)
  with d(2) show ?thesis by (simp add: word_le_nat_alt word_less_nat_alt)
qed

lemma split_on_pack:
  "split_on 0x2E (concat (map (\<lambda>x. letters x @ [0x2E]) xs)) = map letters xs @ [[]]"
proof -
  have sep: "0x2E \<notin> set w \<Longrightarrow> split_on 0x2E (w @ 0x2E # r) = w # split_on 0x2E r" for w r
    by (induction w) auto
  have "0x2E \<notin> set (letters x)" for x
    using letter_range [of "0x2E" x] by (auto simp: word_le_nat_alt)
  then show ?thesis by (induction xs) (simp_all add: sep)
qed

lemma unpack_pack [simp]: "unpack (pack xs) = Some xs"
  by (simp add: pack_def split_on_pack comp_def butlast_append)

lemma graphic_pack: "graphic (pack xs)"
proof -
  have "0x21 \<le> c \<and> c < 0x7F" if "c \<in> set (letters x)" for c x
    using letter_range [OF that] by (auto simp: word_le_nat_alt word_less_nat_alt)
  then show ?thesis by (auto simp: pack_def graphic_def list_all_iff word_le_nat_alt word_less_nat_alt)
qed

lemma utf8_valid_graphic: "graphic s \<Longrightarrow> utf8_valid s"
proof (induction s)
  case (Cons b s)
  then have "b < 0x80" "utf8_valid s" by (auto simp: graphic_def word_less_nat_alt)
  then show ?case by (auto simp: utf8_width_def utf8_seq_def word_less_nat_alt)
qed simp

definition pack_codec :: "('s \<Rightarrow> bytes list) \<Rightarrow> (bytes list \<Rightarrow> 's option) \<Rightarrow> 's codec" where
  "pack_codec to fro = \<lparr>ser = (\<lambda>s. pack (to s)), de = (\<lambda>b. Option.bind (unpack b) fro)\<rparr>"

lemma codec_ok_pack: "(\<And>s. fro (to s) = Some s) \<Longrightarrow> codec_ok (pack_codec to fro)"
  using graphic_pack str_trim_graphic [OF graphic_pack] utf8_valid_graphic [OF graphic_pack]
  by (simp add: codec_ok_def pack_codec_def) (simp add: pack_def)

text \<open>Credentials as five strings each, certificates as six.\<close>

definition cred_fields :: "stored_credential \<Rightarrow> bytes list" where
  "cred_fields c = [sc_label c, sc_added_at c, credential_id_b64 c, credential_public_key_b64 c, be32 (sc_sign_count c)]"

fun creds_of_fields :: "bytes list \<Rightarrow> stored_credential list" where
  "creds_of_fields (l # t # i # k # n # r) =
     \<lparr>sc_label = l, sc_added_at = t, credential_id_b64 = i, credential_public_key_b64 = k, sc_sign_count = from_be32 n\<rparr>
     # creds_of_fields r"
| "creds_of_fields _ = []"

definition demo_cred_codec :: "credential_store codec" where
  "demo_cred_codec =
     pack_codec (\<lambda>s. concat (map cred_fields (credentials s))) (\<lambda>fs. Some \<lparr>credentials = creds_of_fields fs\<rparr>)"

lemma demo_cred_codec_ok [simp]: "codec_ok demo_cred_codec"
proof -
  have "creds_of_fields (concat (map cred_fields cs)) = cs" for cs
    by (induction cs) (simp_all add: cred_fields_def)
  then show ?thesis unfolding demo_cred_codec_def by (intro codec_ok_pack) simp
qed

definition cert_fields :: "issued_cert_entry \<Rightarrow> bytes list" where
  "cert_fields c = [ce_machine_id c, ce_fingerprint c, ce_serial_hex c, ce_issued_at c, be64 (ce_not_after_unix c),
     (case ce_label c of None \<Rightarrow> [] | Some l \<Rightarrow> 1 # l)]"

fun certs_of_fields :: "bytes list \<Rightarrow> issued_cert_entry list" where
  "certs_of_fields (m # f # s # t # n # l # r) =
     \<lparr>ce_machine_id = m, ce_fingerprint = f, ce_serial_hex = s, ce_issued_at = t, ce_not_after_unix = from_be64 n,
      ce_label = (case l of [] \<Rightarrow> None | _ # l \<Rightarrow> Some l)\<rparr> # certs_of_fields r"
| "certs_of_fields _ = []"

definition demo_cert_codec :: "issued_cert_store codec" where
  "demo_cert_codec =
     pack_codec (\<lambda>s. concat (map cert_fields (certs s))) (\<lambda>fs. Some \<lparr>certs = certs_of_fields fs\<rparr>)"

lemma demo_cert_codec_ok [simp]: "codec_ok demo_cert_codec"
proof -
  have "certs_of_fields (concat (map cert_fields cs)) = cs" for cs
    by (induction cs) (simp_all add: cert_fields_def split: option.splits)
  then show ?thesis unfolding demo_cert_codec_def by (intro codec_ok_pack) simp
qed

end
