(* ===== verification/Hub_Admin.thy ===== *)
theory Hub_Admin
  imports Data_Dir "HOL-Library.Signed_Division"
begin

text \<open>
  The operator's side of the hub: the registration envelope of \<open>common/src/envelope.rs\<close> and the commands of
  \<open>hub-admin/src/main.rs\<close> that change the stores: \<open>add-passkey\<close>, \<open>remove\<close>, \<open>issue-cert\<close> (its
  entry in the list of issued certificates) and \<open>revoke-cert\<close>.

  A command takes its arguments, the data directory, what the system decides (\<open>admin_io\<close>: standard input, the
  clock when the envelope is checked and when the entry is stamped, the random source, which files can be read, whether the lock is obtained, where a save
  fails) and returns its result and the new directory. HMAC-SHA-256 and the JSON forms are the fields of
  \<open>envelope_lib\<close>; \<open>envelope_laws\<close> states that parsing inverts printing and that base64 text has no blanks.

  The properties: exactly which pasted blobs add a key, that a fresh registration that is pasted back in
  time is added, what \<open>remove\<close> and \<open>revoke-cert\<close> delete, and that under any sequence of commands
  and counter updates, interrupted anywhere, credential ids stay distinct and counters never
  go down.
\<close>

section \<open>The registration envelope\<close>

record envelope_inner =
  en_rp_id :: bytes
  en_origin :: bytes
  en_issued_at :: u64
  en_challenge_b64u :: bytes

record signed_envelope =
  se_inner :: envelope_inner
  se_hmac_b64 :: bytes

record paste_blob =
  pb_envelope :: signed_envelope
  pb_response :: registration_response
  pb_label :: "bytes option"

datatype envelope_error =
    EnvTime
  | EnvKeyLen
  | HmacMismatch
  | EnvExpired (age_secs: u64) (ttl: u64)
  | EnvDecode

record envelope_lib =
  hmac_sha256 :: "bytes \<Rightarrow> bytes \<Rightarrow> bytes option"
  inner_json :: "envelope_inner \<Rightarrow> bytes"
  blob_json :: "paste_blob codec"

definition envelope_laws :: "crypto \<Rightarrow> envelope_lib \<Rightarrow> bool" where
  "envelope_laws cr lib \<longleftrightarrow> crypto_laws cr \<and> codec_ok (blob_json lib) \<and> (\<forall>b. graphic (b64_encode cr b))"

definition ENVELOPE_TTL_SECS :: u64 where "ENVELOPE_TTL_SECS = 10 * 60"

text \<open>The clock is the number of seconds since the Unix epoch; a clock before it is an error.\<close>

definition now_secs :: "int \<Rightarrow> envelope_error + u64" where
  "now_secs clock = (if clock < 0 then Inl EnvTime else Inr (word_of_int clock))"

definition issued_at_now :: "int \<Rightarrow> u64" where
  "issued_at_now clock = (case now_secs clock of Inl _ \<Rightarrow> 0 | Inr t \<Rightarrow> t)"

definition envelope_challenge :: "crypto \<Rightarrow> envelope_inner \<Rightarrow> envelope_error + bytes" where
  "envelope_challenge cr inner = ok_orE (from_b64url cr (en_challenge_b64u inner)) EnvDecode"

definition envelope_mac :: "envelope_lib \<Rightarrow> bytes \<Rightarrow> envelope_inner \<Rightarrow> envelope_error + bytes" where
  "envelope_mac lib key inner = ok_orE (hmac_sha256 lib key (inner_json lib inner)) EnvKeyLen"

definition envelope_sign :: "crypto \<Rightarrow> envelope_lib \<Rightarrow> bytes \<Rightarrow> envelope_inner \<Rightarrow> envelope_error + signed_envelope" where
  "envelope_sign cr lib key inner =
     bindE (envelope_mac lib key inner) (\<lambda>tag.
       Inr \<lparr>se_inner = inner, se_hmac_b64 = b64_encode cr tag\<rparr>)"

definition envelope_verify ::
    "crypto \<Rightarrow> envelope_lib \<Rightarrow> int \<Rightarrow> bytes \<Rightarrow> signed_envelope \<Rightarrow> envelope_error + envelope_inner" where
  "envelope_verify cr lib clock key env =
     bindE (envelope_mac lib key (se_inner env)) (\<lambda>expected.
     bindE (ok_orE (b64_decode cr (se_hmac_b64 env)) EnvDecode) (\<lambda>provided.
     bindE (failE (length provided \<noteq> length expected) HmacMismatch) (\<lambda>_.
     bindE (failE (ct_diff provided expected \<noteq> 0) HmacMismatch) (\<lambda>_.
     bindE (now_secs clock) (\<lambda>now.
     let age = saturating_sub64 now (en_issued_at (se_inner env)) in
     bindE (failE (age > ENVELOPE_TTL_SECS) (EnvExpired age ENVELOPE_TTL_SECS)) (\<lambda>_.
       Inr (se_inner env)))))))"

definition encode_paste_blob :: "crypto \<Rightarrow> envelope_lib \<Rightarrow> paste_blob \<Rightarrow> bytes" where
  "encode_paste_blob cr lib blob = b64_encode cr (ser (blob_json lib) blob)"

definition decode_paste_blob :: "crypto \<Rightarrow> envelope_lib \<Rightarrow> bytes \<Rightarrow> envelope_error + paste_blob" where
  "decode_paste_blob cr lib s =
     bindE (ok_orE (b64_decode cr (strip_whitespace s)) EnvDecode) (\<lambda>body.
       ok_orE (de (blob_json lib) body) EnvDecode)"

section \<open>Time stamps\<close>

definition pad0 :: "nat \<Rightarrow> int \<Rightarrow> bytes" where
  "pad0 w v = (let d = dec_of_nat (nat v) in replicate (w - length d) 0x30 @ d)"

text \<open>\<open>civil_from_days\<close> on days since the epoch: year, month, day.\<close>

definition civil_from_days :: "int \<Rightarrow> int \<times> int \<times> int" where
  "civil_from_days days =
     (let z = days + 719468;
          era = (if z \<ge> 0 then z else z - 146096) sdiv 146097;
          doe = z - era * 146097;
          yoe = (doe - doe div 1460 + doe div 36524 - doe div 146096) div 365;
          y = yoe + era * 400;
          doy = doe - (365 * yoe + yoe div 4 - yoe div 100);
          mp = (5 * doy + 2) div 153;
          d = doy - (153 * mp + 2) div 5 + 1;
          month = (if mp < 10 then mp + 3 else mp - 9);
          year = (if month \<le> 2 then y + 1 else y)
      in (year, month, d))"

definition fmt_utc :: "int \<Rightarrow> bytes" where
  "fmt_utc t =
     (let days = t div 86400; sod = t mod 86400;
          h = sod div 3600; m = (sod div 60) mod 60; s = sod mod 60;
          (year, month, d) = civil_from_days days
      in pad0 4 year @ bstr ''-'' @ pad0 2 month @ bstr ''-'' @ pad0 2 d @ bstr ''T'' @
         pad0 2 h @ bstr '':'' @ pad0 2 m @ bstr '':'' @ pad0 2 s @ bstr ''Z'')"

definition iso8601_now :: "int \<Rightarrow> bytes" where
  "iso8601_now clock = fmt_utc (if clock < 0 then 0 else clock)"

section \<open>Commands\<close>

record data_dir =
  dd_credentials :: store_file
  dd_certs :: store_file
  dd_secret :: "bytes option"

record admin_io =
  io_stdin :: "bytes option"
  io_clock :: int
  io_stamp :: int
  io_random :: bytes
  io_readable :: bool
  io_secret :: save_fault
  io_locked :: bool
  io_save :: save_fault

datatype admin_error =
    MissingBlob
  | StdinFailed
  | SecretFailed store_error
  | DecodeFailed envelope_error
  | EnvelopeFailed envelope_error
  | ChallengeFailed envelope_error
  | RegisterFailed webauthn_error
  | LockFailed
  | StoreFailed store_error
  | AlreadyRegistered bytes
  | MissingTarget
  | AmbiguousPrefix bytes nat
  | NoMatch bytes
  | FingerprintPresent bytes
  | UnknownFlag bytes
  | ExpectsValue bytes
  | SelectorMissing
  | NoMatchingCert

definition add_credential :: "stored_credential \<Rightarrow> credential_store \<Rightarrow> admin_error + credential_store option" where
  "add_credential c store =
     (if \<exists>x \<in> set (credentials store). credential_id_b64 x = credential_id_b64 c
      then Inl (AlreadyRegistered (credential_id_b64 c))
      else Inr (Some (store\<lparr>credentials := credentials store @ [c]\<rparr>)))"

definition update_credentials ::
    "credential_store codec \<Rightarrow> admin_io \<Rightarrow> (credential_store \<Rightarrow> admin_error + credential_store option) \<Rightarrow> store_file
       \<Rightarrow> (admin_error + unit) \<times> store_file" where
  "update_credentials cd io change f =
     locked_update (io_locked io) (map_errE StoreFailed \<circ> cred_load cd (io_readable io))
       (\<lambda>s f. apfst (map_errE StoreFailed) (cred_save_atomic cd (io_save io) s f)) LockFailed change f"

definition new_label :: "bytes option \<Rightarrow> bytes \<Rightarrow> bytes" where
  "new_label label_in cred_id_b64 =
     (case label_in of
        Some s \<Rightarrow> if str_trim s \<noteq> [] then s else bstr ''cred-'' @ take 8 cred_id_b64
      | None \<Rightarrow> bstr ''cred-'' @ take 8 cred_id_b64)"

text \<open>The part of \<open>cmd_add\<close> between the secret and the lock: the credential of an acceptable blob.\<close>

definition check_blob ::
    "crypto \<Rightarrow> envelope_lib \<Rightarrow> int \<Rightarrow> int \<Rightarrow> bytes \<Rightarrow> bytes \<Rightarrow> admin_error + stored_credential" where
  "check_blob cr lib clock stamp secret blob_text =
     bindE (map_errE DecodeFailed (decode_paste_blob cr lib (str_trim blob_text))) (\<lambda>paste.
     bindE (map_errE EnvelopeFailed (envelope_verify cr lib clock secret (pb_envelope paste))) (\<lambda>inner.
     bindE (map_errE ChallengeFailed (envelope_challenge cr inner)) (\<lambda>challenge.
     bindE (map_errE RegisterFailed
       (finish_register cr (pb_response paste) challenge (en_rp_id inner) (en_origin inner))) (\<lambda>registered.
       let cred_id_b64 = b64_encode cr (rc_credential_id registered) in
       Inr \<lparr>sc_label = new_label (pb_label paste) cred_id_b64, sc_added_at = iso8601_now stamp,
            credential_id_b64 = cred_id_b64,
            credential_public_key_b64 = b64_encode cr (rc_public_key registered),
            sc_sign_count = rc_sign_count registered\<rparr>))))"

definition blob_argument :: "admin_io \<Rightarrow> bytes list \<Rightarrow> admin_error + bytes" where
  "blob_argument io args =
     (case args of
        [] \<Rightarrow> Inl MissingBlob
      | a # _ \<Rightarrow> if a = bstr ''-'' then ok_orE (io_stdin io) StdinFailed else Inr a)"

definition cmd_add ::
    "crypto \<Rightarrow> envelope_lib \<Rightarrow> credential_store codec \<Rightarrow> admin_io \<Rightarrow> bytes list \<Rightarrow> data_dir \<Rightarrow> (admin_error + unit) \<times> data_dir" where
  "cmd_add cr lib cd io args dir =
     (case blob_argument io args of
        Inl e \<Rightarrow> (Inl e, dir)
      | Inr blob_text \<Rightarrow>
          (let (secret, sf) = load_or_create_secret (io_readable io) (io_secret io) (io_random io) (dd_secret dir);
               dir = dir\<lparr>dd_secret := sf\<rparr>
           in case bindE (map_errE SecretFailed secret) (\<lambda>key. check_blob cr lib (io_clock io) (io_stamp io) key blob_text) of
                Inl e \<Rightarrow> (Inl e, dir)
              | Inr c \<Rightarrow>
                  (let (res, f) = update_credentials cd io (add_credential c) (dd_credentials dir)
                   in (res, dir\<lparr>dd_credentials := f\<rparr>))))"

definition exact_match :: "bytes \<Rightarrow> stored_credential \<Rightarrow> bool" where
  "exact_match target c \<longleftrightarrow> sc_label c = target \<or> credential_id_b64 c = target"

definition prefix_match :: "bytes \<Rightarrow> stored_credential \<Rightarrow> bool" where
  "prefix_match target c \<longleftrightarrow> starts_with target (credential_id_b64 c)"

definition remove_credential :: "bytes \<Rightarrow> credential_store \<Rightarrow> admin_error + credential_store option" where
  "remove_credential target store =
     (let before = length (credentials store);
          exact = length (filter (exact_match target) (credentials store));
          prefix_n = length (filter (prefix_match target) (credentials store))
      in if exact = 0 \<and> prefix_n > 1 then Inl (AmbiguousPrefix target prefix_n)
         else let store' =
                (if exact > 0 then store\<lparr>credentials := filter (\<lambda>c. \<not> exact_match target c) (credentials store)\<rparr>
                 else store\<lparr>credentials := filter (\<lambda>c. \<not> prefix_match target c) (credentials store)\<rparr>)
              in if before - length (credentials store') = 0 then Inl (NoMatch target) else Inr (Some store'))"

definition cmd_remove ::
    "credential_store codec \<Rightarrow> admin_io \<Rightarrow> bytes list \<Rightarrow> data_dir \<Rightarrow> (admin_error + unit) \<times> data_dir" where
  "cmd_remove cd io args dir =
     (case args of
        [] \<Rightarrow> (Inl MissingTarget, dir)
      | target # _ \<Rightarrow>
          (let (res, f) = update_credentials cd io (remove_credential target) (dd_credentials dir)
           in (res, dir\<lparr>dd_credentials := f\<rparr>)))"

text \<open>The counter update of the hub after a login, \<open>persist_counter_update\<close> of \<open>hub/src/webauthn_routes.rs\<close>.\<close>

definition bump_counter :: "crypto \<Rightarrow> bytes \<Rightarrow> u32 \<Rightarrow> credential_store \<Rightarrow> admin_error + credential_store option" where
  "bump_counter cr cred_id new_sign_count store =
     (case find_by_id cr store cred_id of
        None \<Rightarrow> Inr None
      | Some c \<Rightarrow>
          if new_sign_count > sc_sign_count c
          then Inr (Some (find_by_id_mut cr cred_id (\<lambda>c. c\<lparr>sc_sign_count := new_sign_count\<rparr>) store))
          else Inr None)"

definition persist_counter_update ::
    "crypto \<Rightarrow> credential_store codec \<Rightarrow> admin_io \<Rightarrow> bytes \<Rightarrow> u32 \<Rightarrow> data_dir \<Rightarrow> (admin_error + unit) \<times> data_dir" where
  "persist_counter_update cr cd io cred_id n dir =
     (let (res, f) = update_credentials cd io (bump_counter cr cred_id n) (dd_credentials dir)
      in (res, dir\<lparr>dd_credentials := f\<rparr>))"

section \<open>Certificates\<close>

definition update_certs ::
    "issued_cert_store codec \<Rightarrow> admin_io \<Rightarrow> (issued_cert_store \<Rightarrow> admin_error + issued_cert_store option) \<Rightarrow> store_file
       \<Rightarrow> (admin_error + unit) \<times> store_file" where
  "update_certs cd io change f =
     locked_update (io_locked io) (map_errE StoreFailed \<circ> cert_load cd (io_readable io))
       (\<lambda>s f. apfst (map_errE StoreFailed) (cert_save_atomic cd (io_save io) s f)) LockFailed change f"

text \<open>The last part of \<open>cmd_issue_cert\<close>: the entry of the minted certificate.\<close>

definition track_cert :: "issued_cert_entry \<Rightarrow> issued_cert_store \<Rightarrow> admin_error + issued_cert_store option" where
  "track_cert e store =
     (if \<exists>c \<in> set (certs store). ce_fingerprint c = ce_fingerprint e
      then Inl (FingerprintPresent (ce_fingerprint e))
      else Inr (Some (store\<lparr>certs := certs store @ [e]\<rparr>)))"

definition issue_cert_entry ::
    "issued_cert_store codec \<Rightarrow> admin_io \<Rightarrow> bytes \<Rightarrow> bytes \<Rightarrow> bytes \<Rightarrow> u64 \<Rightarrow> bytes option \<Rightarrow> data_dir
       \<Rightarrow> (admin_error + unit) \<times> data_dir" where
  "issue_cert_entry cd io machine_id fingerprint serial_hex not_after label dir =
     (let (res, f) = update_certs cd io
            (track_cert \<lparr>ce_machine_id = machine_id, ce_fingerprint = fingerprint, ce_serial_hex = serial_hex,
                         ce_issued_at = iso8601_now (io_stamp io), ce_not_after_unix = not_after, ce_label = label\<rparr>)
            (dd_certs dir)
      in (res, dir\<lparr>dd_certs := f\<rparr>))"

definition revoked_by :: "bytes option \<Rightarrow> bytes option \<Rightarrow> issued_cert_entry \<Rightarrow> bool" where
  "revoked_by serial machine c \<longleftrightarrow> serial = Some (ce_serial_hex c) \<or> machine = Some (ce_machine_id c)"

definition revoke_certs ::
    "bytes option \<Rightarrow> bytes option \<Rightarrow> issued_cert_store \<Rightarrow> admin_error + issued_cert_store option" where
  "revoke_certs serial machine store =
     (let (store', removed) = remove_where (revoked_by serial machine) store
      in if removed = 0 then Inl NoMatchingCert else Inr (Some store'))"

fun revoke_args :: "bytes list \<Rightarrow> bytes option \<Rightarrow> bytes option \<Rightarrow> admin_error + bytes option \<times> bytes option" where
  "revoke_args [] serial machine = Inr (serial, machine)"
| "revoke_args [a] serial machine =
     (if a = bstr ''--serial'' \<or> a = bstr ''--id'' then Inl (ExpectsValue a) else Inl (UnknownFlag a))"
| "revoke_args (a # v # args) serial machine =
     (if a = bstr ''--serial'' then revoke_args args (Some v) machine
      else if a = bstr ''--id'' then revoke_args args serial (Some v)
      else Inl (UnknownFlag a))"

definition cmd_revoke_cert ::
    "issued_cert_store codec \<Rightarrow> admin_io \<Rightarrow> bytes list \<Rightarrow> data_dir \<Rightarrow> (admin_error + unit) \<times> data_dir" where
  "cmd_revoke_cert cd io args dir =
     (case revoke_args args None None of
        Inl e \<Rightarrow> (Inl e, dir)
      | Inr (serial, machine) \<Rightarrow>
          if serial = None \<and> machine = None then (Inl SelectorMissing, dir)
          else let (res, f) = update_certs cd io (revoke_certs serial machine) (dd_certs dir)
               in (res, dir\<lparr>dd_certs := f\<rparr>))"

section \<open>Envelopes that verify\<close>

lemma envelope_verify_iff:
  "envelope_verify cr lib clock key env = Inr inner \<longleftrightarrow>
     inner = se_inner env \<and> 0 \<le> clock \<and>
     (\<exists>tag. hmac_sha256 lib key (inner_json lib inner) = Some tag \<and> b64_decode cr (se_hmac_b64 env) = Some tag) \<and>
     uint (word_of_int clock :: u64) \<le> uint (en_issued_at inner) + 600"
proof -
  have age: "saturating_sub64 now issued > ENVELOPE_TTL_SECS \<longleftrightarrow> uint issued + 600 < uint now" for now issued
  proof (cases "issued \<le> now")
    case True
    then show ?thesis
      by (simp add: saturating_sub64_def ENVELOPE_TTL_SECS_def word_less_def word_le_def uint_sub_if') arith
  next
    case False
    then show ?thesis
      by (simp add: saturating_sub64_def ENVELOPE_TTL_SECS_def word_less_def word_le_def)
  qed
  show ?thesis
    by (auto simp: envelope_verify_def envelope_mac_def bindE_Inr_iff Let_def now_secs_def age ct_diff_0_iff
      split: if_splits)
qed

lemma sign_then_verify:
  assumes "crypto_laws cr" "envelope_sign cr lib key inner = Inr env"
  shows "envelope_verify cr lib clock key env = Inr inner' \<longleftrightarrow>
    inner' = inner \<and> 0 \<le> clock \<and> uint (word_of_int clock :: u64) \<le> uint (en_issued_at inner) + 600"
  using assms by (auto simp: envelope_verify_iff envelope_sign_def envelope_mac_def bindE_Inr_iff crypto_lawsD)

lemma decode_encode_paste_blob:
  "envelope_laws cr lib \<Longrightarrow> strip_whitespace t = encode_paste_blob cr lib blob \<Longrightarrow> decode_paste_blob cr lib t = Inr blob"
  by (simp add: decode_paste_blob_def encode_paste_blob_def envelope_laws_def crypto_lawsD codec_ok_def)

lemma from_b64url_iff: "from_b64url cr s = Some c \<longleftrightarrow> b64u_decode cr s = Some c \<and> length c = 32"
  by (auto simp: from_b64url_def CHALLENGE_LEN_def split: option.splits if_splits)

text \<open>A blob that may be added: the credential of a registration that answers a fresh envelope.\<close>

definition blob_grants ::
    "crypto \<Rightarrow> envelope_lib \<Rightarrow> int \<Rightarrow> bytes \<Rightarrow> bytes \<Rightarrow> attested_credential_data \<Rightarrow> bytes option \<Rightarrow> bool" where
  "blob_grants cr lib clock key text a label \<longleftrightarrow>
     (\<exists>blob inner tag challenge.
        decode_paste_blob cr lib (str_trim text) = Inr blob \<and> inner = se_inner (pb_envelope blob) \<and>
        hmac_sha256 lib key (inner_json lib inner) = Some tag \<and>
        b64_decode cr (se_hmac_b64 (pb_envelope blob)) = Some tag \<and>
        0 \<le> clock \<and> uint (word_of_int clock :: u64) \<le> uint (en_issued_at inner) + 600 \<and>
        b64u_decode cr (en_challenge_b64u inner) = Some challenge \<and> length challenge = 32 \<and>
        good_registration cr (pb_response blob) challenge (en_rp_id inner) (en_origin inner) a \<and>
        label = pb_label blob)"

definition entry_of :: "crypto \<Rightarrow> attested_credential_data \<Rightarrow> bytes option \<Rightarrow> int \<Rightarrow> stored_credential" where
  "entry_of cr a label stamp =
     \<lparr>sc_label = new_label label (b64_encode cr (ac_credential_id a)), sc_added_at = iso8601_now stamp,
      credential_id_b64 = b64_encode cr (ac_credential_id a),
      credential_public_key_b64 = b64_encode cr (ac_public_key a),
      sc_sign_count = sign_count (ac_prefix a)\<rparr>"

lemma check_blob_iff:
  assumes "crypto_laws cr"
  shows "check_blob cr lib clock stamp key text = Inr c \<longleftrightarrow>
    (\<exists>a label. blob_grants cr lib clock key text a label \<and> c = entry_of cr a label stamp)"
    (is "?l \<longleftrightarrow> ?r")
proof
  assume ?l
  then obtain blob inner challenge reg where *: "decode_paste_blob cr lib (str_trim text) = Inr blob"
    "envelope_verify cr lib clock key (pb_envelope blob) = Inr inner" "envelope_challenge cr inner = Inr challenge"
    "finish_register cr (pb_response blob) challenge (en_rp_id inner) (en_origin inner) = Inr reg" and
    c: "c = (let cred_id_b64 = b64_encode cr (rc_credential_id reg) in
       \<lparr>sc_label = new_label (pb_label blob) cred_id_b64, sc_added_at = iso8601_now stamp,
            credential_id_b64 = cred_id_b64,
            credential_public_key_b64 = b64_encode cr (rc_public_key reg),
            sc_sign_count = rc_sign_count reg\<rparr>)"
    unfolding check_blob_def by (auto simp only: bindE_Inr_iff map_errE_Inr_iff Let_def sum.inject)
  from *(4) obtain a where a: "good_registration cr (pb_response blob) challenge (en_rp_id inner) (en_origin inner) a"
    "reg = \<lparr>rc_credential_id = ac_credential_id a, rc_public_key = ac_public_key a, rc_sign_count = sign_count (ac_prefix a)\<rparr>"
    unfolding finish_register_iff [OF assms] by blast
  have "blob_grants cr lib clock key text a (pb_label blob)"
    using *(1-3) a(1) unfolding blob_grants_def envelope_verify_iff envelope_challenge_def ok_orE_Inr_iff from_b64url_iff
    by blast
  moreover have "c = entry_of cr a (pb_label blob) stamp" by (simp add: c a(2) entry_of_def Let_def)
  ultimately show ?r by blast
next
  assume ?r
  then obtain a label where g: "blob_grants cr lib clock key text a label" and c: "c = entry_of cr a label stamp" by blast
  from g obtain blob tag challenge where *: "decode_paste_blob cr lib (str_trim text) = Inr blob"
    "hmac_sha256 lib key (inner_json lib (se_inner (pb_envelope blob))) = Some tag"
    "b64_decode cr (se_hmac_b64 (pb_envelope blob)) = Some tag" "0 \<le> clock"
    "uint (word_of_int clock :: u64) \<le> uint (en_issued_at (se_inner (pb_envelope blob))) + 600"
    "b64u_decode cr (en_challenge_b64u (se_inner (pb_envelope blob))) = Some challenge" "length challenge = 32"
    "good_registration cr (pb_response blob) challenge (en_rp_id (se_inner (pb_envelope blob))) (en_origin (se_inner (pb_envelope blob))) a"
    "label = pb_label blob"
    unfolding blob_grants_def by blast
  have "envelope_verify cr lib clock key (pb_envelope blob) = Inr (se_inner (pb_envelope blob))"
    using * unfolding envelope_verify_iff by blast
  moreover have "envelope_challenge cr (se_inner (pb_envelope blob)) = Inr challenge"
    using * unfolding envelope_challenge_def ok_orE_Inr_iff from_b64url_iff by blast
  moreover have "finish_register cr (pb_response blob) challenge (en_rp_id (se_inner (pb_envelope blob)))
      (en_origin (se_inner (pb_envelope blob))) =
    Inr \<lparr>rc_credential_id = ac_credential_id a, rc_public_key = ac_public_key a, rc_sign_count = sign_count (ac_prefix a)\<rparr>"
    using * unfolding finish_register_iff [OF assms] by blast
  ultimately show ?l using *(1,9) by (simp add: check_blob_def c entry_of_def Let_def)
qed

section \<open>What the commands do to the stores\<close>

lemma cred_load_readable: "cred_load cd r f = Inr s \<Longrightarrow> cred_load cd True f = Inr s"
  using passkeys.load_unreadable by (cases r) auto

lemma cert_load_readable: "cert_load cd r f = Inr s \<Longrightarrow> cert_load cd True f = Inr s"
  using agent_certs.load_unreadable by (cases r) auto

lemma update_credentials_cases:
  assumes "codec_ok cd" "update_credentials cd io change f = (res, f')"
  obtains (same) "cred_load cd True f' = cred_load cd True f"
      "\<forall>u. res = Inr u \<longrightarrow> (\<exists>s. cred_load cd True f = Inr s \<and> change s = Inr None)"
  | (changed) s s' where "cred_load cd True f = Inr s" "change s = Inr (Some s')"
      "cred_load cd True f' = Inr s'" "res = Inr ()"
  using assms unfolding update_credentials_def
  by (cases rule: passkeys.update_cases) (blast dest: cred_load_readable)+

lemma update_certs_cases:
  assumes "codec_ok cd" "update_certs cd io change f = (res, f')"
  obtains (same) "cert_load cd True f' = cert_load cd True f"
      "\<forall>u. res = Inr u \<longrightarrow> (\<exists>s. cert_load cd True f = Inr s \<and> change s = Inr None)"
  | (changed) s s' where "cert_load cd True f = Inr s" "change s = Inr (Some s')"
      "cert_load cd True f' = Inr s'" "res = Inr ()"
  using assms unfolding update_certs_def
  by (cases rule: agent_certs.update_cases) (blast dest: cert_load_readable)+

lemma update_credentials_fine:
  assumes "codec_ok cd" "io_locked io" "io_save io = SaveOk" "cred_load cd (io_readable io) f = Inr s" "change s = Inr (Some s')"
  shows "fst (update_credentials cd io change f) = Inr ()" "cred_load cd True (snd (update_credentials cd io change f)) = Inr s'"
  using assms
  by (auto simp: update_credentials_def locked_update_def cred_save_atomic_def cred_load_def [of _ True] codec_ok_def)

lemma add_credential_iff:
  "add_credential c s = Inr t \<longleftrightarrow>
     (\<forall>x \<in> set (credentials s). credential_id_b64 x \<noteq> credential_id_b64 c) \<and>
     t = Some (s\<lparr>credentials := credentials s @ [c]\<rparr>)"
  by (auto simp: add_credential_def)

lemma secret_created:
  "load_or_create_secret r k fresh secret = (Inr key, sf) \<Longrightarrow> length fresh = 32 \<Longrightarrow> \<exists>b. sf = Some b \<and> key = take 32 b"
  by (auto simp: load_or_create_secret_def split: option.splits save_fault.splits if_splits)

lemma cmd_add_cases:
  assumes "codec_ok cd" "crypto_laws cr" "cmd_add cr lib cd io args dir = (res, dir')"
  obtains (refused) "cred_load cd True (dd_credentials dir') = cred_load cd True (dd_credentials dir)" "\<forall>u. res \<noteq> Inr u"
  | (added) bt key s a label where "blob_argument io args = Inr bt"
      "load_or_create_secret (io_readable io) (io_secret io) (io_random io) (dd_secret dir) = (Inr key, dd_secret dir')"
      "blob_grants cr lib (io_clock io) key bt a label"
      "cred_load cd True (dd_credentials dir) = Inr s"
      "\<forall>x \<in> set (credentials s). credential_id_b64 x \<noteq> b64_encode cr (ac_credential_id a)"
      "cred_load cd True (dd_credentials dir') =
         Inr (s\<lparr>credentials := credentials s @ [entry_of cr a label (io_stamp io)]\<rparr>)" "res = Inr ()"
proof (cases "blob_argument io args")
  case (Inl e)
  with assms(3) show ?thesis by (intro refused) (auto simp: cmd_add_def)
next
  case bt: (Inr bt)
  obtain sr sf where sec: "load_or_create_secret (io_readable io) (io_secret io) (io_random io) (dd_secret dir) = (sr, sf)"
    by fastforce
  let ?b = "bindE (map_errE SecretFailed sr) (\<lambda>key. check_blob cr lib (io_clock io) (io_stamp io) key bt)"
  show ?thesis
  proof (cases ?b)
    case (Inl e)
    with assms(3) bt sec show ?thesis by (intro refused) (auto simp: cmd_add_def)
  next
    case (Inr c)
    then obtain key where key: "sr = Inr key" "check_blob cr lib (io_clock io) (io_stamp io) key bt = Inr c"
      by (auto simp: bindE_Inr_iff)
    then obtain a label where a: "blob_grants cr lib (io_clock io) key bt a label" "c = entry_of cr a label (io_stamp io)"
      unfolding check_blob_iff [OF assms(2)] by blast
    obtain f where u: "update_credentials cd io (add_credential c) (dd_credentials dir) = (res, f)"
      and d: "dir' = dir\<lparr>dd_secret := sf, dd_credentials := f\<rparr>"
      using assms(3) bt sec Inr by (auto simp: cmd_add_def split: prod.splits)
    from assms(1) u show ?thesis
    proof (cases rule: update_credentials_cases)
      case same
      with d show ?thesis by (intro refused) (auto simp: add_credential_iff)
    next
      case (changed s s')
      have "credential_id_b64 c = b64_encode cr (ac_credential_id a)" by (simp add: a(2) entry_of_def)
      with changed d bt sec key(1) a show ?thesis by (intro added [of bt key a label s]) (auto simp: add_credential_iff)
    qed
  qed
qed

lemma bump_counter_iff:
  "bump_counter cr i n s = Inr (Some s') \<longleftrightarrow>
     (\<exists>c. find_by_id cr s i = Some c \<and> sc_sign_count c < n) \<and>
     s' = find_by_id_mut cr i (\<lambda>c. c\<lparr>sc_sign_count := n\<rparr>) s"
  by (auto simp: bump_counter_def split: option.splits)

text \<open>The credentials \<open>cmd_remove\<close> deletes: the exact matches, or else the one with that prefix.\<close>

definition removed_by :: "bytes \<Rightarrow> stored_credential list \<Rightarrow> stored_credential \<Rightarrow> bool" where
  "removed_by target cs c \<longleftrightarrow>
     (if \<exists>x \<in> set cs. exact_match target x then exact_match target c else prefix_match target c)"

lemma remove_credential_iff:
  "remove_credential target s = Inr t \<longleftrightarrow>
     (\<exists>x \<in> set (credentials s). removed_by target (credentials s) x) \<and>
     ((\<exists>x \<in> set (credentials s). exact_match target x) \<or> length (filter (prefix_match target) (credentials s)) = 1) \<and>
     t = Some (s\<lparr>credentials := filter (\<lambda>c. \<not> removed_by target (credentials s) c) (credentials s)\<rparr>)"
proof -
  have len: "length xs - length (filter (\<lambda>c. \<not> P c) xs) = length (filter P xs)" for P and xs :: "stored_credential list"
    using sum_length_filter_compl [of P xs] by linarith
  have pos: "0 < length (filter P xs) \<longleftrightarrow> (\<exists>x \<in> set xs. P x)" for P and xs :: "stored_credential list"
    by (auto simp: filter_empty_conv)
  show ?thesis
  proof (cases "\<exists>x \<in> set (credentials s). exact_match target x")
    case True
    then have "removed_by target (credentials s) = exact_match target" by (intro ext) (auto simp: removed_by_def)
    with True show ?thesis unfolding remove_credential_def Let_def by (auto simp: len pos filter_empty_conv)
  next
    case False
    then have "removed_by target (credentials s) = prefix_match target" by (intro ext) (auto simp: removed_by_def)
    moreover have "length (filter (exact_match target) (credentials s)) = 0"
      using False by (simp add: filter_empty_conv)
    moreover have "length (filter (prefix_match target) (credentials s)) = 1 \<longleftrightarrow>
        \<not> 1 < length (filter (prefix_match target) (credentials s)) \<and> (\<exists>x \<in> set (credentials s). prefix_match target x)"
      unfolding pos [symmetric] by linarith
    ultimately show ?thesis
      using False pos [of "prefix_match target" "credentials s"]
      unfolding remove_credential_def Let_def by (auto simp: len)
  qed
qed

text \<open>An acceptable blob is added when nothing fails.\<close>

lemma cmd_add_fine:
  assumes laws: "codec_ok cd" "crypto_laws cr"
    and fine: "io_readable io" "io_locked io" "io_save io = SaveOk"
    and bt: "blob_argument io args = Inr bt"
    and key: "dd_secret dir = Some key" "length key = 32"
    and blob: "blob_grants cr lib (io_clock io) key bt a label"
    and s: "cred_load cd True (dd_credentials dir) = Inr s"
      "\<forall>x \<in> set (credentials s). credential_id_b64 x \<noteq> b64_encode cr (ac_credential_id a)"
  shows "fst (cmd_add cr lib cd io args dir) = Inr ()"
    and "cred_load cd True (dd_credentials (snd (cmd_add cr lib cd io args dir))) =
      Inr (s\<lparr>credentials := credentials s @ [entry_of cr a label (io_stamp io)]\<rparr>)"
proof -
  let ?c = "entry_of cr a label (io_stamp io)"
  have sec: "load_or_create_secret (io_readable io) (io_secret io) (io_random io) (dd_secret dir) = (Inr key, Some key)"
    using fine(1) key by (simp add: load_or_create_secret_def)
  have chk: "check_blob cr lib (io_clock io) (io_stamp io) key bt = Inr ?c"
    using blob unfolding check_blob_iff [OF laws(2)] by blast
  have add: "add_credential ?c s = Inr (Some (s\<lparr>credentials := credentials s @ [?c]\<rparr>))"
    using s(2) by (simp add: add_credential_iff entry_of_def)
  have ld: "cred_load cd (io_readable io) (dd_credentials dir) = Inr s" using s(1) fine(1) by simp
  note up = update_credentials_fine [where change = "add_credential ?c", OF laws(1) fine(2,3) ld add]
  have "cmd_add cr lib cd io args dir =
      (let (res, f) = update_credentials cd io (add_credential ?c) (dd_credentials dir)
       in (res, dir\<lparr>dd_secret := Some key, dd_credentials := f\<rparr>))"
    by (simp add: cmd_add_def bt sec chk)
  with up show "fst (cmd_add cr lib cd io args dir) = Inr ()"
    "cred_load cd True (dd_credentials (snd (cmd_add cr lib cd io args dir))) =
      Inr (s\<lparr>credentials := credentials s @ [?c]\<rparr>)"
    by (simp_all add: split_beta)
qed

lemma cmd_add_secret: "dd_secret dir = Some k \<Longrightarrow> dd_secret (snd (cmd_add cr lib cd io args dir)) = Some k"
  by (simp add: cmd_add_def load_or_create_secret_def Let_def split: sum.splits prod.splits)

section \<open>Sequences of commands\<close>

datatype store_op =
    OpAdd admin_io "bytes list"
  | OpRemove admin_io "bytes list"
  | OpCounter admin_io bytes u32
  | OpIssue admin_io bytes bytes bytes u64 "bytes option"
  | OpRevoke admin_io "bytes list"

fun store_step ::
    "crypto \<Rightarrow> envelope_lib \<Rightarrow> credential_store codec \<Rightarrow> issued_cert_store codec \<Rightarrow> store_op \<Rightarrow> data_dir \<Rightarrow> data_dir" where
  "store_step cr lib cd cc (OpAdd io args) dir = snd (cmd_add cr lib cd io args dir)"
| "store_step cr lib cd cc (OpRemove io args) dir = snd (cmd_remove cd io args dir)"
| "store_step cr lib cd cc (OpCounter io i n) dir = snd (persist_counter_update cr cd io i n dir)"
| "store_step cr lib cd cc (OpIssue io m fp sn na l) dir = snd (issue_cert_entry cc io m fp sn na l dir)"
| "store_step cr lib cd cc (OpRevoke io args) dir = snd (cmd_revoke_cert cc io args dir)"

definition store_run ::
    "crypto \<Rightarrow> envelope_lib \<Rightarrow> credential_store codec \<Rightarrow> issued_cert_store codec \<Rightarrow> store_op list \<Rightarrow> data_dir \<Rightarrow> data_dir" where
  "store_run cr lib cd cc ops dir = fold (store_step cr lib cd cc) ops dir"

lemma issue_dirs [simp]:
  "dd_credentials (snd (issue_cert_entry cc io m fp sn na l dir)) = dd_credentials dir"
  "dd_credentials (snd (cmd_revoke_cert cc io args dir)) = dd_credentials dir"
  by (auto simp: issue_cert_entry_def cmd_revoke_cert_def split: prod.splits sum.splits)

lemma cmd_remove_cases:
  assumes "codec_ok cd" "cmd_remove cd io args dir = (res, dir')"
  obtains (refused) "cred_load cd True (dd_credentials dir') = cred_load cd True (dd_credentials dir)" "\<forall>u. res \<noteq> Inr u"
  | (removed) target rest s s' where "args = target # rest" "cred_load cd True (dd_credentials dir) = Inr s"
      "remove_credential target s = Inr (Some s')" "cred_load cd True (dd_credentials dir') = Inr s'" "res = Inr ()"
proof (cases args)
  case Nil
  with assms(2) show ?thesis by (intro refused) (auto simp: cmd_remove_def)
next
  case (Cons target rest)
  obtain f where u: "update_credentials cd io (remove_credential target) (dd_credentials dir) = (res, f)"
    and d: "dir' = dir\<lparr>dd_credentials := f\<rparr>"
    using assms(2) Cons by (auto simp: cmd_remove_def split: prod.splits)
  from assms(1) u show ?thesis
  proof (cases rule: update_credentials_cases)
    case same
    with d show ?thesis by (intro refused) (auto simp: remove_credential_iff)
  next
    case (changed s s')
    with d Cons show ?thesis by (intro removed) auto
  qed
qed

lemma persist_cases:
  assumes "codec_ok cd" "persist_counter_update cr cd io i n dir = (res, dir')"
  obtains (kept) "cred_load cd True (dd_credentials dir') = cred_load cd True (dd_credentials dir)"
  | (bumped) s s' where "cred_load cd True (dd_credentials dir) = Inr s" "bump_counter cr i n s = Inr (Some s')"
      "cred_load cd True (dd_credentials dir') = Inr s'"
proof -
  obtain f where u: "update_credentials cd io (bump_counter cr i n) (dd_credentials dir) = (res, f)"
    and d: "dir' = dir\<lparr>dd_credentials := f\<rparr>"
    using assms(2) by (auto simp: persist_counter_update_def split: prod.splits)
  from assms(1) u show ?thesis
    by (cases rule: update_credentials_cases) (use d kept bumped in auto)
qed

text \<open>What a step does to the passkeys: nothing, one more, some fewer, or one counter raised.\<close>

lemma store_step_cases:
  assumes "codec_ok cd" "crypto_laws cr" "dir' = store_step cr lib cd cc op dir"
  obtains (kept) "cred_load cd True (dd_credentials dir') = cred_load cd True (dd_credentials dir)"
  | (added) s c where "cred_load cd True (dd_credentials dir) = Inr s"
      "\<forall>x \<in> set (credentials s). credential_id_b64 x \<noteq> credential_id_b64 c"
      "cred_load cd True (dd_credentials dir') = Inr (s\<lparr>credentials := credentials s @ [c]\<rparr>)"
  | (removed) io args s P where "op = OpRemove io args" "cred_load cd True (dd_credentials dir) = Inr s"
      "cred_load cd True (dd_credentials dir') = Inr (s\<lparr>credentials := filter P (credentials s)\<rparr>)"
  | (bumped) i n s s' where "cred_load cd True (dd_credentials dir) = Inr s" "bump_counter cr i n s = Inr (Some s')"
      "cred_load cd True (dd_credentials dir') = Inr s'"
proof (cases op)
  case (OpAdd io args)
  then obtain res where "cmd_add cr lib cd io args dir = (res, dir')"
    using assms(3) by (cases "cmd_add cr lib cd io args dir") auto
  with assms(1,2) show ?thesis
  proof (cases rule: cmd_add_cases)
    case refused
    with kept show ?thesis by blast
  next
    case (added bt key s a label)
    then show ?thesis by (intro that(2) [of s "entry_of cr a label (io_stamp io)"]) (auto simp: entry_of_def)
  qed
next
  case (OpRemove io args)
  then obtain res where "cmd_remove cd io args dir = (res, dir')"
    using assms(3) by (cases "cmd_remove cd io args dir") auto
  with assms(1) show ?thesis
  proof (cases rule: cmd_remove_cases)
    case refused
    with kept show ?thesis by blast
  next
    case (removed target rest s s')
    with OpRemove show ?thesis by (intro that(3)) (auto simp: remove_credential_iff)
  qed
next
  case (OpCounter io i n)
  then obtain res where "persist_counter_update cr cd io i n dir = (res, dir')"
    using assms(3) by (cases "persist_counter_update cr cd io i n dir") auto
  with assms(1) show ?thesis
    by (cases rule: persist_cases) (use kept bumped in blast)+
qed (use assms kept in auto)

definition ids_distinct :: "credential_store \<Rightarrow> bool" where
  "ids_distinct s \<longleftrightarrow> distinct (map credential_id_b64 (credentials s))"

lemma update_first_map:
  "(\<And>x. f (g x) = f x) \<Longrightarrow> map f (update_first P g xs) = map f xs"
  by (induction xs) auto

lemma ids_distinct_step:
  assumes "codec_ok cd" "crypto_laws cr"
    and "\<And>s. cred_load cd True (dd_credentials dir) = Inr s \<Longrightarrow> ids_distinct s"
    and "cred_load cd True (dd_credentials (store_step cr lib cd cc op dir)) = Inr s'"
  shows "ids_distinct s'"
  using assms(1,2) refl
proof (cases rule: store_step_cases [where op = op and dir = dir and lib = lib and cc = cc])
  case kept
  with assms(3,4) show ?thesis by simp
next
  case (added s c)
  then have "ids_distinct s" "s' = s\<lparr>credentials := credentials s @ [c]\<rparr>" using assms(3,4) by auto
  with added(2) show ?thesis by (simp add: ids_distinct_def image_iff) metis
next
  case (removed io args s P)
  with assms(3,4) show ?thesis by (auto simp: ids_distinct_def distinct_map_filter)
next
  case (bumped i n s t)
  with assms(3,4) show ?thesis
    by (auto simp: ids_distinct_def bump_counter_iff find_by_id_mut_def update_first_map)
qed

text \<open>A store has grown: the old entries are still there, in order, with counters no lower.\<close>

definition same_or_later :: "stored_credential \<Rightarrow> stored_credential \<Rightarrow> bool" where
  "same_or_later c c' \<longleftrightarrow>
     sc_label c' = sc_label c \<and> sc_added_at c' = sc_added_at c \<and> credential_id_b64 c' = credential_id_b64 c \<and>
     credential_public_key_b64 c' = credential_public_key_b64 c \<and> sc_sign_count c \<le> sc_sign_count c'"

definition grown :: "stored_credential list \<Rightarrow> stored_credential list \<Rightarrow> bool" where
  "grown cs cs' \<longleftrightarrow> (\<exists>olds news. cs' = olds @ news \<and> list_all2 same_or_later cs olds)"

lemma same_or_later_refl [simp]: "same_or_later c c"
  by (simp add: same_or_later_def)

lemma grown_refl [simp]: "grown cs cs"
  unfolding grown_def by (intro exI [of _ cs] exI [of _ "[]"]) (simp add: list_all2_refl)

lemma grown_trans: "grown a b \<Longrightarrow> grown b c \<Longrightarrow> grown a c"
proof -
  assume "grown a b" "grown b c"
  then obtain o1 n1 o2 n2 where *: "b = o1 @ n1" "list_all2 same_or_later a o1"
    "c = o2 @ n2" "list_all2 same_or_later (o1 @ n1) o2"
    by (auto simp: grown_def)
  then obtain p q where pq: "o2 = p @ q" "list_all2 same_or_later o1 p" by (auto simp: list_all2_append1)
  have "list_all2 same_or_later a p"
    by (rule list_all2_trans [OF _ *(2) pq(2)]) (auto simp: same_or_later_def)
  with * pq show ?thesis unfolding grown_def by (intro exI [of _ p] exI [of _ "q @ n2"]) simp
qed

lemma update_first_grown:
  "(\<And>c. find P cs = Some c \<Longrightarrow> same_or_later c (g c)) \<Longrightarrow> list_all2 same_or_later cs (update_first P g cs)"
  by (induction cs) (auto simp: list_all2_refl)

lemma grown_step:
  assumes "codec_ok cd" "crypto_laws cr"
    and "cred_load cd True (dd_credentials dir) = Inr s"
    and "\<forall>io args. op \<noteq> OpRemove io args"
  shows "\<exists>s'. cred_load cd True (dd_credentials (store_step cr lib cd cc op dir)) = Inr s' \<and>
    grown (credentials s) (credentials s')"
  using assms(1,2) refl
proof (cases rule: store_step_cases [where op = op and dir = dir and lib = lib and cc = cc])
  case kept
  with assms(3) show ?thesis by simp
next
  case (added t c)
  moreover have "grown (credentials s) (credentials s @ [c])"
    unfolding grown_def by (intro exI [of _ "credentials s"] exI [of _ "[c]"]) (simp add: list_all2_refl)
  ultimately show ?thesis using assms(3) by auto
next
  case (removed io args t P)
  with assms(4) show ?thesis by blast
next
  case (bumped i n t u)
  then have "list_all2 same_or_later (credentials s) (credentials u)"
    using assms(3)
    by (auto simp: bump_counter_iff find_by_id_mut_def find_by_id_def same_or_later_def intro!: update_first_grown)
  with bumped(3) show ?thesis unfolding grown_def by (metis append_Nil2)
qed

lemma run_grown:
  assumes "codec_ok cd" "crypto_laws cr"
    and "cred_load cd True (dd_credentials dir) = Inr s"
    and "\<forall>io args. OpRemove io args \<notin> set ops"
  shows "\<exists>s'. cred_load cd True (dd_credentials (store_run cr lib cd cc ops dir)) = Inr s' \<and>
    grown (credentials s) (credentials s')"
  using assms(3,4)
proof (induction ops arbitrary: dir s)
  case (Cons op ops)
  have no: "\<forall>io args. op \<noteq> OpRemove io args" "\<forall>io args. OpRemove io args \<notin> set ops"
    using Cons.prems(2) by auto
  obtain s1 where s1: "cred_load cd True (dd_credentials (store_step cr lib cd cc op dir)) = Inr s1"
    "grown (credentials s) (credentials s1)"
    using grown_step [OF assms(1,2) Cons.prems(1) no(1)] by blast
  obtain s' where "cred_load cd True (dd_credentials (store_run cr lib cd cc ops (store_step cr lib cd cc op dir))) = Inr s'"
    "grown (credentials s1) (credentials s')"
    using Cons.IH [OF s1(1) no(2)] by blast
  with s1(2) show ?case by (auto simp: store_run_def intro: grown_trans)
qed (auto simp: store_run_def)

lemma cmd_revoke_cases:
  assumes "codec_ok cc" "cmd_revoke_cert cc io args dir = (res, dir')"
  obtains (refused) "cert_load cc True (dd_certs dir') = cert_load cc True (dd_certs dir)" "\<forall>u. res \<noteq> Inr u"
  | (revoked) serial machine s where "revoke_args args None None = Inr (serial, machine)"
      "cert_load cc True (dd_certs dir) = Inr s" "\<exists>c \<in> set (certs s). revoked_by serial machine c"
      "cert_load cc True (dd_certs dir') = Inr (s\<lparr>certs := filter (\<lambda>c. \<not> revoked_by serial machine c) (certs s)\<rparr>)"
      "res = Inr ()"
proof (cases "revoke_args args None None")
  case (Inl e)
  with assms(2) show ?thesis by (intro refused) (auto simp: cmd_revoke_cert_def)
next
  case (Inr p)
  obtain serial machine where p: "p = (serial, machine)" by (cases p)
  have len: "length xs - length (filter (\<lambda>c. \<not> P c) xs) = length (filter P xs)" for P and xs :: "issued_cert_entry list"
    using sum_length_filter_compl [of P xs] by linarith
  have rev: "revoke_certs serial machine s = Inr t \<longleftrightarrow> (\<exists>c \<in> set (certs s). revoked_by serial machine c) \<and>
      t = Some (s\<lparr>certs := filter (\<lambda>c. \<not> revoked_by serial machine c) (certs s)\<rparr>)" for s t
    by (auto simp: revoke_certs_def remove_where_def Let_def len filter_empty_conv)
  show ?thesis
  proof (cases "serial = None \<and> machine = None")
    case True
    with assms(2) Inr p show ?thesis by (intro refused) (auto simp: cmd_revoke_cert_def)
  next
    case False
    obtain res' f where u': "update_certs cc io (revoke_certs serial machine) (dd_certs dir) = (res', f)"
      by (cases "update_certs cc io (revoke_certs serial machine) (dd_certs dir)")
    have "cmd_revoke_cert cc io args dir = (res', dir\<lparr>dd_certs := f\<rparr>)"
      unfolding cmd_revoke_cert_def Inr p sum.case prod.case if_not_P [OF False] Let_def u' by (rule refl)
    with assms(2) u' have u: "update_certs cc io (revoke_certs serial machine) (dd_certs dir) = (res, f)"
      and d: "dir' = dir\<lparr>dd_certs := f\<rparr>"
      by simp_all
    from assms(1) u show ?thesis
    proof (cases rule: update_certs_cases)
      case same
      have "revoke_certs serial machine s \<noteq> Inr None" for s by (simp add: rev)
      with same d show ?thesis by (intro refused) auto
    next
      case (changed s s')
      from changed(2) have t: "\<exists>c \<in> set (certs s). revoked_by serial machine c"
        "s' = s\<lparr>certs := filter (\<lambda>c. \<not> revoked_by serial machine c) (certs s)\<rparr>"
        unfolding rev by simp_all
      show ?thesis
      proof (rule revoked)
        show "revoke_args args None None = Inr (serial, machine)" by (simp only: Inr p)
        show "cert_load cc True (dd_certs dir') =
            Inr (s\<lparr>certs := filter (\<lambda>c. \<not> revoked_by serial machine c) (certs s)\<rparr>)"
          using changed(3) t(2) d by simp
      qed (use changed t in blast)+
    qed
  qed
qed

section \<open>Properties\<close>


text \<open>
  Whatever commands the operator runs and counters the hub updates, with reads, locks and saves failing
  anywhere, no two stored passkeys share a credential id.
\<close>

theorem passkey_ids_stay_distinct:
  assumes "codec_ok cd" "crypto_laws cr"
    and "\<forall>s. cred_load cd True (dd_credentials dir) = Inr s \<longrightarrow> ids_distinct s"
    and "cred_load cd True (dd_credentials (store_run cr lib cd cc ops dir)) = Inr s'"
  shows "ids_distinct s'"
  using assms(3,4)
proof (induction ops arbitrary: dir)
  case (Cons op ops)
  from Cons.prems(1) have "\<forall>s. cred_load cd True (dd_credentials (store_step cr lib cd cc op dir)) = Inr s \<longrightarrow> ids_distinct s"
    using ids_distinct_step [OF assms(1,2)] by blast
  with Cons show ?case by (auto simp: store_run_def)
qed (auto simp: store_run_def)

text \<open>
  C36. Without a \<open>remove\<close>, no sequence of commands and counter updates, interrupted anywhere, loses a passkey:
  each keeps its place, label, id and public key, and its signature counter never goes down.
\<close>

theorem passkeys_survive:
  assumes "codec_ok cd" "crypto_laws cr"
    and "cred_load cd True (dd_credentials dir) = Inr s"
    and "\<forall>io args. OpRemove io args \<notin> set ops"
  shows "\<exists>s'. cred_load cd True (dd_credentials (store_run cr lib cd cc ops dir)) = Inr s' \<and>
    grown (credentials s) (credentials s')"
  using assms by (rule run_grown)

text \<open>
  \<open>remove\<close> deletes the passkeys whose label or id is the target and, when there are none, the only one
  whose id starts with it. An ambiguous prefix, no match or a failed save deletes nothing and is
  reported as an error.
\<close>

theorem remove_passkey_exact:
  assumes "codec_ok cd" "cmd_remove cd io args dir = (res, dir')"
  shows "(\<exists>e. res = Inl e \<and> cred_load cd True (dd_credentials dir') = cred_load cd True (dd_credentials dir)) \<or>
    (res = Inr () \<and> (\<exists>target rest s gone. args = target # rest \<and> cred_load cd True (dd_credentials dir) = Inr s \<and>
       cred_load cd True (dd_credentials dir') = Inr (s\<lparr>credentials := filter (\<lambda>c. \<not> gone c) (credentials s)\<rparr>) \<and>
       filter gone (credentials s) \<noteq> [] \<and>
       (gone = exact_match target \<or>
        filter (exact_match target) (credentials s) = [] \<and> gone = prefix_match target \<and>
        length (filter gone (credentials s)) = 1)))"
  using assms
proof (cases rule: cmd_remove_cases)
  case refused
  then show ?thesis by (cases res) auto
next
  case (removed target rest s s')
  let ?gone = "removed_by target (credentials s)"
  have g: "?gone = (if \<exists>x \<in> set (credentials s). exact_match target x then exact_match target else prefix_match target)"
    by (intro ext) (simp add: removed_by_def)
  from removed(3) have *: "\<exists>x \<in> set (credentials s). ?gone x"
    "(\<exists>x \<in> set (credentials s). exact_match target x) \<or> length (filter (prefix_match target) (credentials s)) = 1"
    "s' = s\<lparr>credentials := filter (\<lambda>c. \<not> ?gone c) (credentials s)\<rparr>"
    by (auto simp: remove_credential_iff)
  have "filter ?gone (credentials s) \<noteq> []" using *(1) by (auto simp: filter_empty_conv)
  moreover have "?gone = exact_match target \<or> filter (exact_match target) (credentials s) = [] \<and>
      ?gone = prefix_match target \<and> length (filter ?gone (credentials s)) = 1"
    using *(2) unfolding g by (auto simp: filter_empty_conv)
  ultimately show ?thesis using removed *(3) by blast
qed

text \<open>
  After a successful \<open>revoke-cert\<close> no entry with the given serial or machine id is left in the list of
  issued certificates and every other entry is kept in order; a command that fails, at whatever
  point, leaves the list as it was.
\<close>

theorem revoke_cert_exact:
  assumes "codec_ok cc" "cmd_revoke_cert cc io args dir = (res, dir')"
  shows "(\<exists>e. res = Inl e \<and> cert_load cc True (dd_certs dir') = cert_load cc True (dd_certs dir)) \<or>
    (res = Inr () \<and> (\<exists>serial machine s. revoke_args args None None = Inr (serial, machine) \<and>
       cert_load cc True (dd_certs dir) = Inr s \<and> (\<exists>c \<in> set (certs s). revoked_by serial machine c) \<and>
       cert_load cc True (dd_certs dir') = Inr (s\<lparr>certs := filter (\<lambda>c. \<not> revoked_by serial machine c) (certs s)\<rparr>)))"
  using assms
proof (cases rule: cmd_revoke_cases)
  case refused
  then show ?thesis by (cases res) auto
qed blast

section \<open>Examples\<close>

definition blob_fields :: "paste_blob \<Rightarrow> bytes list" where
  "blob_fields b =
     (let e = pb_envelope b; r = pb_response b in
      [en_rp_id (se_inner e), en_origin (se_inner e), be64 (en_issued_at (se_inner e)), en_challenge_b64u (se_inner e),
       se_hmac_b64 e, rr_id r, rr_raw_id r, rr_ty r, ri_client_data_json (rr_response r),
       ri_attestation_object (rr_response r), (case pb_label b of None \<Rightarrow> [] | Some l \<Rightarrow> 1 # l)])"

fun blob_of_fields :: "bytes list \<Rightarrow> paste_blob option" where
  "blob_of_fields [rp, og, t, ch, mac, i, raw, ty, cd, att, l] =
     Some \<lparr>pb_envelope = \<lparr>se_inner = \<lparr>en_rp_id = rp, en_origin = og, en_issued_at = from_be64 t, en_challenge_b64u = ch\<rparr>,
                           se_hmac_b64 = mac\<rparr>,
           pb_response = \<lparr>rr_id = i, rr_raw_id = raw, rr_ty = ty,
                          rr_response = \<lparr>ri_client_data_json = cd, ri_attestation_object = att\<rparr>\<rparr>,
           pb_label = (case l of [] \<Rightarrow> None | _ # l \<Rightarrow> Some l)\<rparr>"
| "blob_of_fields _ = None"

definition demo_vault :: crypto where
  "demo_vault = demo_crypto\<lparr>b64_encode := letters, b64_decode := (\<lambda>b. Some (unletters b))\<rparr>"

definition demo_lib :: envelope_lib where
  "demo_lib =
     \<lparr>hmac_sha256 = (\<lambda>k b. Some (k @ b)),
      inner_json = (\<lambda>i. pack [en_rp_id i, en_origin i, be64 (en_issued_at i), en_challenge_b64u i]),
      blob_json = pack_codec blob_fields blob_of_fields\<rparr>"

lemma graphic_letters: "graphic (letters x)"
proof -
  have "0x21 \<le> c \<and> c < 0x7F" if "c \<in> set (letters x)" for c
    using letter_range [OF that] by (auto simp: word_le_nat_alt word_less_nat_alt)
  then show ?thesis by (auto simp: graphic_def list_all_iff)
qed

lemma demo_vault_laws [simp]: "crypto_laws demo_vault"
  using demo_crypto_laws by (simp add: crypto_laws_def demo_vault_def)

lemma demo_lib_laws [simp]: "envelope_laws demo_vault demo_lib"
proof -
  have "codec_ok (blob_json demo_lib)"
    by (simp add: demo_lib_def)
      (rule codec_ok_pack, simp add: blob_fields_def Let_def split: option.splits)
  then show ?thesis
    by (simp add: envelope_laws_def) (simp add: demo_vault_def graphic_letters)
qed

lemma good_registration_vault: "good_registration demo_vault = good_registration demo_crypto"
  by (intro ext) (simp add: good_registration_def client_data_says_def demo_vault_def)

definition demo_inner :: envelope_inner where
  "demo_inner = \<lparr>en_rp_id = bstr ''h'', en_origin = bstr ''https://h'', en_issued_at = 1000, en_challenge_b64u = replicate 32 7\<rparr>"

definition demo_secret :: bytes where "demo_secret = replicate 32 9"

definition demo_envelope :: signed_envelope where
  "demo_envelope =
     \<lparr>se_inner = demo_inner, se_hmac_b64 = letters (demo_secret @ inner_json demo_lib demo_inner)\<rparr>"

definition demo_blob :: paste_blob where
  "demo_blob = \<lparr>pb_envelope = demo_envelope, pb_response = demo_creation, pb_label = None\<rparr>"

definition demo_io :: admin_io where
  "demo_io = \<lparr>io_stdin = None, io_clock = 1600, io_stamp = 1600, io_random = replicate 32 0, io_readable = True,
              io_secret = SaveOk, io_locked = True, io_save = SaveOk\<rparr>"

definition demo_dir :: data_dir where
  "demo_dir = \<lparr>dd_credentials = \<lparr>sf_body = None, sf_tmp = None\<rparr>, dd_certs = \<lparr>sf_body = None, sf_tmp = None\<rparr>,
               dd_secret = Some demo_secret\<rparr>"

definition demo_args :: "bytes list" where
  "demo_args = [encode_paste_blob demo_vault demo_lib demo_blob]"

lemma demo_blob_argument: "blob_argument demo_io demo_args = Inr (encode_paste_blob demo_vault demo_lib demo_blob)"
proof -
  have "length (letters (pack xs)) \<noteq> 1" for xs by (simp add: letters_def pack_def)
  moreover have "encode_paste_blob demo_vault demo_lib demo_blob = letters (pack (blob_fields demo_blob))"
    by (simp add: encode_paste_blob_def demo_vault_def demo_lib_def pack_codec_def)
  ultimately have "encode_paste_blob demo_vault demo_lib demo_blob \<noteq> [b]" for b by (metis length_Cons list.size(3) One_nat_def)
  then show ?thesis by (simp add: blob_argument_def demo_args_def bstr_def)
qed

lemma demo_blob_grants:
  "\<exists>a. blob_grants demo_vault demo_lib 1600 demo_secret (encode_paste_blob demo_vault demo_lib demo_blob) a None \<and>
     ac_credential_id a = [3] \<and> ac_public_key a = demo_key \<and> sign_count (ac_prefix a) = 8"
proof -
  obtain a where a: "good_registration demo_crypto demo_creation (replicate 32 7) (bstr ''h'') (bstr ''https://h'') a"
    "ac_credential_id a = [3]" "ac_public_key a = demo_key" "sign_count (ac_prefix a) = 8"
    using demo_creation_accepted by (auto simp: finish_register_iff)
  have g: "graphic (encode_paste_blob demo_vault demo_lib demo_blob)"
    by (simp add: encode_paste_blob_def demo_vault_def graphic_letters)
  have "decode_paste_blob demo_vault demo_lib (str_trim (encode_paste_blob demo_vault demo_lib demo_blob)) = Inr demo_blob"
    by (rule decode_encode_paste_blob) (simp_all add: str_trim_graphic [OF g] strip_whitespace_graphic [OF g])
  moreover have "good_registration demo_vault (pb_response demo_blob) (replicate 32 7)
      (en_rp_id (se_inner (pb_envelope demo_blob))) (en_origin (se_inner (pb_envelope demo_blob))) a"
    using a(1) by (simp add: good_registration_vault demo_blob_def demo_envelope_def demo_inner_def)
  moreover have "b64_decode demo_vault (se_hmac_b64 (pb_envelope demo_blob)) =
      hmac_sha256 demo_lib demo_secret (inner_json demo_lib (se_inner (pb_envelope demo_blob)))"
    by (simp add: demo_blob_def demo_envelope_def demo_vault_def demo_lib_def)
  ultimately have "blob_grants demo_vault demo_lib 1600 demo_secret (encode_paste_blob demo_vault demo_lib demo_blob) a None"
    unfolding blob_grants_def
    by (intro exI [of _ demo_blob] exI [of _ "replicate 32 7"]) (auto simp: demo_blob_def demo_envelope_def demo_inner_def demo_vault_def demo_crypto_def demo_lib_def)
  with a show ?thesis by blast
qed

lemma demo_added:
  "fst (cmd_add demo_vault demo_lib demo_cred_codec demo_io demo_args demo_dir) = Inr ()"
proof -
  obtain a where "blob_grants demo_vault demo_lib (io_clock demo_io) demo_secret (encode_paste_blob demo_vault demo_lib demo_blob) a None"
    using demo_blob_grants by (auto simp: demo_io_def)
  from cmd_add_fine(1) [OF _ _ _ _ _ demo_blob_argument _ _ this, of demo_cred_codec demo_dir "\<lparr>credentials = []\<rparr>"]
  show ?thesis by (simp add: demo_io_def demo_dir_def demo_secret_def cred_load_def)
qed


definition demo_ops :: "store_op list" where
  "demo_ops = [OpAdd demo_io demo_args, OpCounter demo_io [3] 9, OpAdd (demo_io\<lparr>io_save := WriteFails 5\<rparr>) demo_args]"

theorem passkey_ids_stay_distinct_witness:
  "codec_ok demo_cred_codec \<and> crypto_laws demo_vault \<and>
   (\<exists>s. cred_load demo_cred_codec True
          (dd_credentials (store_run demo_vault demo_lib demo_cred_codec demo_cert_codec demo_ops demo_dir)) = Inr s \<and> ids_distinct s)"
proof -
  have empty: "cred_load demo_cred_codec True (dd_credentials demo_dir) = Inr \<lparr>credentials = []\<rparr>"
    by (simp add: demo_dir_def cred_load_def)
  have "\<forall>io args. OpRemove io args \<notin> set demo_ops" by (simp add: demo_ops_def)
  then obtain s where s: "cred_load demo_cred_codec True
      (dd_credentials (store_run demo_vault demo_lib demo_cred_codec demo_cert_codec demo_ops demo_dir)) = Inr s"
    using run_grown [OF demo_cred_codec_ok demo_vault_laws empty] by blast
  have "\<forall>s. cred_load demo_cred_codec True (dd_credentials demo_dir) = Inr s \<longrightarrow> ids_distinct s"
    by (simp add: empty ids_distinct_def)
  from passkey_ids_stay_distinct [OF demo_cred_codec_ok demo_vault_laws this s] s
  show ?thesis by simp
qed

theorem passkeys_survive_witness:
  "codec_ok demo_cred_codec \<and> crypto_laws demo_vault \<and>
   (\<exists>s s'. cred_load demo_cred_codec True
        (dd_credentials (store_run demo_vault demo_lib demo_cred_codec demo_cert_codec [OpAdd demo_io demo_args] demo_dir)) = Inr s \<and>
      length (credentials s) = 1 \<and>
      cred_load demo_cred_codec True
        (dd_credentials (store_run demo_vault demo_lib demo_cred_codec demo_cert_codec demo_ops
           (store_run demo_vault demo_lib demo_cred_codec demo_cert_codec [OpAdd demo_io demo_args] demo_dir))) = Inr s' \<and>
      grown (credentials s) (credentials s'))"
proof -
  obtain s where s: "cred_load demo_cred_codec True
      (dd_credentials (store_run demo_vault demo_lib demo_cred_codec demo_cert_codec [OpAdd demo_io demo_args] demo_dir)) = Inr s"
    "length (credentials s) = 1"
  proof -
    obtain a where "blob_grants demo_vault demo_lib (io_clock demo_io) demo_secret (encode_paste_blob demo_vault demo_lib demo_blob) a None"
      using demo_blob_grants by (auto simp: demo_io_def)
    from cmd_add_fine(2) [OF _ _ _ _ _ demo_blob_argument _ _ this, of demo_cred_codec demo_dir "\<lparr>credentials = []\<rparr>"]
    show ?thesis by (intro that) (auto simp: store_run_def demo_io_def demo_dir_def demo_secret_def cred_load_def [where f = "\<lparr>sf_body = None, sf_tmp = None\<rparr>"])
  qed
  have "\<forall>io args. OpRemove io args \<notin> set demo_ops" by (simp add: demo_ops_def)
  from passkeys_survive [OF demo_cred_codec_ok demo_vault_laws s(1) this] s show ?thesis by auto
qed

definition demo_credential :: "string \<Rightarrow> string \<Rightarrow> stored_credential" where
  "demo_credential l i = \<lparr>sc_label = bstr l, sc_added_at = [], credential_id_b64 = bstr i, credential_public_key_b64 = [], sc_sign_count = 0\<rparr>"

definition demo_three :: data_dir where
  "demo_three = demo_dir\<lparr>dd_credentials :=
     \<lparr>sf_body = Some (ser demo_cred_codec \<lparr>credentials = [demo_credential ''blue'' ''AAB'', demo_credential ''red'' ''AAC'', demo_credential ''new'' ''BBB'']\<rparr>),
      sf_tmp = None\<rparr>\<rparr>"

theorem remove_passkey_exact_witness:
  "codec_ok demo_cred_codec \<and>
   cred_load demo_cred_codec True (dd_credentials (snd (cmd_remove demo_cred_codec demo_io [bstr ''AA''] demo_three))) =
     cred_load demo_cred_codec True (dd_credentials demo_three) \<and>
   (\<exists>e. fst (cmd_remove demo_cred_codec demo_io [bstr ''AA''] demo_three) = Inl e) \<and>
   fst (cmd_remove demo_cred_codec demo_io [bstr ''B''] demo_three) = Inr ()"
proof -
  have ld: "cred_load demo_cred_codec True (dd_credentials demo_three) =
      Inr \<lparr>credentials = [demo_credential ''blue'' ''AAB'', demo_credential ''red'' ''AAC'', demo_credential ''new'' ''BBB'']\<rparr>"
    using demo_cred_codec_ok by (simp add: demo_three_def cred_load_def codec_ok_def)
  note defs = cmd_remove_def update_credentials_def locked_update_def ld demo_io_def remove_credential_def Let_def
    exact_match_def prefix_match_def starts_with_def demo_credential_def bstr_def
  have aa: "\<exists>e. fst (cmd_remove demo_cred_codec demo_io [bstr ''AA''] demo_three) = Inl e" by (simp add: defs)
  then obtain e where "cmd_remove demo_cred_codec demo_io [bstr ''AA''] demo_three =
      (Inl e, snd (cmd_remove demo_cred_codec demo_io [bstr ''AA''] demo_three))"
    by (metis prod.collapse)
  from remove_passkey_exact [OF demo_cred_codec_ok this]
  have "cred_load demo_cred_codec True (dd_credentials (snd (cmd_remove demo_cred_codec demo_io [bstr ''AA''] demo_three))) =
     cred_load demo_cred_codec True (dd_credentials demo_three)" by auto
  moreover have "fst (cmd_remove demo_cred_codec demo_io [bstr ''B''] demo_three) = Inr ()"
    by (simp add: defs cred_save_atomic_def)
  ultimately show ?thesis using aa by simp
qed

definition demo_cert :: "string \<Rightarrow> string \<Rightarrow> issued_cert_entry" where
  "demo_cert m n = \<lparr>ce_machine_id = bstr m, ce_fingerprint = bstr n, ce_serial_hex = bstr n, ce_issued_at = [],
                    ce_not_after_unix = 5, ce_label = None\<rparr>"

definition demo_certs_dir :: data_dir where
  "demo_certs_dir = demo_dir\<lparr>dd_certs :=
     \<lparr>sf_body = Some (ser demo_cert_codec \<lparr>certs = [demo_cert ''alpha'' ''01'', demo_cert ''beta'' ''02'']\<rparr>), sf_tmp = None\<rparr>\<rparr>"

theorem revoke_cert_exact_witness:
  "codec_ok demo_cert_codec \<and>
   cert_load demo_cert_codec True (dd_certs (snd (cmd_revoke_cert demo_cert_codec demo_io [bstr ''--id'', bstr ''alpha''] demo_certs_dir))) =
     Inr \<lparr>certs = [demo_cert ''beta'' ''02'']\<rparr>"
proof -
  have ld: "cert_load demo_cert_codec True (dd_certs demo_certs_dir) = Inr \<lparr>certs = [demo_cert ''alpha'' ''01'', demo_cert ''beta'' ''02'']\<rparr>"
    using demo_cert_codec_ok by (simp add: demo_certs_dir_def cert_load_def codec_ok_def)
  have ra: "revoke_args [bstr ''--id'', bstr ''alpha''] None None = Inr (None, Some (bstr ''alpha''))"
    by (simp add: bstr_def)
  let ?r = "cmd_revoke_cert demo_cert_codec demo_io [bstr ''--id'', bstr ''alpha''] demo_certs_dir"
  have "fst ?r = Inr ()"
    by (simp add: cmd_revoke_cert_def ra update_certs_def locked_update_def ld demo_io_def revoke_certs_def remove_where_def
        revoked_by_def demo_cert_def bstr_def cert_save_atomic_def)
  then have "?r = (Inr (), snd ?r)" by (metis prod.collapse)
  from revoke_cert_exact [OF demo_cert_codec_ok this] ra ld
  show ?thesis by (auto simp: revoked_by_def demo_cert_def bstr_def)
qed

end
