(* ===== verification/Hub_Login.thy ===== *)
theory Hub_Login
  imports Hub_Admin
begin

text \<open>
  The hub's browser side: the login and registration handlers of \<open>hub/src/webauthn_routes.rs\<close>, the
  bearer tokens of \<open>auth.rs\<close>, the shared maps and their expiry of \<open>state.rs\<close>, the origin check of
  \<open>edge.rs\<close> and the route tables of \<open>main.rs\<close>.

  Times are nanoseconds since the epoch. A handler that reads the clock more than once takes one
  argument per reading; nothing is assumed of their order. A handler that releases a lock or waits
  between two accesses to shared state is split there: a login is offered (the store is read), issued
  (the challenge is stored), taken (the challenge is removed), verified, persisted and minted, and
  the relation \<open>hub_run\<close> interleaves these steps of any number of requests with token checks,
  logouts and the operator's commands on the same data directory. Nonces, tokens and challenges are
  arguments: nothing is assumed of the random source.
\<close>

section \<open>Expiring maps\<close>

type_synonym nanos = nat

definition secs :: "nat \<Rightarrow> nanos" where "secs n = n * 1000000000"

definition SESSION_TTL :: nanos where "SESSION_TTL = secs (12 * 60 * 60)"
definition PENDING_LOGIN_TTL :: nanos where "PENDING_LOGIN_TTL = secs (5 * 60)"
definition MAX_PENDING_LOGINS :: nat where "MAX_PENDING_LOGINS = 1024"

record pending_login =
  pl_challenge :: bytes
  pl_allowed_ids :: "bytes list"
  pl_expires_at :: nanos

record login_session =
  ls_expires_at :: nanos

definition hub_gc :: "nanos \<Rightarrow> ('v \<Rightarrow> nanos) \<Rightarrow> (bytes, 'v) hash_map \<Rightarrow> (bytes, 'v) hash_map" where
  "hub_gc now expiry m = filter (\<lambda>(k, v). expiry v > now) m"

section \<open>Bearer tokens\<close>

definition mint_token :: "crypto \<Rightarrow> bytes \<Rightarrow> bytes" where
  "mint_token cr buf = b64u_encode cr buf"

definition store_token ::
    "nanos \<Rightarrow> nanos \<Rightarrow> bytes \<Rightarrow> (bytes, login_session) hash_map \<Rightarrow> nanos \<times> (bytes, login_session) hash_map" where
  "store_token now gc_now token sessions =
     (let expires_at = now + SESSION_TTL in
      (expires_at, hm_insert token \<lparr>ls_expires_at = expires_at\<rparr> (hub_gc gc_now ls_expires_at sessions)))"

definition validate_token ::
    "nanos \<Rightarrow> nanos \<Rightarrow> bytes \<Rightarrow> (bytes, login_session) hash_map \<Rightarrow> bool \<times> (bytes, login_session) hash_map" where
  "validate_token gc_now now token sessions =
     (let sessions = hub_gc gc_now ls_expires_at sessions in
      (case hm_get sessions token of None \<Rightarrow> False | Some s \<Rightarrow> ls_expires_at s > now, sessions))"

definition drop_token :: "bytes \<Rightarrow> (bytes, login_session) hash_map \<Rightarrow> (bytes, login_session) hash_map" where
  "drop_token token sessions = hm_remove token sessions"

definition ttl_secs :: "nanos \<Rightarrow> nanos \<Rightarrow> nat" where
  "ttl_secs expires_at now = (expires_at - now) div 1000000000"

section \<open>Requests\<close>

type_synonym headers = "(bytes \<times> bytes) list"

text \<open>\<open>HeaderValue::to_str\<close>\<close>

definition to_str :: "bytes \<Rightarrow> bytes option" where
  "to_str v = (if list_all (\<lambda>b. (0x20 \<le> b \<and> b < 0x7F) \<or> b = 0x09) v then Some v else None)"

definition header_get :: "headers \<Rightarrow> string \<Rightarrow> bytes option" where
  "header_get hs name = map_of hs (bstr name)"

definition header_get_all :: "headers \<Rightarrow> string \<Rightarrow> bytes list" where
  "header_get_all hs name = map snd (filter (\<lambda>h. fst h = bstr name) hs)"

record listener_mode =
  lm_no_auth :: bool
  lm_origin :: bytes

datatype auth_rejection = MissingBearer | InvalidBearer

definition bearer_from_request ::
    "nanos \<Rightarrow> nanos \<Rightarrow> listener_mode option \<Rightarrow> headers \<Rightarrow> (bytes, login_session) hash_map
       \<Rightarrow> (auth_rejection + bytes) \<times> (bytes, login_session) hash_map" where
  "bearer_from_request gc_now now mode hs sessions =
     (if (case mode of Some m \<Rightarrow> lm_no_auth m | None \<Rightarrow> False) then (Inr [], sessions)
      else case Option.bind (Option.bind (header_get hs ''authorization'') to_str) (strip_prefix (bstr ''Bearer '')) of
        None \<Rightarrow> (Inl MissingBearer, sessions)
      | Some token \<Rightarrow>
          (let (valid, sessions) = validate_token gc_now now token sessions
           in (if valid then Inr token else Inl InvalidBearer, sessions)))"

definition token_from_ws_protocol :: "headers \<Rightarrow> (bytes \<times> bytes) option" where
  "token_from_ws_protocol hs =
     (let parts = concat (map (split_on 0x2C) (List.map_filter to_str (header_get_all hs ''sec-websocket-protocol'')));
          raw = find (starts_with (bstr ''bearer.'')) (map str_trim parts)
      in Option.bind raw (\<lambda>raw. map_option (\<lambda>token. (token, raw)) (strip_prefix (bstr ''bearer.'') raw)))"

definition check_origin :: "headers \<Rightarrow> bytes \<Rightarrow> bool" where
  "check_origin hs expected_origin =
     (case Option.bind (header_get hs ''origin'') to_str of
        None \<Rightarrow> False
      | Some origin \<Rightarrow> origin = expected_origin)"

text \<open>The edge middleware: a request with an \<open>Origin\<close> header must name this listener's.\<close>

definition edge_allows :: "bytes \<Rightarrow> headers \<Rightarrow> bool" where
  "edge_allows origin hs =
     (case header_get hs ''origin'' of
        None \<Rightarrow> True
      | Some v \<Rightarrow> (case to_str v of None \<Rightarrow> False | Some o' \<Rightarrow> o' = origin))"

section \<open>Configuration\<close>

record hub_config =
  cfg_domain :: bytes
  cfg_rp_id :: bytes
  cfg_rp_name :: bytes
  cfg_public_origin :: "bytes option"

definition config_origin :: "hub_config \<Rightarrow> bytes" where
  "config_origin cfg =
     (case cfg_public_origin cfg of Some p \<Rightarrow> p | None \<Rightarrow> bstr ''https://'' @ cfg_domain cfg)"

section \<open>Registration\<close>

record register_start_resp =
  rs_ccr :: creation_options
  rs_envelope :: signed_envelope
  rs_rp_id :: bytes
  rs_origin :: bytes
  rs_ttl_secs :: u64

definition register_start ::
    "crypto \<Rightarrow> envelope_lib \<Rightarrow> hub_config \<Rightarrow> bytes \<Rightarrow> int \<Rightarrow> bytes \<Rightarrow> bytes \<Rightarrow> envelope_error + register_start_resp" where
  "register_start cr lib cfg secret clock user_id challenge =
     (let user_name = bstr ''term-admin-'' @ take 8 (b64u_encode cr user_id);
          ccr = creation_options_build cr (cfg_rp_id cfg) (cfg_rp_name cfg) user_id user_name (bstr ''term admin'') challenge;
          inner = \<lparr>en_rp_id = cfg_rp_id cfg, en_origin = config_origin cfg, en_issued_at = issued_at_now clock,
                   en_challenge_b64u = to_b64url cr challenge\<rparr>
      in bindE (envelope_sign cr lib secret inner) (\<lambda>envelope.
           Inr \<lparr>rs_ccr = ccr, rs_envelope = envelope, rs_rp_id = cfg_rp_id cfg, rs_origin = config_origin cfg,
                rs_ttl_secs = ENVELOPE_TTL_SECS\<rparr>))"

section \<open>Login\<close>

datatype login_error =
    LoadFailed store_error
  | NoCredentials
  | BadStoredId store_error
  | TooManyLogins
  | UnknownNonce
  | AuthFailed webauthn_error

fun map_okE :: "('a \<Rightarrow> 'e + 'b) \<Rightarrow> 'a list \<Rightarrow> 'e + 'b list" where
  "map_okE f [] = Inr []"
| "map_okE f (x # xs) = bindE (f x) (\<lambda>y. bindE (map_okE f xs) (\<lambda>ys. Inr (y # ys)))"

text \<open>\<open>login_start\<close> up to the lock: the credentials to offer.\<close>

definition login_offer ::
    "crypto \<Rightarrow> credential_store codec \<Rightarrow> bool \<Rightarrow> store_file \<Rightarrow> login_error + bytes list" where
  "login_offer cr cd readable f =
     bindE (map_errE LoadFailed (cred_load cd readable f)) (\<lambda>store.
       if credentials store = [] then Inl NoCredentials
       else map_okE (\<lambda>c. map_errE BadStoredId (credential_id cr c)) (credentials store))"

text \<open>\<open>login_start\<close> under the lock.\<close>

definition login_issue ::
    "nanos \<Rightarrow> nanos \<Rightarrow> bytes \<Rightarrow> bytes \<Rightarrow> bytes list \<Rightarrow> (bytes, pending_login) hash_map
       \<Rightarrow> (login_error + unit) \<times> (bytes, pending_login) hash_map" where
  "login_issue gc_now now nonce challenge allowed_ids pending =
     (let pending = hub_gc gc_now pl_expires_at pending in
      if length pending \<ge> MAX_PENDING_LOGINS then (Inl TooManyLogins, pending)
      else (Inr (), hm_insert nonce
              \<lparr>pl_challenge = challenge, pl_allowed_ids = allowed_ids, pl_expires_at = now + PENDING_LOGIN_TTL\<rparr> pending))"

definition login_start ::
    "crypto \<Rightarrow> credential_store codec \<Rightarrow> hub_config \<Rightarrow> bool \<Rightarrow> store_file \<Rightarrow> nanos \<Rightarrow> nanos \<Rightarrow> bytes \<Rightarrow> bytes
       \<Rightarrow> (bytes, pending_login) hash_map
       \<Rightarrow> (login_error + bytes \<times> request_options) \<times> (bytes, pending_login) hash_map" where
  "login_start cr cd cfg readable f gc_now now buf challenge pending =
     (case login_offer cr cd readable f of
        Inl e \<Rightarrow> (Inl e, pending)
      | Inr allowed_ids \<Rightarrow>
          (let rcr = request_options_build cr (cfg_rp_id cfg) challenge allowed_ids;
               nonce = mint_token cr buf;
               (res, pending) = login_issue gc_now now nonce challenge allowed_ids pending
           in (bindE res (\<lambda>_. Inr (nonce, rcr)), pending)))"

text \<open>\<open>login_finish\<close>: the challenge is taken out of the map, then the assertion is checked.\<close>

definition login_take ::
    "nanos \<Rightarrow> bytes \<Rightarrow> (bytes, pending_login) hash_map \<Rightarrow> pending_login option \<times> (bytes, pending_login) hash_map" where
  "login_take gc_now nonce pending =
     (let pending = hub_gc gc_now pl_expires_at pending in (hm_get pending nonce, hm_remove nonce pending))"

definition login_lookup ::
    "crypto \<Rightarrow> pending_login \<Rightarrow> credential_store \<Rightarrow> bytes \<Rightarrow> stored_credential_view option" where
  "login_lookup cr pending store i =
     (if i \<notin> set (pl_allowed_ids pending) then None
      else Option.bind (find_by_id cr store i) (\<lambda>c.
        case credential_public_key cr c of
          Inl _ \<Rightarrow> None
        | Inr pk \<Rightarrow> Some \<lparr>sv_public_key = pk, sv_sign_count = sc_sign_count c\<rparr>))"

definition login_check ::
    "crypto \<Rightarrow> credential_store codec \<Rightarrow> hub_config \<Rightarrow> bool \<Rightarrow> store_file \<Rightarrow> pending_login \<Rightarrow> authentication_response
       \<Rightarrow> login_error + authenticated_credential" where
  "login_check cr cd cfg readable f pending response =
     bindE (map_errE LoadFailed (cred_load cd readable f)) (\<lambda>store.
       map_errE AuthFailed
         (finish_authenticate cr response (pl_challenge pending) (cfg_rp_id cfg) (config_origin cfg)
            (login_lookup cr pending store)))"

text \<open>The counter is written back only when it advanced; a failure is logged and ignored.\<close>

definition login_persist ::
    "crypto \<Rightarrow> credential_store codec \<Rightarrow> admin_io \<Rightarrow> authenticated_credential \<Rightarrow> data_dir \<Rightarrow> data_dir" where
  "login_persist cr cd io auth dir =
     (if au_sign_count_advanced auth
      then snd (persist_counter_update cr cd io (au_credential_id auth) (au_new_sign_count auth) dir) else dir)"

definition login_finish ::
    "crypto \<Rightarrow> credential_store codec \<Rightarrow> hub_config \<Rightarrow> admin_io \<Rightarrow> nanos \<Rightarrow> nanos \<Rightarrow> nanos \<Rightarrow> nanos \<Rightarrow> bytes
       \<Rightarrow> bytes \<Rightarrow> authentication_response
       \<Rightarrow> (bytes, pending_login) hash_map \<times> (bytes, login_session) hash_map \<times> data_dir
       \<Rightarrow> (login_error + bytes \<times> nat) \<times> (bytes, pending_login) hash_map \<times> (bytes, login_session) hash_map \<times> data_dir" where
  "login_finish cr cd cfg io take_now now gc_now ttl_now buf nonce response = (\<lambda>(pending, sessions, dir).
     let (found, pending) = login_take take_now nonce pending in
     case found of
       None \<Rightarrow> (Inl UnknownNonce, pending, sessions, dir)
     | Some p \<Rightarrow>
         (case login_check cr cd cfg (io_readable io) (dd_credentials dir) p response of
            Inl e \<Rightarrow> (Inl e, pending, sessions, dir)
          | Inr auth \<Rightarrow>
              (let dir = login_persist cr cd io auth dir;
                   token = mint_token cr buf;
                   (expires_at, sessions) = store_token now gc_now token sessions
               in (Inr (token, ttl_secs expires_at ttl_now), pending, sessions, dir))))"

section \<open>Routes\<close>

datatype http_method = GET | HEAD | POST | DELETE | OtherMethod

datatype segment = Lit string | Param

datatype handler =
    RegisterStart | LoginStart | LoginFinish | Machines | ListSessionsH | KillSessionH | Me | Mode | Logout | Metrics
  | TermWs | AgentConnect | StaticAssets

definition shared_routes :: "(http_method \<times> segment list \<times> handler) list" where
  "shared_routes =
     [(GET, [Lit ''api'', Lit ''machines''], Machines),
      (GET, [Lit ''api'', Lit ''machines'', Param, Lit ''sessions''], ListSessionsH),
      (DELETE, [Lit ''api'', Lit ''machines'', Param, Lit ''sessions'', Param], KillSessionH),
      (GET, [Lit ''api'', Lit ''me''], Me),
      (GET, [Lit ''api'', Lit ''mode''], Mode),
      (GET, [Lit ''ws'', Lit ''term'', Param], TermWs),
      (GET, [Lit ''agent'', Lit ''connect''], AgentConnect)]"

definition authed_routes :: "(http_method \<times> segment list \<times> handler) list" where
  "authed_routes =
     [(POST, [Lit ''webauthn'', Lit ''register'', Lit ''start''], RegisterStart),
      (POST, [Lit ''webauthn'', Lit ''login'', Lit ''start''], LoginStart),
      (POST, [Lit ''webauthn'', Lit ''login'', Lit ''finish''], LoginFinish),
      (POST, [Lit ''api'', Lit ''logout''], Logout),
      (GET, [Lit ''metrics''], Metrics)] @ shared_routes"

definition no_auth_routes :: "(http_method \<times> segment list \<times> handler) list" where
  "no_auth_routes = shared_routes"

fun seg_matches :: "segment \<Rightarrow> bytes \<Rightarrow> bool" where
  "seg_matches (Lit l) s \<longleftrightarrow> s = bstr l"
| "seg_matches Param s \<longleftrightarrow> s \<noteq> []"

text \<open>
  A route that matches the path answers its method (that for \<open>GET\<close> also \<open>HEAD\<close>); with another method
  the answer is 405, the result \<open>None\<close>. The fallback runs only when no route matches the path.
\<close>

fun method_matches :: "http_method \<Rightarrow> http_method \<Rightarrow> bool" where
  "method_matches GET m \<longleftrightarrow> m = GET \<or> m = HEAD"
| "method_matches r m \<longleftrightarrow> m = r"

definition route ::
    "(http_method \<times> segment list \<times> handler) list \<Rightarrow> http_method \<Rightarrow> bytes list \<Rightarrow> handler option" where
  "route table m path =
     (let rows = filter (\<lambda>(_, pat, _). list_all2 seg_matches pat path) table in
      if rows = [] then Some StaticAssets
      else map_option (\<lambda>(_, _, h). h) (find (\<lambda>(m', _, _). method_matches m' m) rows))"

text \<open>The handlers with a \<open>Bearer\<close> argument.\<close>

fun needs_bearer :: "handler \<Rightarrow> bool" where
  "needs_bearer h \<longleftrightarrow> h \<in> {Machines, ListSessionsH, KillSessionH, Me, Logout, Metrics}"

text \<open>The checks of \<open>term_ws\<close> before it looks for the agent: the subprotocol to echo, or a status.\<close>

definition term_ws_gate ::
    "nanos \<Rightarrow> nanos \<Rightarrow> listener_mode \<Rightarrow> headers \<Rightarrow> (bytes, login_session) hash_map
       \<Rightarrow> (nat + bytes option) \<times> (bytes, login_session) hash_map" where
  "term_ws_gate gc_now now mode hs sessions =
     (if \<not> check_origin hs (lm_origin mode) then (Inl 403, sessions)
      else if lm_no_auth mode then (Inr (map_option snd (token_from_ws_protocol hs)), sessions)
      else case token_from_ws_protocol hs of
        None \<Rightarrow> (Inl 401, sessions)
      | Some (token, sp) \<Rightarrow>
          (let (valid, sessions) = validate_token gc_now now token sessions
           in (if valid then Inr (Some sp) else Inl 401, sessions)))"

text \<open>Whether the body of the handler runs: edge middleware, then the handler's own checks.\<close>

definition admitted ::
    "nanos \<Rightarrow> nanos \<Rightarrow> listener_mode \<Rightarrow> handler \<Rightarrow> headers \<Rightarrow> (bytes, login_session) hash_map \<Rightarrow> bool" where
  "admitted gc_now now mode h hs sessions \<longleftrightarrow>
     edge_allows (lm_origin mode) hs \<and>
     (if needs_bearer h then \<exists>t. fst (bearer_from_request gc_now now (Some mode) hs sessions) = Inr t
      else if h = TermWs then \<exists>sp. fst (term_ws_gate gc_now now mode hs sessions) = Inr sp
      else True)"

section \<open>The hub as a transition system\<close>

datatype login_task =
    Offered "bytes list"
  | Taken bytes pending_login authentication_response
  | Verified bytes pending_login authentication_response stored_credential_view authenticated_credential
  | Persisted bytes pending_login authentication_response stored_credential_view authenticated_credential

record hub =
  h_pending :: "(bytes, pending_login) hash_map"
  h_sessions :: "(bytes, login_session) hash_map"
  h_dir :: data_dir
  h_tasks :: "login_task list"

datatype hub_event =
    EvIssued bytes bytes "bytes list" nanos
  | EvTaken bytes pending_login nanos
  | EvVerified bytes bytes authentication_response bytes stored_credential_view u32
  | EvMinted bytes bytes nanos

definition hub_init :: "data_dir \<Rightarrow> hub" where
  "hub_init dir = \<lparr>h_pending = [], h_sessions = [], h_dir = dir, h_tasks = []\<rparr>"

record hub_env =
  he_crypto :: crypto
  he_lib :: envelope_lib
  he_creds :: "credential_store codec"
  he_certs :: "issued_cert_store codec"
  he_cfg :: hub_config

text \<open>The first argument lists the events so far, the latest first.\<close>

inductive hub_run :: "hub_env \<Rightarrow> hub_event list \<Rightarrow> hub \<Rightarrow> bool" for E where
  start: "hub_run E [] (hub_init dir)"
| offer: "hub_run E es h \<Longrightarrow>
    login_offer (he_crypto E) (he_creds E) readable (dd_credentials (h_dir h)) = Inr allowed \<Longrightarrow>
    hub_run E es (h\<lparr>h_tasks := Offered allowed # h_tasks h\<rparr>)"
| issue: "hub_run E es h \<Longrightarrow> Offered allowed \<in> set (h_tasks h) \<Longrightarrow>
    login_issue gc_now now nonce challenge allowed (h_pending h) = (Inr (), pending) \<Longrightarrow>
    hub_run E (EvIssued nonce challenge allowed now # es)
      (h\<lparr>h_pending := pending, h_tasks := remove1 (Offered allowed) (h_tasks h)\<rparr>)"
| refuse: "hub_run E es h \<Longrightarrow> Offered allowed \<in> set (h_tasks h) \<Longrightarrow>
    login_issue gc_now now nonce challenge allowed (h_pending h) = (Inl e, pending) \<Longrightarrow>
    hub_run E es (h\<lparr>h_pending := pending, h_tasks := remove1 (Offered allowed) (h_tasks h)\<rparr>)"
| take: "hub_run E es h \<Longrightarrow> login_take gc_now nonce (h_pending h) = (Some p, pending) \<Longrightarrow>
    hub_run E (EvTaken nonce p gc_now # es)
      (h\<lparr>h_pending := pending, h_tasks := Taken nonce p r # h_tasks h\<rparr>)"
| unknown: "hub_run E es h \<Longrightarrow> login_take gc_now nonce (h_pending h) = (None, pending) \<Longrightarrow>
    hub_run E es (h\<lparr>h_pending := pending\<rparr>)"
| verify: "hub_run E es h \<Longrightarrow> Taken nonce p r \<in> set (h_tasks h) \<Longrightarrow>
    cred_load (he_creds E) readable (dd_credentials (h_dir h)) = Inr store \<Longrightarrow>
    login_check (he_crypto E) (he_creds E) (he_cfg E) readable (dd_credentials (h_dir h)) p r = Inr auth \<Longrightarrow>
    login_lookup (he_crypto E) p store (au_credential_id auth) = Some view \<Longrightarrow>
    hub_run E (EvVerified nonce (pl_challenge p) r (au_credential_id auth) view (au_new_sign_count auth) # es)
      (h\<lparr>h_tasks := Verified nonce p r view auth # remove1 (Taken nonce p r) (h_tasks h)\<rparr>)"
| reject: "hub_run E es h \<Longrightarrow> Taken nonce p r \<in> set (h_tasks h) \<Longrightarrow>
    login_check (he_crypto E) (he_creds E) (he_cfg E) readable (dd_credentials (h_dir h)) p r = Inl e \<Longrightarrow>
    hub_run E es (h\<lparr>h_tasks := remove1 (Taken nonce p r) (h_tasks h)\<rparr>)"
| persist: "hub_run E es h \<Longrightarrow> Verified nonce p r view auth \<in> set (h_tasks h) \<Longrightarrow>
    hub_run E es (h\<lparr>h_dir := login_persist (he_crypto E) (he_creds E) io auth (h_dir h),
      h_tasks := Persisted nonce p r view auth # remove1 (Verified nonce p r view auth) (h_tasks h)\<rparr>)"
| mint: "hub_run E es h \<Longrightarrow> Persisted nonce p r view auth \<in> set (h_tasks h) \<Longrightarrow>
    token = mint_token (he_crypto E) buf \<Longrightarrow>
    store_token now gc_now token (h_sessions h) = (expires_at, sessions) \<Longrightarrow>
    hub_run E (EvMinted nonce token now # es)
      (h\<lparr>h_sessions := sessions, h_tasks := remove1 (Persisted nonce p r view auth) (h_tasks h)\<rparr>)"
| validate: "hub_run E es h \<Longrightarrow>
    validate_token gc_now now token (h_sessions h) = (valid, sessions) \<Longrightarrow>
    hub_run E es (h\<lparr>h_sessions := sessions\<rparr>)"
| logout: "hub_run E es h \<Longrightarrow> hub_run E es (h\<lparr>h_sessions := drop_token token (h_sessions h)\<rparr>)"
| admin: "hub_run E es h \<Longrightarrow>
    hub_run E es (h\<lparr>h_dir := store_step (he_crypto E) (he_lib E) (he_creds E) (he_certs E) op (h_dir h)\<rparr>)"
| cancel: "hub_run E es h \<Longrightarrow> hub_run E es (h\<lparr>h_tasks := remove1 t (h_tasks h)\<rparr>)"

section \<open>Expiry\<close>

lemma hub_gc_subset: "x \<in> set (hub_gc now ex m) \<Longrightarrow> x \<in> set m"
  by (auto simp: hub_gc_def)

lemma hub_gc_ok [simp]: "hm_ok m \<Longrightarrow> hm_ok (hub_gc now ex m)"
  by (auto simp: hub_gc_def hm_ok_def distinct_map_filter)

lemma hub_gc_length: "length (hub_gc now ex m) \<le> length m"
  by (simp add: hub_gc_def)

lemma hub_gc_get: "hm_ok m \<Longrightarrow> hm_get (hub_gc now ex m) k = Some v \<longleftrightarrow> hm_get m k = Some v \<and> now < ex v"
  by (simp add: hm_get_iff_mem) (auto simp: hub_gc_def)

lemma validate_token_iff:
  "hm_ok m \<Longrightarrow> fst (validate_token g n token m) \<longleftrightarrow>
     (\<exists>s. hm_get m token = Some s \<and> g < ls_expires_at s \<and> n < ls_expires_at s)"
  using hub_gc_get [of m g ls_expires_at token]
  by (auto simp: validate_token_def Let_def split: option.splits)

lemma login_check_iff:
  assumes "crypto_laws cr"
  shows "login_check cr cd cfg rd f p r = Inr a \<longleftrightarrow>
    (\<exists>store view. cred_load cd rd f = Inr store \<and> login_lookup cr p store (au_credential_id a) = Some view \<and>
       good_assertion cr r (pl_challenge p) (cfg_rp_id cfg) (config_origin cfg) (au_credential_id a) view (au_new_sign_count a) \<and>
       au_sign_count_advanced a = (sv_sign_count view < au_new_sign_count a))"
  by (auto simp: login_check_def bindE_Inr_iff finish_authenticate_iff [OF assms])

lemma login_lookup_allowed: "login_lookup cr p store i = Some view \<Longrightarrow> i \<in> set (pl_allowed_ids p)"
  by (simp add: login_lookup_def split: if_splits)

section \<open>Where a token comes from\<close>

definition issued :: "hub_event list \<Rightarrow> bytes \<Rightarrow> pending_login \<Rightarrow> bool" where
  "issued es nonce p \<longleftrightarrow>
     (\<exists>t. EvIssued nonce (pl_challenge p) (pl_allowed_ids p) t \<in> set es \<and> pl_expires_at p = t + PENDING_LOGIN_TTL)"

definition taken :: "hub_event list \<Rightarrow> bytes \<Rightarrow> pending_login \<Rightarrow> bool" where
  "taken es nonce p \<longleftrightarrow> (\<exists>xs ys g. es = xs @ EvTaken nonce p g # ys \<and> g < pl_expires_at p \<and> issued ys nonce p)"

definition verified ::
    "hub_env \<Rightarrow> hub_event list \<Rightarrow> bytes \<Rightarrow> pending_login \<Rightarrow> authentication_response \<Rightarrow> stored_credential_view
       \<Rightarrow> authenticated_credential \<Rightarrow> bool" where
  "verified E es nonce p r view a \<longleftrightarrow>
     (\<exists>xs ys. es = xs @ EvVerified nonce (pl_challenge p) r (au_credential_id a) view (au_new_sign_count a) # ys \<and>
        taken ys nonce p \<and> au_credential_id a \<in> set (pl_allowed_ids p) \<and>
        good_assertion (he_crypto E) r (pl_challenge p) (cfg_rp_id (he_cfg E)) (config_origin (he_cfg E))
          (au_credential_id a) view (au_new_sign_count a))"

definition minted :: "hub_env \<Rightarrow> hub_event list \<Rightarrow> bytes \<Rightarrow> nanos \<Rightarrow> bool" where
  "minted E es token t \<longleftrightarrow>
     (\<exists>xs ys nonce p r view a. es = xs @ EvMinted nonce token t # ys \<and> verified E ys nonce p r view a)"

lemma takenI: "g < pl_expires_at p \<Longrightarrow> issued es n p \<Longrightarrow> taken (EvTaken n p g # es) n p"
  unfolding taken_def by (metis append_Nil)

lemma verifiedI:
  "taken es n p \<Longrightarrow> au_credential_id a \<in> set (pl_allowed_ids p) \<Longrightarrow>
   good_assertion (he_crypto E) r (pl_challenge p) (cfg_rp_id (he_cfg E)) (config_origin (he_cfg E))
     (au_credential_id a) view (au_new_sign_count a) \<Longrightarrow>
   verified E (EvVerified n (pl_challenge p) r (au_credential_id a) view (au_new_sign_count a) # es) n p r view a"
  unfolding verified_def by (metis append_Nil)

lemma mintedI: "verified E es n p r view a \<Longrightarrow> minted E (EvMinted n tok t # es) tok t"
  unfolding minted_def by (metis append_Nil)

lemma minted_mem: "minted E es tok t \<Longrightarrow> \<exists>n. EvMinted n tok t \<in> set es"
  unfolding minted_def by (metis in_set_conv_decomp)

lemma issued_Cons: "issued es n p \<Longrightarrow> issued (e # es) n p"
  by (auto simp: issued_def)

lemma taken_Cons: "taken es n p \<Longrightarrow> taken (e # es) n p"
  unfolding taken_def by (metis append_Cons)

lemma verified_Cons: "verified E es n p r v a \<Longrightarrow> verified E (e # es) n p r v a"
  unfolding verified_def by (metis append_Cons)

lemma minted_Cons: "minted E es tok t \<Longrightarrow> minted E (e # es) tok t"
  unfolding minted_def by (metis append_Cons)

lemmas history_Cons = issued_Cons taken_Cons verified_Cons minted_Cons

fun task_traced :: "hub_env \<Rightarrow> hub_event list \<Rightarrow> login_task \<Rightarrow> bool" where
  "task_traced E es (Offered ids) \<longleftrightarrow> True"
| "task_traced E es (Taken n p r) \<longleftrightarrow> taken es n p"
| "task_traced E es (Verified n p r v a) \<longleftrightarrow> verified E es n p r v a"
| "task_traced E es (Persisted n p r v a) \<longleftrightarrow> verified E es n p r v a"

definition hub_inv :: "hub_env \<Rightarrow> hub_event list \<Rightarrow> hub \<Rightarrow> bool" where
  "hub_inv E es h \<longleftrightarrow>
     hm_ok (h_pending h) \<and> hm_ok (h_sessions h) \<and> length (h_pending h) \<le> MAX_PENDING_LOGINS \<and>
     (\<forall>(n, p) \<in> set (h_pending h). issued es n p) \<and>
     (\<forall>t \<in> set (h_tasks h). task_traced E es t) \<and>
     (\<forall>(tok, s) \<in> set (h_sessions h). \<exists>t. minted E es tok t \<and> ls_expires_at s = t + SESSION_TTL)"

lemma task_traced_Cons: "task_traced E es t \<Longrightarrow> task_traced E (e # es) t"
  by (cases t) (simp_all add: history_Cons)

lemma hub_inv_Cons: "hub_inv E es h \<Longrightarrow> hub_inv E (e # es) h"
  unfolding hub_inv_def by (auto simp: task_traced_Cons intro: history_Cons) (fastforce intro: minted_Cons)

lemma hub_inv_tasks: "hub_inv E es h \<Longrightarrow> set ts \<subseteq> set (h_tasks h) \<Longrightarrow> hub_inv E es (h\<lparr>h_tasks := ts\<rparr>)"
  by (auto simp: hub_inv_def)

lemma hub_inv_add_task: "hub_inv E es h \<Longrightarrow> task_traced E es t \<Longrightarrow> hub_inv E es (h\<lparr>h_tasks := t # h_tasks h\<rparr>)"
  by (auto simp: hub_inv_def)

lemma hub_inv_swap_task:
  "hub_inv E es h \<Longrightarrow> task_traced E es t' \<Longrightarrow> hub_inv E es (h\<lparr>h_tasks := t' # remove1 t (h_tasks h)\<rparr>)"
  using hub_inv_add_task [of E es "h\<lparr>h_tasks := remove1 t (h_tasks h)\<rparr>" t'] hub_inv_tasks [of E es h "remove1 t (h_tasks h)"]
  by (simp add: set_remove1_subset)

lemma hub_inv_pending:
  "hub_inv E es h \<Longrightarrow> hm_ok m \<Longrightarrow> set m \<subseteq> set (h_pending h) \<Longrightarrow> length m \<le> MAX_PENDING_LOGINS \<Longrightarrow>
   hub_inv E es (h\<lparr>h_pending := m\<rparr>)"
  by (auto simp: hub_inv_def)

lemma hub_inv_gc: "hub_inv E es h \<Longrightarrow> hub_inv E es (h\<lparr>h_pending := hub_gc g pl_expires_at (h_pending h)\<rparr>)"
  by (rule hub_inv_pending)
    (auto simp: hub_inv_def dest: hub_gc_subset intro: le_trans [OF hub_gc_length])

lemma hub_inv_take:
  "hub_inv E es h \<Longrightarrow> hub_inv E es (h\<lparr>h_pending := hm_remove n (hub_gc g pl_expires_at (h_pending h))\<rparr>)"
  by (rule hub_inv_pending)
    (auto simp: hub_inv_def hm_mem_remove dest: hub_gc_subset
      intro: le_trans [OF hm_length_remove_le] le_trans [OF hub_gc_length])

lemma hub_inv_sessions:
  "hub_inv E es h \<Longrightarrow> hm_ok m \<Longrightarrow> set m \<subseteq> set (h_sessions h) \<Longrightarrow> hub_inv E es (h\<lparr>h_sessions := m\<rparr>)"
  by (auto simp: hub_inv_def)

lemma hub_inv_dir: "hub_inv E es h \<Longrightarrow> hub_inv E es (h\<lparr>h_dir := d\<rparr>)"
  by (simp add: hub_inv_def)

lemma hub_run_inv:
  assumes laws: "crypto_laws (he_crypto E)"
  shows "hub_run E es h \<Longrightarrow> hub_inv E es h"
proof (induction rule: hub_run.induct)
  case (start dir)
  show ?case by (simp add: hub_inv_def hub_init_def)
next
  case (offer es h readable allowed)
  then show ?case by (intro hub_inv_add_task) simp_all
next
  case (issue es h allowed gc_now now nonce challenge pending)
  let ?g = "hub_gc gc_now pl_expires_at (h_pending h)"
  let ?p = "\<lparr>pl_challenge = challenge, pl_allowed_ids = allowed, pl_expires_at = now + PENDING_LOGIN_TTL\<rparr>"
  let ?es = "EvIssued nonce challenge allowed now # es"
  have pending: "pending = hm_insert nonce ?p ?g" and len: "length ?g < MAX_PENDING_LOGINS"
    using issue.hyps(3) by (auto simp: login_issue_def Let_def split: if_splits)
  have inv: "hub_inv E ?es h" using issue.IH by (rule hub_inv_Cons)
  then have ok: "hm_ok ?g" by (simp add: hub_inv_def)
  have "issued ?es nonce ?p" by (auto simp: issued_def)
  moreover have "issued ?es n p" if "(n, p) \<in> set ?g" for n p
    using inv hub_gc_subset [OF that] by (auto simp: hub_inv_def)
  ultimately have "\<forall>(n, p) \<in> set pending. issued ?es n p"
    unfolding pending by (auto simp: hm_mem_insert [OF ok] split: if_splits)
  moreover have "length pending \<le> MAX_PENDING_LOGINS"
    using len hm_length_insert_le [of nonce ?p ?g] unfolding pending by linarith
  ultimately have "hub_inv E ?es (h\<lparr>h_pending := pending\<rparr>)"
    using inv ok pending by (simp add: hub_inv_def)
  from hub_inv_tasks [OF this, of "remove1 (Offered allowed) (h_tasks h)"] show ?case
    by (simp add: set_remove1_subset)
next
  case (refuse es h allowed gc_now now nonce challenge e pending)
  then have "pending = hub_gc gc_now pl_expires_at (h_pending h)"
    by (auto simp: login_issue_def Let_def split: if_splits)
  with refuse.IH have "hub_inv E es (h\<lparr>h_pending := pending\<rparr>)"
    by (simp add: hub_inv_gc)
  from hub_inv_tasks [OF this, of "remove1 (Offered allowed) (h_tasks h)"] show ?case
    by (simp add: set_remove1_subset)
next
  case (take es h gc_now nonce p pending r)
  let ?g = "hub_gc gc_now pl_expires_at (h_pending h)"
  have ok: "hm_ok (h_pending h)" using take.IH by (simp add: hub_inv_def)
  have t: "hm_get ?g nonce = Some p" "pending = hm_remove nonce ?g"
    using take.hyps(2) by (auto simp: login_take_def Let_def)
  then have "hm_get (h_pending h) nonce = Some p" "gc_now < pl_expires_at p" by (simp_all add: hub_gc_get [OF ok])
  moreover from this have "issued es nonce p" using take.IH by (auto simp: hub_inv_def dest: hm_get_SomeD)
  ultimately have tr: "taken (EvTaken nonce p gc_now # es) nonce p"
    by (intro takenI)
  have "hub_inv E (EvTaken nonce p gc_now # es) (h\<lparr>h_pending := pending\<rparr>)"
    using hub_inv_take [OF hub_inv_Cons [OF take.IH]] by (simp add: t(2))
  from hub_inv_add_task [OF this, of "Taken nonce p r"] tr show ?case by simp
next
  case (unknown es h gc_now nonce pending)
  then have "pending = hm_remove nonce (hub_gc gc_now pl_expires_at (h_pending h))"
    by (auto simp: login_take_def Let_def)
  with unknown.IH show ?case by (simp add: hub_inv_take)
next
  case (verify es h nonce p r readable store auth view)
  let ?e = "EvVerified nonce (pl_challenge p) r (au_credential_id auth) view (au_new_sign_count auth)"
  have "taken es nonce p" using verify.IH verify.hyps(2) by (fastforce simp: hub_inv_def)
  moreover obtain view' where "login_lookup (he_crypto E) p store (au_credential_id auth) = Some view'"
    "good_assertion (he_crypto E) r (pl_challenge p) (cfg_rp_id (he_cfg E)) (config_origin (he_cfg E))
       (au_credential_id auth) view' (au_new_sign_count auth)"
    using verify.hyps(3,4) unfolding login_check_iff [OF laws] by auto
  ultimately have "verified E (?e # es) nonce p r view auth"
    using verify.hyps(5) login_lookup_allowed by (intro verifiedI) auto
  with hub_inv_Cons [OF verify.IH] show ?case by (intro hub_inv_swap_task) simp_all
next
  case (reject es h nonce p r readable e)
  then show ?case by (intro hub_inv_tasks) (auto simp: set_remove1_subset)
next
  case (persist es h nonce p r view auth io)
  then have "verified E es nonce p r view auth" by (fastforce simp: hub_inv_def)
  with hub_inv_swap_task [OF hub_inv_dir [OF persist.IH], of "Persisted nonce p r view auth"] show ?case by simp
next
  case (mint es h nonce p r view auth token buf now gc_now expires_at sessions)
  let ?g = "hub_gc gc_now ls_expires_at (h_sessions h)" and ?es = "EvMinted nonce token now # es"
  have s: "sessions = hm_insert token \<lparr>ls_expires_at = now + SESSION_TTL\<rparr> ?g"
    using mint.hyps(4) by (auto simp: store_token_def Let_def)
  have "verified E es nonce p r view auth" using mint.IH mint.hyps(2) by (fastforce simp: hub_inv_def)
  then have m: "minted E ?es token now" by (rule mintedI)
  have inv: "hub_inv E ?es h" using mint.IH by (rule hub_inv_Cons)
  then have ok: "hm_ok ?g" by (simp add: hub_inv_def)
  have "\<forall>(tok, x) \<in> set sessions. \<exists>t. minted E ?es tok t \<and> ls_expires_at x = t + SESSION_TTL"
    unfolding s using m inv by (fastforce simp: hm_mem_insert [OF ok] hub_inv_def dest: hub_gc_subset split: if_splits)
  then have "hub_inv E ?es (h\<lparr>h_sessions := sessions\<rparr>)" using inv ok s by (simp add: hub_inv_def)
  from hub_inv_tasks [OF this, of "remove1 (Persisted nonce p r view auth) (h_tasks h)"] show ?case
    by (simp add: set_remove1_subset)
next
  case (validate es h gc_now now token valid sessions)
  then show ?case
    by (intro hub_inv_sessions) (auto simp: hub_inv_def validate_token_def Let_def dest: hub_gc_subset)
next
  case (logout es h token)
  then show ?case by (intro hub_inv_sessions) (auto simp: hub_inv_def drop_token_def hm_mem_remove)
next
  case (admin es h op)
  then show ?case by (intro hub_inv_dir)
next
  case (cancel es h t)
  then show ?case by (intro hub_inv_tasks) (auto simp: set_remove1_subset)
qed

section \<open>How often a challenge is used\<close>

lemma hub_run_maps:
  "hub_run E es h \<Longrightarrow>
     hm_ok (h_pending h) \<and> hm_ok (h_sessions h) \<and> length (h_pending h) \<le> MAX_PENDING_LOGINS"
proof (induction rule: hub_run.induct)
  case (issue es h allowed gc_now now nonce challenge pending)
  let ?g = "hub_gc gc_now pl_expires_at (h_pending h)"
  obtain p where "pending = hm_insert nonce p ?g" "length ?g < MAX_PENDING_LOGINS"
    using issue.hyps(3) by (auto simp: login_issue_def Let_def split: if_splits)
  with issue.IH show ?case using hm_length_insert_le [of nonce p ?g] by auto
next
  case (refuse es h allowed gc_now now nonce challenge e pending)
  then have "pending = hub_gc gc_now pl_expires_at (h_pending h)"
    by (auto simp: login_issue_def Let_def split: if_splits)
  with refuse.IH show ?case using hub_gc_length [of gc_now pl_expires_at "h_pending h"] by auto
next
  case (take es h gc_now nonce p pending r)
  then have "pending = hm_remove nonce (hub_gc gc_now pl_expires_at (h_pending h))"
    by (auto simp: login_take_def Let_def)
  with take.IH show ?case
    using le_trans [OF le_trans [OF hm_length_remove_le hub_gc_length], of "h_pending h" MAX_PENDING_LOGINS nonce gc_now pl_expires_at]
    by auto
next
  case (unknown es h gc_now nonce pending)
  then have "pending = hm_remove nonce (hub_gc gc_now pl_expires_at (h_pending h))"
    by (auto simp: login_take_def Let_def)
  with unknown.IH show ?case
    using le_trans [OF le_trans [OF hm_length_remove_le hub_gc_length], of "h_pending h" MAX_PENDING_LOGINS nonce gc_now pl_expires_at]
    by auto
qed (auto simp: hub_init_def store_token_def validate_token_def drop_token_def Let_def)

fun task_nonce :: "login_task \<Rightarrow> bytes option" where
  "task_nonce (Offered ids) = None"
| "task_nonce (Taken n p r) = Some n"
| "task_nonce (Verified n p r v a) = Some n"
| "task_nonce (Persisted n p r v a) = Some n"

fun mints :: "bytes \<Rightarrow> hub_event \<Rightarrow> bool" where
  "mints n (EvMinted m tok t) \<longleftrightarrow> m = n"
| "mints n _ \<longleftrightarrow> False"

fun issues :: "bytes \<Rightarrow> hub_event \<Rightarrow> bool" where
  "issues n (EvIssued m c ids t) \<longleftrightarrow> m = n"
| "issues n _ \<longleftrightarrow> False"

definition tokens_for :: "bytes \<Rightarrow> hub_event list \<Rightarrow> nat" where
  "tokens_for n es = length (filter (mints n) es)"

definition challenges_for :: "bytes \<Rightarrow> hub_event list \<Rightarrow> nat" where
  "challenges_for n es = length (filter (issues n) es)"

definition tasks_for :: "bytes \<Rightarrow> login_task list \<Rightarrow> nat" where
  "tasks_for n ts = length (filter (\<lambda>t. task_nonce t = Some n) ts)"

definition open_for :: "bytes \<Rightarrow> (bytes, pending_login) hash_map \<Rightarrow> nat" where
  "open_for n m = (if hm_get m n = None then 0 else 1)"

lemma counts_Cons [simp]:
  "tokens_for n (e # es) = (if mints n e then Suc (tokens_for n es) else tokens_for n es)"
  "challenges_for n (e # es) = (if issues n e then Suc (challenges_for n es) else challenges_for n es)"
  "tasks_for n (t # ts) = (if task_nonce t = Some n then Suc (tasks_for n ts) else tasks_for n ts)"
  by (simp_all add: tokens_for_def challenges_for_def tasks_for_def)

lemma tasks_for_remove1:
  "t \<in> set ts \<Longrightarrow> task_nonce t = Some n \<Longrightarrow> Suc (tasks_for n (remove1 t ts)) = tasks_for n ts"
  by (induction ts) (auto simp: tasks_for_def)

lemma tasks_for_remove1_other: "task_nonce t \<noteq> Some n \<Longrightarrow> tasks_for n (remove1 t ts) = tasks_for n ts"
  by (induction ts) (auto simp: tasks_for_def)

lemma tasks_for_remove1_le: "tasks_for n (remove1 t ts) \<le> tasks_for n ts"
  by (induction ts) (auto simp: tasks_for_def)

lemma open_for_gc: "hm_ok m \<Longrightarrow> open_for n (hub_gc g ex m) \<le> open_for n m"
  using hub_gc_get [of m g ex n] by (cases "hm_get (hub_gc g ex m) n") (auto simp: open_for_def)

lemma open_for_insert: "open_for n (hm_insert k v m) \<le> (if n = k then 1 else open_for n m)"
  by (simp add: open_for_def)

lemma open_for_remove: "open_for n (hm_remove k m) = (if n = k then 0 else open_for n m)"
  by (simp add: open_for_def)

lemma challenge_count:
  "hub_run E es h \<Longrightarrow> tokens_for n es + tasks_for n (h_tasks h) + open_for n (h_pending h) \<le> challenges_for n es"
proof (induction rule: hub_run.induct)
  case (issue es h allowed gc_now now nonce challenge pending)
  let ?g = "hub_gc gc_now pl_expires_at (h_pending h)"
  obtain p where "pending = hm_insert nonce p ?g"
    using issue.hyps(3) by (auto simp: login_issue_def Let_def split: if_splits)
  with issue.IH open_for_gc [of "h_pending h" n gc_now pl_expires_at] hub_run_maps [OF issue.hyps(1)]
    open_for_insert [of n nonce p ?g]
  show ?case by (auto simp: tasks_for_remove1_other split: if_splits)
next
  case (refuse es h allowed gc_now now nonce challenge e pending)
  then have "pending = hub_gc gc_now pl_expires_at (h_pending h)"
    by (auto simp: login_issue_def Let_def split: if_splits)
  with refuse.IH open_for_gc [of "h_pending h" n gc_now pl_expires_at] hub_run_maps [OF refuse.hyps(1)]
  show ?case by (auto simp: tasks_for_remove1_other)
next
  case (take es h gc_now nonce p pending r)
  let ?g = "hub_gc gc_now pl_expires_at (h_pending h)"
  have t: "hm_get ?g nonce = Some p" "pending = hm_remove nonce ?g"
    using take.hyps(2) by (auto simp: login_take_def Let_def)
  then have "n = nonce \<Longrightarrow> open_for n (h_pending h) = 1"
    using hub_gc_get [of "h_pending h" gc_now pl_expires_at nonce p] hub_run_maps [OF take.hyps(1)]
    by (simp add: open_for_def)
  with take.IH t open_for_gc [of "h_pending h" n gc_now pl_expires_at] hub_run_maps [OF take.hyps(1)]
  show ?case by (auto simp: open_for_remove)
next
  case (unknown es h gc_now nonce pending)
  then have "pending = hm_remove nonce (hub_gc gc_now pl_expires_at (h_pending h))"
    by (auto simp: login_take_def Let_def)
  with unknown.IH open_for_gc [of "h_pending h" n gc_now pl_expires_at] hub_run_maps [OF unknown.hyps(1)]
  show ?case by (auto simp: open_for_remove)
next
  case (verify es h nonce p r readable store auth view)
  then show ?case using tasks_for_remove1 [OF verify.hyps(2), of n] by (auto simp: tasks_for_remove1_other)
next
  case (reject es h nonce p r readable e)
  then show ?case using tasks_for_remove1_le [of n "Taken nonce p r" "h_tasks h"] by auto
next
  case (persist es h nonce p r view auth io)
  then show ?case using tasks_for_remove1 [OF persist.hyps(2), of n] by (auto simp: tasks_for_remove1_other)
next
  case (mint es h nonce p r view auth token buf now gc_now expires_at sessions)
  then show ?case using tasks_for_remove1 [OF mint.hyps(2), of n] by (auto simp: tasks_for_remove1_other)
next
  case (cancel es h t)
  then show ?case using tasks_for_remove1_le [of n t "h_tasks h"] by auto
qed (auto simp: hub_init_def tokens_for_def challenges_for_def tasks_for_def open_for_def)

section \<open>From registration to login\<close>

lemma registered_key_length:
  "good_registration cr r challenge rpid origin a \<Longrightarrow> length (ac_public_key a) = SEC1_UNCOMPRESSED_LEN"
  by (auto simp: good_registration_def decode_es256_iff cose_key_iff SEC1_UNCOMPRESSED_LEN_def)

lemma find_appended: "find P xs = None \<Longrightarrow> P x \<Longrightarrow> find P (xs @ [x]) = Some x"
  by (induction xs) (auto split: if_splits)

lemma map_okE_iff: "map_okE f xs = Inr ys \<longleftrightarrow> list_all2 (\<lambda>x y. f x = Inr y) xs ys"
  by (induction xs arbitrary: ys) (auto simp: bindE_Inr_iff list_all2_Cons1)

lemma entry_lookup:
  assumes "crypto_laws cr" "\<forall>x \<in> set (credentials s). credential_id_b64 x \<noteq> b64_encode cr (ac_credential_id a)"
    and "length (ac_public_key a) = SEC1_UNCOMPRESSED_LEN" "ac_credential_id a \<in> set (pl_allowed_ids p)"
  shows "login_lookup cr p (s\<lparr>credentials := credentials s @ [entry_of cr a label stamp]\<rparr>) (ac_credential_id a) =
    Some \<lparr>sv_public_key = ac_public_key a, sv_sign_count = sign_count (ac_prefix a)\<rparr>"
proof -
  have "find (\<lambda>c. credential_id_b64 c = b64_encode cr (ac_credential_id a)) (credentials s @ [entry_of cr a label stamp]) =
      Some (entry_of cr a label stamp)"
    using assms(2) by (intro find_appended) (auto simp: find_None_iff entry_of_def)
  then show ?thesis
    using assms by (simp add: login_lookup_def find_by_id_def credential_public_key_def entry_of_def crypto_lawsD)
qed

lemma fresh_envelope_grants:
  assumes "envelope_laws cr lib" "register_start cr lib cfg secret t0 user_id challenge = Inr resp"
    and "length challenge = 32" "0 \<le> t0" "t0 \<le> t" "t \<le> t0 + 600" "t < 2 ^ 64"
    and "good_registration cr response challenge (cfg_rp_id cfg) (config_origin cfg) a"
    and "strip_whitespace (str_trim bt) =
      encode_paste_blob cr lib \<lparr>pb_envelope = rs_envelope resp, pb_response = response, pb_label = label\<rparr>"
  shows "blob_grants cr lib t secret bt a label"
proof -
  let ?inner = "\<lparr>en_rp_id = cfg_rp_id cfg, en_origin = config_origin cfg, en_issued_at = word_of_int t0,
    en_challenge_b64u = b64u_encode cr challenge\<rparr>"
  let ?blob = "\<lparr>pb_envelope = rs_envelope resp, pb_response = response, pb_label = label\<rparr>"
  have laws: "crypto_laws cr" using assms(1) by (simp add: envelope_laws_def)
  obtain tag where tag: "hmac_sha256 lib secret (inner_json lib ?inner) = Some tag"
    "rs_envelope resp = \<lparr>se_inner = ?inner, se_hmac_b64 = b64_encode cr tag\<rparr>"
    using assms(2,4)
    by (auto simp: register_start_def Let_def bindE_Inr_iff envelope_sign_def envelope_mac_def issued_at_now_def
        now_secs_def to_b64url_def)
  have "uint (word_of_int t :: u64) = t" "uint (word_of_int t0 :: u64) = t0"
    using assms(4-7) by (simp_all add: uint_word_of_int)
  then have "uint (word_of_int t :: u64) \<le> uint (en_issued_at ?inner) + 600" using assms(6) by simp
  moreover have "decode_paste_blob cr lib (str_trim bt) = Inr ?blob"
    using assms(1,9) by (rule decode_encode_paste_blob)
  ultimately show ?thesis
    unfolding blob_grants_def using tag assms(3-5,8) crypto_lawsD [OF laws]
    by (intro exI [of _ ?blob] exI [of _ ?inner] exI [of _ tag] exI [of _ challenge]) auto
qed

section \<open>Properties\<close>

text \<open>
  C4. Every bearer token in the hub's table was minted for a login: some time before, the hub issued a challenge
  for a list of registered credentials, took that challenge out of its table before it expired, and
  then verified for it an assertion with the stored public key of one of the offered credentials; the token
  expires twelve hours after it was minted. This holds in every interleaving of requests,
  operator commands, failures and disconnects.
\<close>

theorem token_needs_passkey:
  assumes "crypto_laws (he_crypto E)" "hub_run E es h" "(token, s) \<in> set (h_sessions h)"
  shows "\<exists>xs ys zs us nonce p r i view n t1 g t0.
    es = xs @ EvMinted nonce token t1 # ys @ EvVerified nonce (pl_challenge p) r i view n # zs @ EvTaken nonce p g # us \<and>
    EvIssued nonce (pl_challenge p) (pl_allowed_ids p) t0 \<in> set us \<and> g < t0 + PENDING_LOGIN_TTL \<and>
    i \<in> set (pl_allowed_ids p) \<and>
    good_assertion (he_crypto E) r (pl_challenge p) (cfg_rp_id (he_cfg E)) (config_origin (he_cfg E)) i view n \<and>
    ls_expires_at s = t1 + SESSION_TTL"
proof -
  obtain t1 where t1: "minted E es token t1" "ls_expires_at s = t1 + SESSION_TTL"
    using hub_run_inv [OF assms(1,2)] assms(3) by (fastforce simp: hub_inv_def)
  then obtain xs m nonce p r view a where m: "es = xs @ EvMinted nonce token t1 # m" "verified E m nonce p r view a"
    by (auto simp: minted_def)
  then obtain ys v where v: "m = ys @ EvVerified nonce (pl_challenge p) r (au_credential_id a) view (au_new_sign_count a) # v"
    "taken v nonce p" "au_credential_id a \<in> set (pl_allowed_ids p)"
    "good_assertion (he_crypto E) r (pl_challenge p) (cfg_rp_id (he_cfg E)) (config_origin (he_cfg E))
       (au_credential_id a) view (au_new_sign_count a)"
    by (auto simp: verified_def)
  then obtain zs us g t0 where "v = zs @ EvTaken nonce p g # us" "g < t0 + PENDING_LOGIN_TTL"
    "EvIssued nonce (pl_challenge p) (pl_allowed_ids p) t0 \<in> set us"
    by (auto simp: taken_def issued_def)
  with t1(2) m(1) v show ?thesis by blast
qed

text \<open>
  C13. A challenge is good for one login: the number of tokens minted for a nonce never exceeds the number
  of challenges issued under it, however requests that name the same nonce are interleaved.
\<close>

theorem challenge_single_use:
  "hub_run E es h \<Longrightarrow> tokens_for nonce es \<le> challenges_for nonce es"
  using challenge_count [of E es h nonce] by linarith

text \<open>
  The table of pending logins never holds more than 1024 entries, however many logins are started
  and never finished.
\<close>

theorem pending_logins_bounded: "hub_run E es h \<Longrightarrow> length (h_pending h) \<le> 1024"
  using hub_run_maps [of E es h] by (simp add: MAX_PENDING_LOGINS_def)

text \<open>
  C17. On the authenticated listener the body of a handler runs only for a live token, unless it is
  registration start, login start or finish, the mode probe, the agent endpoint or a static file: the
  request carries a token that the hub minted less than twelve hours ago, in the Authorization header or, for
  the terminal WebSocket, in a subprotocol together with the hub's own origin.
\<close>

theorem authed_handlers_need_token:
  assumes "crypto_laws (he_crypto E)" "hub_run E es hb" "\<not> lm_no_auth mode"
    and "h \<notin> {RegisterStart, LoginStart, LoginFinish, Mode, AgentConnect, StaticAssets}"
    and "admitted g now mode h hs (h_sessions hb)"
  shows "\<exists>token nonce t. EvMinted nonce token t \<in> set es \<and> now < t + SESSION_TTL \<and>
    (header_get hs ''authorization'' = Some (bstr ''Bearer '' @ token) \<or>
     h = TermWs \<and> check_origin hs (lm_origin mode) \<and>
     token_from_ws_protocol hs = Some (token, bstr ''bearer.'' @ token))"
proof -
  have ok: "hm_ok (h_sessions hb)" using hub_run_maps [OF assms(2)] by simp
  have live: "\<exists>nonce t. EvMinted nonce token t \<in> set es \<and> now < t + SESSION_TTL"
    if valid: "fst (validate_token g now token (h_sessions hb))" for token
  proof -
    obtain s where s: "(token, s) \<in> set (h_sessions hb)" "now < ls_expires_at s"
      using valid unfolding validate_token_iff [OF ok] by (auto dest: hm_get_SomeD)
    then obtain t where "minted E es token t" "ls_expires_at s = t + SESSION_TTL"
      using hub_run_inv [OF assms(1,2)] by (fastforce simp: hub_inv_def)
    moreover from this(1) obtain nonce where "EvMinted nonce token t \<in> set es" using minted_mem by blast
    ultimately show ?thesis using s by auto
  qed
  show ?thesis
  proof (cases "h = TermWs")
    case True
    then obtain sp where gate: "fst (term_ws_gate g now mode hs (h_sessions hb)) = Inr sp"
      using assms(5) by (auto simp: admitted_def)
    then obtain token raw where t: "token_from_ws_protocol hs = Some (token, raw)"
      "fst (validate_token g now token (h_sessions hb))" "check_origin hs (lm_origin mode)"
      using assms(3) by (auto simp: term_ws_gate_def Let_def split: if_splits option.splits prod.splits)
    then have "raw = bstr ''bearer.'' @ token"
      by (auto simp: token_from_ws_protocol_def Let_def bind_eq_Some_conv)
    with True t live show ?thesis by blast
  next
    case False
    then have "needs_bearer h" using assms(4) by (cases h) auto
    then obtain token where b: "fst (bearer_from_request g now (Some mode) hs (h_sessions hb)) = Inr token"
      using assms(5) by (auto simp: admitted_def)
    then have "header_get hs ''authorization'' = Some (bstr ''Bearer '' @ token)"
      "fst (validate_token g now token (h_sessions hb))"
      using assms(3)
      by (auto simp: bearer_from_request_def Let_def to_str_def bind_eq_Some_conv
          split: if_splits option.splits prod.splits)
    with live show ?thesis by blast
  qed
qed

text \<open>
  A token is accepted until twelve hours after it was stored and not later, storing it accepts no other
  token, and a dropped token is refused.
\<close>

theorem token_lifetime:
  assumes "hm_ok m"
  shows "(fst (validate_token g2 now token' (snd (store_token t g token m))) \<longleftrightarrow>
           (if token' = token then g2 < t + 43200000000000 \<and> now < t + 43200000000000
            else fst (validate_token (max g g2) now token' m))) \<and>
         \<not> fst (validate_token g2 now token (drop_token token m))"
proof -
  let ?m = "hub_gc g ls_expires_at m"
  have ok: "hm_ok ?m" using assms by simp
  have "SESSION_TTL = 43200000000000" by (simp add: SESSION_TTL_def secs_def)
  then have "fst (validate_token g2 now token' (snd (store_token t g token m))) \<longleftrightarrow>
      (if token' = token then g2 < t + 43200000000000 \<and> now < t + 43200000000000
       else fst (validate_token (max g g2) now token' m))"
    using assms ok hub_gc_get [OF assms, of g ls_expires_at token']
    by (auto simp: store_token_def Let_def validate_token_iff)
  moreover have "\<not> fst (validate_token g2 now token (drop_token token m))"
    using assms by (simp add: drop_token_def validate_token_iff)
  ultimately show ?thesis by blast
qed

text \<open>
  Registration completes: the envelope of \<open>register_start\<close>, pasted back within ten minutes with a response for
  its challenge, in any layout of blanks and lines around and inside the text, is added when nothing fails and the id is
  new, and from then on a login that is offered that credential finds the registered key and counter.
\<close>

theorem registration_completes:
  assumes "envelope_laws cr lib" "codec_ok cd"
    and "register_start cr lib cfg secret t0 user_id challenge = Inr resp" "length challenge = 32"
    and "good_registration cr response challenge (cfg_rp_id cfg) (config_origin cfg) a"
    and "strip_whitespace (str_trim bt) =
      encode_paste_blob cr lib \<lparr>pb_envelope = rs_envelope resp, pb_response = response, pb_label = label\<rparr>"
    and "0 \<le> t0" "t0 \<le> io_clock io" "io_clock io \<le> t0 + 600" "io_clock io < 2 ^ 64"
    and "io_readable io" "io_locked io" "io_save io = SaveOk" "blob_argument io args = Inr bt"
    and "dd_secret dir = Some secret" "length secret = 32"
    and "cred_load cd True (dd_credentials dir) = Inr s"
    and "\<forall>x \<in> set (credentials s). credential_id_b64 x \<noteq> b64_encode cr (ac_credential_id a)"
  shows "fst (cmd_add cr lib cd io args dir) = Inr () \<and>
    (\<exists>s'. cred_load cd True (dd_credentials (snd (cmd_add cr lib cd io args dir))) = Inr s' \<and>
       (\<forall>p. ac_credential_id a \<in> set (pl_allowed_ids p) \<longrightarrow>
          login_lookup cr p s' (ac_credential_id a) =
            Some \<lparr>sv_public_key = ac_public_key a, sv_sign_count = sign_count (ac_prefix a)\<rparr>))"
proof -
  have laws: "crypto_laws cr" using assms(1) by (simp add: envelope_laws_def)
  have "blob_grants cr lib (io_clock io) secret bt a label"
    by (rule fresh_envelope_grants [OF assms(1,3,4,7,8,9,10,5,6)])
  note fine = cmd_add_fine [OF assms(2) laws assms(11-16) this assms(17,18)]
  show ?thesis
    using fine entry_lookup [OF laws assms(18) registered_key_length [OF assms(5)]] by auto
qed

section \<open>Examples\<close>

definition demo_cfg :: hub_config where
  "demo_cfg = \<lparr>cfg_domain = bstr ''h'', cfg_rp_id = bstr ''h'', cfg_rp_name = bstr ''term'', cfg_public_origin = None\<rparr>"

definition demo_hub_env :: hub_env where
  "demo_hub_env = \<lparr>he_crypto = demo_vault, he_lib = demo_lib, he_creds = demo_cred_codec, he_certs = demo_cert_codec,
                   he_cfg = demo_cfg\<rparr>"

definition demo_stored :: stored_credential where
  "demo_stored = \<lparr>sc_label = bstr ''blue'', sc_added_at = [], credential_id_b64 = letters [3],
                  credential_public_key_b64 = letters demo_key, sc_sign_count = 8\<rparr>"

definition demo_hub_dir :: data_dir where
  "demo_hub_dir = demo_dir\<lparr>dd_credentials :=
     \<lparr>sf_body = Some (ser demo_cred_codec \<lparr>credentials = [demo_stored]\<rparr>), sf_tmp = None\<rparr>\<rparr>"

definition demo_pending :: pending_login where
  "demo_pending = \<lparr>pl_challenge = replicate 32 7, pl_allowed_ids = [[3]], pl_expires_at = 5 + PENDING_LOGIN_TTL\<rparr>"

definition demo_view :: stored_credential_view where
  "demo_view = \<lparr>sv_public_key = demo_key, sv_sign_count = 8\<rparr>"

definition demo_auth :: authenticated_credential where
  "demo_auth = \<lparr>au_credential_id = [3], au_new_sign_count = 9, au_sign_count_advanced = True\<rparr>"

definition demo_log :: "hub_event list" where
  "demo_log = [EvMinted [1] [0x6B] 9, EvVerified [1] (replicate 32 7) demo_assertion [3] demo_view 9,
               EvTaken [1] demo_pending 6, EvIssued [1] (replicate 32 7) [[3]] 5]"

definition demo_hub :: hub where
  "demo_hub = \<lparr>h_pending = [], h_sessions = [([0x6B], \<lparr>ls_expires_at = 9 + SESSION_TTL\<rparr>)],
     h_dir = login_persist demo_vault demo_cred_codec demo_io demo_auth demo_hub_dir, h_tasks = []\<rparr>"

lemma demo_hub_load: "cred_load demo_cred_codec True (dd_credentials demo_hub_dir) = Inr \<lparr>credentials = [demo_stored]\<rparr>"
  using demo_cred_codec_ok by (simp add: demo_hub_dir_def cred_load_def codec_ok_def)

lemma demo_offer: "login_offer demo_vault demo_cred_codec True (dd_credentials demo_hub_dir) = Inr [[3]]"
  by (simp add: login_offer_def demo_hub_load credential_id_def demo_vault_def demo_stored_def)

lemma demo_lookup: "login_lookup demo_vault demo_pending \<lparr>credentials = [demo_stored]\<rparr> [3] = Some demo_view"
  by (simp add: login_lookup_def demo_pending_def find_by_id_def demo_stored_def demo_vault_def demo_view_def
      credential_public_key_def demo_key_def SEC1_UNCOMPRESSED_LEN_def)

lemma good_assertion_vault: "good_assertion demo_vault = good_assertion demo_crypto"
  by (intro ext) (simp add: good_assertion_def client_data_says_def touched_for_def demo_vault_def)

lemma demo_check:
  "login_check demo_vault demo_cred_codec demo_cfg True (dd_credentials demo_hub_dir) demo_pending demo_assertion = Inr demo_auth"
proof -
  have "config_origin demo_cfg = bstr ''https://h''" by (simp add: config_origin_def demo_cfg_def bstr_def)
  then show ?thesis
    using demo_lookup demo_assertion_good
    by (simp add: login_check_iff demo_hub_load demo_auth_def demo_pending_def demo_cfg_def good_assertion_vault demo_view_def)
qed

lemma demo_hub_run: "hub_run demo_hub_env demo_log demo_hub"
proof -
  let ?E = demo_hub_env
  note env = demo_hub_env_def hub_init_def
  have 0: "hub_run ?E [] (hub_init demo_hub_dir)" by (rule hub_run.start)
  have 1: "hub_run ?E [] ((hub_init demo_hub_dir)\<lparr>h_tasks := [Offered [[3]]]\<rparr>)"
    using hub_run.offer [OF 0, of True "[[3]]"] demo_offer by (simp add: env)
  have 2: "hub_run ?E [EvIssued [1] (replicate 32 7) [[3]] 5]
      ((hub_init demo_hub_dir)\<lparr>h_pending := [([1], demo_pending)], h_tasks := []\<rparr>)"
    using hub_run.issue [OF 1, of "[[3]]" 4 5 "[1]" "replicate 32 7" "[([1], demo_pending)]"]
    by (simp add: env login_issue_def hub_gc_def MAX_PENDING_LOGINS_def demo_pending_def)
  have 3: "hub_run ?E [EvTaken [1] demo_pending 6, EvIssued [1] (replicate 32 7) [[3]] 5]
      ((hub_init demo_hub_dir)\<lparr>h_tasks := [Taken [1] demo_pending demo_assertion]\<rparr>)"
    using hub_run.take [OF 2, of 6 "[1]" demo_pending "[]" demo_assertion]
    by (simp add: env login_take_def hub_gc_def demo_pending_def PENDING_LOGIN_TTL_def secs_def)
  have 4: "hub_run ?E (tl demo_log)
      ((hub_init demo_hub_dir)\<lparr>h_tasks := [Verified [1] demo_pending demo_assertion demo_view demo_auth]\<rparr>)"
    using hub_run.verify [OF 3, of "[1]" demo_pending demo_assertion True "\<lparr>credentials = [demo_stored]\<rparr>" demo_auth demo_view]
      demo_hub_load demo_check demo_lookup
    by (simp add: env demo_log_def demo_auth_def demo_pending_def)
  have 5: "hub_run ?E (tl demo_log) ((hub_init demo_hub_dir)\<lparr>
      h_dir := login_persist demo_vault demo_cred_codec demo_io demo_auth demo_hub_dir,
      h_tasks := [Persisted [1] demo_pending demo_assertion demo_view demo_auth]\<rparr>)"
    using hub_run.persist [OF 4, of "[1]" demo_pending demo_assertion demo_view demo_auth demo_io] by (simp add: env)
  show ?thesis
    using hub_run.mint [OF 5, of "[1]" demo_pending demo_assertion demo_view demo_auth "[0x6B]" "[0x6B]" 9 9]
    by (simp add: env demo_log_def demo_hub_def mint_token_def demo_vault_def demo_crypto_def store_token_def hub_gc_def Let_def)
qed

theorem token_needs_passkey_witness:
  "crypto_laws (he_crypto demo_hub_env) \<and> hub_run demo_hub_env demo_log demo_hub \<and>
   (\<exists>(p :: pending_login) r i view n. EvVerified [1] (pl_challenge p) r i view n \<in> set demo_log \<and> i \<in> set (pl_allowed_ids p) \<and>
      good_assertion demo_vault r (pl_challenge p) (bstr ''h'') (config_origin demo_cfg) i view n)"
proof -
  have laws: "crypto_laws (he_crypto demo_hub_env)" by (simp add: demo_hub_env_def)
  have mem: "([0x6B], \<lparr>ls_expires_at = 9 + SESSION_TTL\<rparr>) \<in> set (h_sessions demo_hub)" by (simp add: demo_hub_def)
  obtain xs ys zs us nonce p r i view n t1 g t0 where *:
    "demo_log = xs @ EvMinted nonce [0x6B] t1 # ys @ EvVerified nonce (pl_challenge p) r i view n # zs @ EvTaken nonce p g # us"
    "i \<in> set (pl_allowed_ids p)"
    "good_assertion (he_crypto demo_hub_env) r (pl_challenge p) (cfg_rp_id (he_cfg demo_hub_env)) (config_origin (he_cfg demo_hub_env)) i view n"
    using token_needs_passkey [OF laws demo_hub_run mem] by blast
  have v: "EvVerified nonce (pl_challenge p) r i view n \<in> set demo_log" unfolding *(1) by simp
  then have n: "nonce = [1]" by (simp add: demo_log_def)
  have "good_assertion demo_vault r (pl_challenge p) (bstr ''h'') (config_origin demo_cfg) i view n"
    using *(3) by (simp add: demo_hub_env_def demo_cfg_def)
  then show ?thesis using laws demo_hub_run v [unfolded n] *(2) by blast
qed

theorem challenge_single_use_witness:
  "hub_run demo_hub_env demo_log demo_hub \<and> tokens_for [1] demo_log \<le> 1"
  using challenge_single_use [OF demo_hub_run, of "[1]"] demo_hub_run by (simp add: challenges_for_def demo_log_def)

theorem pending_logins_bounded_witness:
  "hub_run demo_hub_env demo_log demo_hub \<and> length (h_pending demo_hub) \<le> 1024"
  using pending_logins_bounded [OF demo_hub_run] demo_hub_run by simp

definition demo_headers :: headers where
  "demo_headers = [(bstr ''authorization'', bstr ''Bearer k'')]"

definition demo_mode :: listener_mode where "demo_mode = \<lparr>lm_no_auth = False, lm_origin = bstr ''https://h''\<rparr>"

theorem authed_handlers_need_token_witness:
  "crypto_laws (he_crypto demo_hub_env) \<and> hub_run demo_hub_env demo_log demo_hub \<and> \<not> lm_no_auth demo_mode \<and>
   route authed_routes GET [bstr ''api'', bstr ''machines''] = Some Machines \<and>
   admitted 20 20 demo_mode Machines demo_headers (h_sessions demo_hub) \<and>
   (\<exists>token nonce t. EvMinted nonce token t \<in> set demo_log \<and> 20 < t + SESSION_TTL)"
proof -
  have laws: "crypto_laws (he_crypto demo_hub_env)" by (simp add: demo_hub_env_def)
  have mode: "\<not> lm_no_auth demo_mode" by (simp add: demo_mode_def)
  have adm: "admitted 20 20 demo_mode Machines demo_headers (h_sessions demo_hub)"
    by (simp add: admitted_def edge_allows_def header_get_def demo_headers_def demo_mode_def bearer_from_request_def
        bstr_def to_str_def strip_prefix_def starts_with_def validate_token_def hub_gc_def demo_hub_def SESSION_TTL_def
        secs_def)
  have h: "Machines \<notin> {RegisterStart, LoginStart, LoginFinish, Mode, AgentConnect, StaticAssets}" by simp
  have "route authed_routes GET [bstr ''api'', bstr ''machines''] = Some Machines"
    by (simp add: route_def authed_routes_def shared_routes_def bstr_def)
  with laws mode adm demo_hub_run authed_handlers_need_token [OF laws demo_hub_run mode h adm] show ?thesis by blast
qed

definition demo_hub2_sessions :: "(bytes, login_session) hash_map" where
  "demo_hub2_sessions = [(bstr ''k'', \<lparr>ls_expires_at = 9 + SESSION_TTL\<rparr>)]"

theorem token_lifetime_witness:
  "hm_ok demo_hub2_sessions \<and>
   \<not> fst (validate_token 0 43200000000010 (bstr ''n'') (snd (store_token 10 5 (bstr ''n'') demo_hub2_sessions))) \<and>
   fst (validate_token 0 43200000000009 (bstr ''n'') (snd (store_token 10 5 (bstr ''n'') demo_hub2_sessions)))"
proof -
  have ok: "hm_ok demo_hub2_sessions" by (simp add: demo_hub2_sessions_def hm_ok_def)
  show ?thesis
    using ok token_lifetime [OF ok, of 0 43200000000010 "bstr ''n''" 10 5 "bstr ''n''"]
      token_lifetime [OF ok, of 0 43200000000009 "bstr ''n''" 10 5 "bstr ''n''"]
    by simp
qed

text \<open>The envelope of a registration started at second 1000, pasted at second 1600.\<close>

lemma demo_register:
  "register_start demo_vault demo_lib demo_cfg demo_secret 1000 (replicate 16 1) (replicate 32 7) =
     Inr \<lparr>rs_ccr = creation_options_build demo_vault (bstr ''h'') (bstr ''term'') (replicate 16 1)
            (bstr ''term-admin-'' @ replicate 8 1) (bstr ''term admin'') (replicate 32 7),
          rs_envelope = demo_envelope, rs_rp_id = bstr ''h'', rs_origin = bstr ''https://h'', rs_ttl_secs = 600\<rparr>"
  by (simp add: register_start_def envelope_sign_def envelope_mac_def demo_envelope_def demo_inner_def demo_cfg_def
      config_origin_def issued_at_now_def now_secs_def to_b64url_def ENVELOPE_TTL_SECS_def bstr_def)
    (simp add: demo_vault_def demo_crypto_def demo_lib_def)

theorem registration_completes_witness:
  "envelope_laws demo_vault demo_lib \<and> codec_ok demo_cred_codec \<and>
   fst (cmd_add demo_vault demo_lib demo_cred_codec demo_io demo_args demo_dir) = Inr () \<and>
   (\<exists>s'. cred_load demo_cred_codec True
          (dd_credentials (snd (cmd_add demo_vault demo_lib demo_cred_codec demo_io demo_args demo_dir))) = Inr s' \<and>
      login_lookup demo_vault demo_pending s' [3] = Some \<lparr>sv_public_key = demo_key, sv_sign_count = 8\<rparr>)"
proof -
  obtain a where a: "good_registration demo_crypto demo_creation (replicate 32 7) (bstr ''h'') (bstr ''https://h'') a"
    "ac_credential_id a = [3]" "ac_public_key a = demo_key" "sign_count (ac_prefix a) = 8"
    using demo_creation_accepted by (auto simp: finish_register_iff)
  let ?bt = "encode_paste_blob demo_vault demo_lib demo_blob"
  have g: "graphic ?bt" by (simp add: encode_paste_blob_def demo_vault_def graphic_letters)
  have og: "config_origin demo_cfg = bstr ''https://h''" by (simp add: config_origin_def demo_cfg_def bstr_def)
  have good: "good_registration demo_vault demo_creation (replicate 32 7) (cfg_rp_id demo_cfg) (config_origin demo_cfg) a"
    unfolding good_registration_vault og using a(1) by (simp add: demo_cfg_def)
  have bt: "strip_whitespace (str_trim ?bt) = encode_paste_blob demo_vault demo_lib
      \<lparr>pb_envelope = demo_envelope, pb_response = demo_creation, pb_label = None\<rparr>"
    using str_trim_graphic [OF g] strip_whitespace_graphic [OF g] by (simp add: demo_blob_def)
  have ld: "cred_load demo_cred_codec True (dd_credentials demo_dir) = Inr \<lparr>credentials = []\<rparr>"
    by (simp add: demo_dir_def cred_load_def)
  have ids: "ac_credential_id a \<in> set (pl_allowed_ids demo_pending)" by (simp add: a(2) demo_pending_def)
  have "fst (cmd_add demo_vault demo_lib demo_cred_codec demo_io demo_args demo_dir) = Inr () \<and>
    (\<exists>s'. cred_load demo_cred_codec True
         (dd_credentials (snd (cmd_add demo_vault demo_lib demo_cred_codec demo_io demo_args demo_dir))) = Inr s' \<and>
       (\<forall>p. ac_credential_id a \<in> set (pl_allowed_ids p) \<longrightarrow>
          login_lookup demo_vault p s' (ac_credential_id a) =
            Some \<lparr>sv_public_key = ac_public_key a, sv_sign_count = sign_count (ac_prefix a)\<rparr>))"
    by (rule registration_completes [OF demo_lib_laws demo_cred_codec_ok demo_register _ good _ _ _ _ _ _ _ _ demo_blob_argument _ _ ld])
      (use bt in \<open>simp_all add: demo_io_def demo_dir_def demo_secret_def\<close>)
  with ids a show ?thesis by auto
qed

end
