(* ===== verification/Agent_Pki.thy ===== *)
theory Agent_Pki
  imports Hub_Login
begin

text \<open>
  How an agent proves itself to the hub. On the raw TLS listener \<open>AgentClientVerifier\<close>
  (\<open>hub/src/client_verifier.rs\<close>) judges its certificate during the handshake; behind a perimeter that
  ends TLS the agent (\<open>agent/src/wsdial.rs\<close>) sends the certificate and a signed time stamp and nonce
  in two headers, which \<open>authenticate_ws_upgrade\<close> (\<open>hub/src/agent_ws.rs\<close>) checks with the helpers of
  \<open>common/src/agent_pki\<close>, against a cache of the nonces it has seen (\<open>hub/src/state.rs\<close>).

  Parsing and chain validation of X.509, the P-256 primitives, Base64, SHA-256 and JSON are third-party
  code and parameters. Instants are nanoseconds since the earliest instant the platform can represent,
  so that \<open>checked_sub\<close> fails exactly below zero; the Unix clock is an argument of its own.
\<close>

section \<open>Library code\<close>

datatype general_name = GnUri bytes | GnOther

text \<open>What the sources read of a parsed certificate; the subject alternative name may be unreadable or absent.\<close>

record x509_cert =
  xc_san :: "general_name list option option"
  xc_algorithm :: bytes
  xc_parameters :: "bytes option"
  xc_key :: bytes

record pki =
  x509_parse :: "bytes \<Rightarrow> x509_cert option"
  webpki_chain :: "bytes \<Rightarrow> u64 \<Rightarrow> bool"
  rustls_chain :: "bytes \<Rightarrow> bytes list \<Rightarrow> u64 \<Rightarrow> bool"
  fixed_signature :: "bytes \<Rightarrow> bytes option"
  p256_sign :: "bytes \<Rightarrow> bytes \<Rightarrow> bytes option"

text \<open>\<open>str::parse::<u64>\<close>: one leading plus sign, at least one digit, no overflow.\<close>

definition is_digit :: "u8 \<Rightarrow> bool" where
  "is_digit b \<longleftrightarrow> 0x30 \<le> b \<and> b \<le> 0x39"

definition dec_value :: "bytes \<Rightarrow> nat" where
  "dec_value ds = foldl (\<lambda>n d. n * 10 + unat (d - 0x30)) 0 ds"

definition parse_u64 :: "bytes \<Rightarrow> u64 option" where
  "parse_u64 s =
     (let ds = (case s of b # rest \<Rightarrow> if b = 0x2B then rest else s | [] \<Rightarrow> []) in
      if ds = [] \<or> \<not> list_all is_digit ds \<or> dec_value ds \<ge> 2 ^ 64 then None else Some (word_of_nat (dec_value ds)))"

text \<open>\<open>str::splitn\<close> on a one-byte separator.\<close>

fun splitn :: "nat \<Rightarrow> u8 \<Rightarrow> bytes \<Rightarrow> bytes list" where
  "splitn 0 c s = []"
| "splitn (Suc 0) c s = [s]"
| "splitn (Suc (Suc n)) c s =
     (let a = takeWhile (\<lambda>b. b \<noteq> c) s in
      if length a = length s then [s] else a # splitn (Suc n) c (drop (Suc (length a)) s))"

definition abs_diff :: "u64 \<Rightarrow> u64 \<Rightarrow> u64" where
  "abs_diff a b = (if a < b then b - a else a - b)"

definition checked_sub_nanos :: "nanos \<Rightarrow> nanos \<Rightarrow> nanos option" where
  "checked_sub_nanos a d = (if d \<le> a then Some (a - d) else None)"

section \<open>Shared helpers\<close>

definition WS_AUTH_DOMAIN :: bytes where "WS_AUTH_DOMAIN = bstr ''term-agent-ws-auth''"
definition MACHINE_URN_PREFIX :: bytes where "MACHINE_URN_PREFIX = bstr ''urn:term-agent:''"
definition MAX_AGENT_CERT_HEADER_BYTES :: nat where "MAX_AGENT_CERT_HEADER_BYTES = 8 * 1024"
definition MAX_AGENT_AUTH_HEADER_BYTES :: nat where "MAX_AGENT_AUTH_HEADER_BYTES = 512"
definition WS_AUTH_SKEW_SECS :: u64 where "WS_AUTH_SKEW_SECS = 300"
definition WS_AUTH_NONCE_LEN :: nat where "WS_AUTH_NONCE_LEN = 16"
definition WS_REPLAY_TTL_SECS :: nat where "WS_REPLAY_TTL_SECS = 2 * unat WS_AUTH_SKEW_SECS"

definition machine_urn :: "bytes \<Rightarrow> bytes" where
  "machine_urn machine_id = MACHINE_URN_PREFIX @ machine_id"

definition ws_auth_payload :: "crypto \<Rightarrow> bytes \<Rightarrow> u64 \<Rightarrow> bytes \<Rightarrow> bytes" where
  "ws_auth_payload cr host unix_secs nonce =
     WS_AUTH_DOMAIN @ [0x0A] @ host @ [0x0A] @ dec_of_nat (unat unix_secs) @ [0x0A] @ b64u_encode cr nonce"

definition cert_fingerprint :: "crypto \<Rightarrow> bytes \<Rightarrow> bytes" where
  "cert_fingerprint cr cert_der = b64u_encode cr (sha256 cr cert_der)"

datatype pki_error =
  TimestampRange | MissingTimestamp | MissingNonce | MissingSignature | TooManyFields
| BadTimestamp | NonceEncoding | NonceLength | SignatureEncoding
| CertUnparsable | SanUnreadable | SanAbsent | SanMultiple | SanMissing | MachineIdLength | MachineIdChars
| SpkiAlgorithm | SpkiNoParameters | SpkiCurve | SpkiKey | KeyInvalid | SignatureLength | SignatureMismatch

definition check_ws_auth_timestamp :: "u64 \<Rightarrow> u64 \<Rightarrow> pki_error + unit" where
  "check_ws_auth_timestamp now_unix ts =
     (let diff = abs_diff ts now_unix in if diff > WS_AUTH_SKEW_SECS then Inl TimestampRange else Inr ())"

definition parse_ws_auth_header :: "crypto \<Rightarrow> bytes \<Rightarrow> pki_error + u64 \<times> bytes \<times> bytes" where
  "parse_ws_auth_header cr value =
     (case splitn 3 0x2E value of
        [] \<Rightarrow> Inl MissingTimestamp
      | [_] \<Rightarrow> Inl MissingNonce
      | [_, _] \<Rightarrow> Inl MissingSignature
      | [ts_str, nonce_str, sig_str] \<Rightarrow>
          bindE (ok_orE (parse_u64 ts_str) BadTimestamp) (\<lambda>ts.
          bindE (ok_orE (b64u_decode cr nonce_str) NonceEncoding) (\<lambda>nonce.
          if length nonce \<noteq> WS_AUTH_NONCE_LEN then Inl NonceLength
          else bindE (ok_orE (b64u_decode cr sig_str) SignatureEncoding) (\<lambda>sig. Inr (ts, nonce, sig))))
      | _ \<Rightarrow> Inl TooManyFields)"

definition validate_machine_id :: "bytes \<Rightarrow> pki_error + unit" where
  "validate_machine_id i =
     (let n = length i in
      if n = 0 \<or> n > 32 then Inl MachineIdLength
      else if \<not> list_all (\<lambda>b. is_ascii_alphanumeric b \<or> b = 0x5F \<or> b = 0x2D) i then Inl MachineIdChars
      else Inr ())"

fun san_loop :: "general_name list \<Rightarrow> bytes option \<Rightarrow> pki_error + bytes option" where
  "san_loop [] found = Inr found"
| "san_loop (GnOther # names) found = san_loop names found"
| "san_loop (GnUri uri # names) found =
     (case strip_prefix MACHINE_URN_PREFIX uri of
        None \<Rightarrow> san_loop names found
      | Some rest \<Rightarrow> if found \<noteq> None then Inl SanMultiple else san_loop names (Some rest))"

definition extract_machine_id_from_san :: "pki \<Rightarrow> bytes \<Rightarrow> pki_error + bytes" where
  "extract_machine_id_from_san pk cert_der =
     bindE (ok_orE (x509_parse pk cert_der) CertUnparsable) (\<lambda>cert.
     bindE (ok_orE (xc_san cert) SanUnreadable) (\<lambda>ext.
     bindE (ok_orE ext SanAbsent) (\<lambda>general_names.
     bindE (san_loop general_names None) (\<lambda>found.
     bindE (ok_orE found SanMissing) (\<lambda>i.
     bindE (validate_machine_id i) (\<lambda>_. Inr i))))))"

definition extract_spki_uncompressed_p256 :: "pki \<Rightarrow> bytes \<Rightarrow> pki_error + bytes" where
  "extract_spki_uncompressed_p256 pk cert_der =
     bindE (ok_orE (x509_parse pk cert_der) CertUnparsable) (\<lambda>cert.
     if xc_algorithm cert \<noteq> bstr ''1.2.840.10045.2.1'' then Inl SpkiAlgorithm
     else bindE (ok_orE (xc_parameters cert) SpkiNoParameters) (\<lambda>raw_params.
     if raw_params \<noteq> [0x2A, 0x86, 0x48, 0xCE, 0x3D, 0x03, 0x01, 0x07] then Inl SpkiCurve
     else let key = xc_key cert in
     if length key \<noteq> 65 \<or> hd key \<noteq> 0x04 then Inl SpkiKey else Inr key))"

definition verify_p256_signature :: "crypto \<Rightarrow> pki \<Rightarrow> bytes \<Rightarrow> bytes \<Rightarrow> bytes \<Rightarrow> pki_error + unit" where
  "verify_p256_signature cr pk cert_der payload sig =
     bindE (extract_spki_uncompressed_p256 pk cert_der) (\<lambda>spki.
     if \<not> sec1_valid cr spki then Inl KeyInvalid
     else bindE (ok_orE (fixed_signature pk sig) SignatureLength) (\<lambda>sig.
     if p256_verify cr spki payload sig then Inr () else Inl SignatureMismatch))"

section \<open>The client verifier\<close>

datatype tls_error = ChainRejected | ApplicationVerificationFailure | CertExpired

definition verify_client_cert ::
    "crypto \<Rightarrow> pki \<Rightarrow> issued_cert_store \<Rightarrow> bytes \<Rightarrow> bytes list \<Rightarrow> u64 \<Rightarrow> tls_error + unit" where
  "verify_client_cert cr pk issued_certs end_entity intermediates now =
     (if \<not> rustls_chain pk end_entity intermediates now then Inl ChainRejected
      else
      (let fp = cert_fingerprint cr end_entity in
       bindE (ok_orE (find_by_fingerprint issued_certs fp) ApplicationVerificationFailure) (\<lambda>entry.
       bindE (map_errE (\<lambda>_. ApplicationVerificationFailure) (extract_machine_id_from_san pk end_entity)) (\<lambda>san_id.
       if san_id \<noteq> ce_machine_id entry then Inl ApplicationVerificationFailure
       else if ce_not_after_unix entry > 0 \<and> now > ce_not_after_unix entry then Inl CertExpired
       else Inr ()))))"

section \<open>The header check\<close>

text \<open>
  The readings of the two clocks during one request: the Unix time of the chain validation and of the
  freshness check (\<open>None\<close> before 1970), and the instant recorded with the nonce.
\<close>

record ws_clock =
  wc_chain :: "u64 option"
  wc_now :: "u64 option"
  wc_instant :: nanos

type_synonym replay_cache = "(bytes \<times> bytes, nanos) hash_map"

datatype ws_auth_error =
  CertHeaderMissing | CertHeaderText | CertHeaderSize | AuthHeaderMissing | AuthHeaderText | AuthHeaderSize
| CertDecode | CertChain | NotIssued | SanRejected pki_error | SanDisagrees | AuthHeaderParse pki_error
| SystemClock | StaleTimestamp pki_error | HostMissing | BadSignature pki_error | Replayed

definition header_text :: "headers \<Rightarrow> string \<Rightarrow> 'e \<Rightarrow> 'e \<Rightarrow> 'e + bytes" where
  "header_text hs name missing not_text =
     bindE (ok_orE (header_get hs name) missing) (\<lambda>v. ok_orE (to_str v) not_text)"

definition decode_cert_header :: "crypto \<Rightarrow> bytes \<Rightarrow> bytes option" where
  "decode_cert_header cr cert_b64 =
     (case b64u_decode cr cert_b64 of Some b \<Rightarrow> Some b | None \<Rightarrow> b64_decode cr cert_b64)"

definition verify_chain_to_agent_ca :: "pki \<Rightarrow> u64 option \<Rightarrow> bytes \<Rightarrow> bool" where
  "verify_chain_to_agent_ca pk now cert_der = (case now of None \<Rightarrow> False | Some t \<Rightarrow> webpki_chain pk cert_der t)"

text \<open>The first five steps: the certificate, its fingerprint, its entry and the other header.\<close>

definition ws_auth_cert ::
    "crypto \<Rightarrow> pki \<Rightarrow> issued_cert_store \<Rightarrow> ws_clock \<Rightarrow> headers \<Rightarrow> ws_auth_error + bytes \<times> bytes \<times> issued_cert_entry \<times> bytes" where
  "ws_auth_cert cr pk issued_certs clock hs =
     bindE (header_text hs ''x-agent-cert'' CertHeaderMissing CertHeaderText) (\<lambda>v.
     let cert_b64 = str_trim v in
     if length cert_b64 > MAX_AGENT_CERT_HEADER_BYTES then Inl CertHeaderSize
     else
     bindE (header_text hs ''x-agent-auth'' AuthHeaderMissing AuthHeaderText) (\<lambda>v.
     let auth_header = str_trim v in
     if length auth_header > MAX_AGENT_AUTH_HEADER_BYTES then Inl AuthHeaderSize
     else
     bindE (ok_orE (decode_cert_header cr cert_b64) CertDecode) (\<lambda>cert_der.
     if \<not> verify_chain_to_agent_ca pk (wc_chain clock) cert_der then Inl CertChain
     else
     let fp = cert_fingerprint cr cert_der in
     bindE (ok_orE (find_by_fingerprint issued_certs fp) NotIssued) (\<lambda>entry.
     bindE (map_errE SanRejected (extract_machine_id_from_san pk cert_der)) (\<lambda>san_id.
     if san_id \<noteq> ce_machine_id entry then Inl SanDisagrees
     else Inr (cert_der, fp, entry, auth_header))))))"

text \<open>Steps six and seven: the time stamp and the signature; the nonce is the result.\<close>

definition ws_auth_assertion ::
    "crypto \<Rightarrow> pki \<Rightarrow> ws_clock \<Rightarrow> headers \<Rightarrow> bytes \<Rightarrow> bytes \<Rightarrow> ws_auth_error + bytes" where
  "ws_auth_assertion cr pk clock hs cert_der auth_header =
     bindE (map_errE AuthHeaderParse (parse_ws_auth_header cr auth_header)) (\<lambda>(ts, nonce, sig).
     bindE (ok_orE (wc_now clock) SystemClock) (\<lambda>now.
     bindE (map_errE StaleTimestamp (check_ws_auth_timestamp now ts)) (\<lambda>_.
     bindE (ok_orE (Option.bind (header_get hs ''host'') to_str) HostMissing) (\<lambda>host.
     bindE (map_errE BadSignature (verify_p256_signature cr pk cert_der (ws_auth_payload cr host ts nonce) sig)) (\<lambda>_.
     Inr nonce)))))"

definition authenticate_ws_upgrade ::
    "crypto \<Rightarrow> pki \<Rightarrow> issued_cert_store \<Rightarrow> ws_clock \<Rightarrow> headers \<Rightarrow> replay_cache \<Rightarrow> (ws_auth_error + bytes) \<times> replay_cache" where
  "authenticate_ws_upgrade cr pk issued_certs clock hs cache =
     (case bindE (ws_auth_cert cr pk issued_certs clock hs) (\<lambda>(cert_der, fp, entry, auth_header).
             bindE (ws_auth_assertion cr pk clock hs cert_der auth_header) (\<lambda>nonce. Inr ((fp, nonce), entry))) of
        Inl e \<Rightarrow> (Inl e, cache)
      | Inr (key, entry) \<Rightarrow>
          if hm_get cache key \<noteq> None then (Inl Replayed, cache)
          else (Inr (ce_machine_id entry), hm_insert key (wc_instant clock) cache))"

definition gc_ws_replay :: "nanos \<Rightarrow> replay_cache \<Rightarrow> replay_cache" where
  "gc_ws_replay now cache =
     (let cutoff = (case checked_sub_nanos now (secs WS_REPLAY_TTL_SECS) of Some t \<Rightarrow> t | None \<Rightarrow> now) in
      filter (\<lambda>(_, t). t \<ge> cutoff) cache)"

text \<open>The reloader keeps its snapshot when the file cannot be read or parsed.\<close>

definition reload_issued_certs :: "issued_cert_store codec \<Rightarrow> bool \<Rightarrow> store_file \<Rightarrow> issued_cert_store \<Rightarrow> issued_cert_store" where
  "reload_issued_certs cd readable f snapshot =
     (case cert_load cd readable f of Inr new_store \<Rightarrow> new_store | Inl _ \<Rightarrow> snapshot)"

section \<open>The agent's side\<close>

text \<open>\<open>HeaderValue::from_str\<close>\<close>

definition header_value :: "bytes \<Rightarrow> bytes option" where
  "header_value s = (if list_all (\<lambda>b. (0x20 \<le> b \<and> b \<noteq> 0x7F) \<or> b = 0x09) s then Some s else None)"

datatype dial_error = NoCertificate | DialClock | KeyRejected | HeaderRejected

definition agent_auth_headers ::
    "crypto \<Rightarrow> pki \<Rightarrow> bytes list \<Rightarrow> bytes \<Rightarrow> bytes \<Rightarrow> u64 option \<Rightarrow> bytes \<Rightarrow> dial_error + bytes \<times> bytes" where
  "agent_auth_headers cr pk cert_chain key_pkcs8 host clock nonce =
     bindE (ok_orE (case cert_chain of leaf # _ \<Rightarrow> Some leaf | [] \<Rightarrow> None) NoCertificate) (\<lambda>leaf.
     let cert_b64 = b64u_encode cr leaf; nonce_b64 = b64u_encode cr nonce in
     bindE (ok_orE clock DialClock) (\<lambda>now.
     let payload = ws_auth_payload cr host now nonce in
     bindE (ok_orE (p256_sign pk key_pkcs8 payload) KeyRejected) (\<lambda>sig.
     let sig_b64 = b64u_encode cr sig;
         auth_value = dec_of_nat (unat now) @ [0x2E] @ nonce_b64 @ [0x2E] @ sig_b64 in
     bindE (ok_orE (header_value cert_b64) HeaderRejected) (\<lambda>cert_header.
     bindE (ok_orE (header_value auth_value) HeaderRejected) (\<lambda>auth_header. Inr (cert_header, auth_header))))))"

text \<open>
  The perimeter token. \<open>UNIX_EPOCH + Duration\<close> panics when the sum is past the last time the platform
  represents, \<open>2 ^ 63\<close> seconds on Unix.
\<close>

definition TOKEN_REFRESH_MARGIN :: nanos where "TOKEN_REFRESH_MARGIN = secs 60"

definition as_u64 :: "json \<Rightarrow> u64 option" where
  "as_u64 j = (case j of JNumber s \<Rightarrow> parse_u64 s | _ \<Rightarrow> None)"

definition json_get :: "json \<Rightarrow> bytes \<Rightarrow> json option" where
  "json_get j k = (case j of JObject members \<Rightarrow> map_of (rev members) k | _ \<Rightarrow> None)"

definition jwt_exp :: "crypto \<Rightarrow> bytes \<Rightarrow> unit fail + nanos option" where
  "jwt_exp cr token =
     (case split_on 0x2E token of
        [_, payload, _] \<Rightarrow>
          (case Option.bind (Option.bind (Option.bind (b64u_decode cr payload) (json_parse cr))
                  (\<lambda>v. json_get v (bstr ''exp''))) as_u64 of
             None \<Rightarrow> Inr None
           | Some exp \<Rightarrow> if unat exp \<ge> 2 ^ 63 then Inl Panic else Inr (Some (secs (unat exp))))
      | _ \<Rightarrow> Inr None)"

record cached_token =
  ct_raw :: bytes
  ct_expires_at :: nanos

text \<open>The token file as \<open>read_to_string\<close> finds it, \<open>None\<close> when the read fails.\<close>

definition read_token ::
    "crypto \<Rightarrow> bytes option \<Rightarrow> cached_token option \<Rightarrow> (unit fail + bytes) \<times> cached_token option" where
  "read_token cr file cache =
     (case file of
        None \<Rightarrow> (Inl (Err ()), cache)
      | Some contents \<Rightarrow>
          (let raw = str_trim contents in
           case jwt_exp cr raw of
             Inl e \<Rightarrow> (Inl e, cache)
           | Inr exp \<Rightarrow> (Inr raw, map_option (\<lambda>expires_at. \<lparr>ct_raw = raw, ct_expires_at = expires_at\<rparr>) exp)))"

definition current_token ::
    "crypto \<Rightarrow> nanos \<Rightarrow> bytes option \<Rightarrow> cached_token option \<Rightarrow> (unit fail + bytes) \<times> cached_token option" where
  "current_token cr now file cache =
     (case cache of
        Some c \<Rightarrow> if ct_expires_at c > now + TOKEN_REFRESH_MARGIN then (Inr (ct_raw c), cache) else read_token cr file cache
      | None \<Rightarrow> read_token cr file cache)"

text \<open>\<open>tunnel_auth_header\<close>: no header without a file or with an empty token.\<close>

definition tunnel_auth_header ::
    "crypto \<Rightarrow> nanos \<Rightarrow> (bytes \<Rightarrow> bool) \<Rightarrow> bytes \<Rightarrow> bytes \<Rightarrow> bytes option option \<Rightarrow> cached_token option
       \<Rightarrow> (unit fail + (bytes \<times> bytes) option) \<times> cached_token option" where
  "tunnel_auth_header cr now header_name header scheme file cache =
     (case file of
        None \<Rightarrow> (Inr None, cache)
      | Some contents \<Rightarrow>
          (let (tok, cache) = current_token cr now contents cache in
           (bindE tok (\<lambda>token.
              if token = [] then Inr None
              else let v = (if scheme = [] then token else scheme @ [0x20] @ token) in
              if \<not> header_name header then Inl (Err ())
              else bindE (ok_orE (header_value v) (Err ())) (\<lambda>v. Inr (Some (header, v)))), cache)))"

section \<open>Reading and writing the header\<close>

lemma dec_value_snoc [simp]: "dec_value (ds @ [d]) = dec_value ds * 10 + unat (d - 0x30)" "dec_value [] = 0"
  by (simp_all add: dec_value_def)

lemma digit_of: "k < 10 \<Longrightarrow> unat (word_of_nat (48 + k) - 0x30 :: u8) = k" "k < 10 \<Longrightarrow> is_digit (word_of_nat (48 + k))"
proof -
  assume k: "k < 10"
  then have u: "unat (word_of_nat (48 + k) :: u8) = 48 + k" by (simp add: unat_of_nat del: of_nat_add)
  have "unat (word_of_nat (48 + k) - 0x30 :: u8) = unat (word_of_nat (48 + k) :: u8) - 48"
    using u by (subst unat_sub) (simp_all add: word_le_nat_alt)
  with u show "unat (word_of_nat (48 + k) - 0x30 :: u8) = k" by simp
  show "is_digit (word_of_nat (48 + k))" using u k by (simp add: is_digit_def word_le_nat_alt)
qed

lemma dec_of_nat_digits: "list_all is_digit (dec_of_nat n)" "dec_value (dec_of_nat n) = n" "dec_of_nat n \<noteq> []"
proof (induction n rule: dec_of_nat.induct)
  case (1 n)
  { case 1
    then show ?case using "1.IH"(1) digit_of(2) [of "n mod 10"] digit_of(2) [of n] by (subst dec_of_nat.simps) (simp del: of_nat_add)
  next
    case 2
    have "dec_value [word_of_nat (48 + n)] = n" if "n < 10"
      using dec_value_snoc(1) [of "[]" "word_of_nat (48 + n)"] digit_of(1) [OF that] by (simp del: of_nat_add)
    then show ?case using "1.IH"(2) digit_of(1) [of "n mod 10"] by (subst dec_of_nat.simps) (simp del: of_nat_add)
  next
    case 3
    then show ?case by (subst dec_of_nat.simps) simp
  }
qed

lemma digit_not: "is_digit b \<Longrightarrow> b \<noteq> 0x2B \<and> b \<noteq> 0x2E \<and> 0x21 \<le> b \<and> b < 0x7F"
  by (auto simp: is_digit_def word_le_nat_alt word_less_nat_alt)

lemma parse_u64_dec [simp]: "parse_u64 (dec_of_nat (unat x)) = Some x"
proof -
  obtain d ds where d: "dec_of_nat (unat x) = d # ds" using dec_of_nat_digits(3) by (cases "dec_of_nat (unat x)") auto
  then have "d \<noteq> 0x2B" using dec_of_nat_digits(1) [of "unat x"] digit_not [of d] by simp
  moreover have "unat x < 2 ^ 64" using unsigned_less [of x] by simp
  ultimately show ?thesis using dec_of_nat_digits [of "unat x"] by (simp add: parse_u64_def Let_def d)
qed

lemma splitn_cut: "c \<notin> set a \<Longrightarrow> splitn (Suc (Suc n)) c (a @ c # s) = a # splitn (Suc n) c s"
proof -
  assume "c \<notin> set a"
  then have "takeWhile (\<lambda>b. b \<noteq> c) (a @ c # s) = a" by (subst takeWhile_append2) auto
  then show ?thesis by (simp add: Let_def)
qed

text \<open>Base64 without padding, as far as the header needs it: letters that are neither blank nor a full stop.\<close>

definition b64_text :: "crypto \<Rightarrow> bool" where
  "b64_text cr \<longleftrightarrow> (\<forall>b. graphic (b64u_encode cr b) \<and> 0x2E \<notin> set (b64u_encode cr b))"

lemma parse_ws_auth_header_written:
  assumes "crypto_laws cr" "b64_text cr" "length nonce = 16"
  shows "parse_ws_auth_header cr (dec_of_nat (unat now) @ [0x2E] @ b64u_encode cr nonce @ [0x2E] @ b64u_encode cr sig) =
    Inr (now, nonce, sig)"
proof -
  have "0x2E \<notin> set (dec_of_nat (unat now))"
    using dec_of_nat_digits(1) [of "unat now"] digit_not by (auto simp: list_all_iff)
  moreover have "0x2E \<notin> set (b64u_encode cr nonce)" using assms(2) by (simp add: b64_text_def)
  ultimately have "splitn 3 0x2E (dec_of_nat (unat now) @ [0x2E] @ b64u_encode cr nonce @ [0x2E] @ b64u_encode cr sig) =
      [dec_of_nat (unat now), b64u_encode cr nonce, b64u_encode cr sig]"
    by (simp add: numeral_3_eq_3 splitn_cut del: splitn.simps(3))
  with assms(1,3) show ?thesis by (simp add: parse_ws_auth_header_def crypto_laws_def WS_AUTH_NONCE_LEN_def)
qed

section \<open>Certificates\<close>

definition urns :: "general_name list \<Rightarrow> bytes list" where
  "urns names = List.map_filter (\<lambda>n. case n of GnUri uri \<Rightarrow> strip_prefix MACHINE_URN_PREFIX uri | GnOther \<Rightarrow> None) names"

lemma urns_simps [simp]:
  "urns [] = []" "urns (GnOther # names) = urns names"
  "urns (GnUri uri # names) = (case strip_prefix MACHINE_URN_PREFIX uri of None \<Rightarrow> urns names | Some i \<Rightarrow> i # urns names)"
  by (simp_all add: urns_def List.map_filter_simps del: strip_prefix_iff split: option.splits)

lemma san_loop_iff:
  "san_loop names found = Inr r \<longleftrightarrow>
     (case found of Some i \<Rightarrow> r = Some i \<and> urns names = [] | None \<Rightarrow> (case r of None \<Rightarrow> urns names = [] | Some i \<Rightarrow> urns names = [i]))"
  by (induction names found rule: san_loop.induct) (auto simp del: strip_prefix_iff split: option.splits)

text \<open>The identity a certificate carries: its one URN, which is a valid machine id.\<close>

definition cert_identity :: "pki \<Rightarrow> bytes \<Rightarrow> bytes \<Rightarrow> bool" where
  "cert_identity pk cert_der i \<longleftrightarrow>
     (\<exists>cert names. x509_parse pk cert_der = Some cert \<and> xc_san cert = Some (Some names) \<and> urns names = [i]) \<and>
     validate_machine_id i = Inr ()"

lemma extract_machine_id_iff: "extract_machine_id_from_san pk cert_der = Inr i \<longleftrightarrow> cert_identity pk cert_der i"
  by (auto simp: extract_machine_id_from_san_def cert_identity_def result_simps san_loop_iff ok_orE_def split: option.splits)

text \<open>A signature of the certificate's P-256 key.\<close>

definition signed_by_cert :: "crypto \<Rightarrow> pki \<Rightarrow> bytes \<Rightarrow> bytes \<Rightarrow> bytes \<Rightarrow> bool" where
  "signed_by_cert cr pk cert_der payload sig \<longleftrightarrow>
     (\<exists>cert sig'. x509_parse pk cert_der = Some cert \<and> xc_algorithm cert = bstr ''1.2.840.10045.2.1'' \<and>
        xc_parameters cert = Some [0x2A, 0x86, 0x48, 0xCE, 0x3D, 0x03, 0x01, 0x07] \<and>
        length (xc_key cert) = 65 \<and> hd (xc_key cert) = 0x04 \<and> sec1_valid cr (xc_key cert) \<and>
        fixed_signature pk sig = Some sig' \<and> p256_verify cr (xc_key cert) payload sig')"

lemma verify_p256_iff: "verify_p256_signature cr pk cert_der payload sig = Inr () \<longleftrightarrow> signed_by_cert cr pk cert_der payload sig"
  by (auto simp: verify_p256_signature_def extract_spki_uncompressed_p256_def signed_by_cert_def result_simps
      Let_def ok_orE_def split: option.splits if_splits)

section \<open>Accepted requests\<close>

lemma check_timestamp_iff: "check_ws_auth_timestamp now ts = Inr () \<longleftrightarrow> \<bar>uint now - uint ts\<bar> \<le> 300"
proof (cases "ts < now")
  case True
  then have "uint (now - ts) = uint now - uint ts" by (simp add: uint_sub_if' word_less_def)
  with True show ?thesis
    by (simp add: check_ws_auth_timestamp_def abs_diff_def Let_def WS_AUTH_SKEW_SECS_def word_less_def) arith
next
  case False
  then have "uint (ts - now) = uint ts - uint now" by (simp add: uint_sub_if' word_less_def)
  with False show ?thesis
    by (simp add: check_ws_auth_timestamp_def abs_diff_def Let_def WS_AUTH_SKEW_SECS_def word_less_def) arith
qed

text \<open>
  A request that proves the identity of \<open>entry\<close>: its certificate is issued, chains to the agents' CA
  and names the entry's machine, and the time stamp, fresh now, and the nonce are signed by its key for
  the host the request was sent to.
\<close>

definition good_ws_auth ::
    "crypto \<Rightarrow> pki \<Rightarrow> issued_cert_store \<Rightarrow> ws_clock \<Rightarrow> headers \<Rightarrow> bytes \<Rightarrow> issued_cert_entry \<Rightarrow> u64 \<Rightarrow> bytes \<Rightarrow> bool" where
  "good_ws_auth cr pk issued_certs clock hs cert_der entry ts nonce \<longleftrightarrow>
     (\<exists>cert_text auth_text host now chain_now sig.
        Option.bind (header_get hs ''x-agent-cert'') to_str = Some cert_text \<and> length (str_trim cert_text) \<le> 8192 \<and>
        Option.bind (header_get hs ''x-agent-auth'') to_str = Some auth_text \<and> length (str_trim auth_text) \<le> 512 \<and>
        decode_cert_header cr (str_trim cert_text) = Some cert_der \<and>
        wc_chain clock = Some chain_now \<and> webpki_chain pk cert_der chain_now \<and>
        find_by_fingerprint issued_certs (cert_fingerprint cr cert_der) = Some entry \<and>
        cert_identity pk cert_der (ce_machine_id entry) \<and>
        parse_ws_auth_header cr (str_trim auth_text) = Inr (ts, nonce, sig) \<and>
        wc_now clock = Some now \<and> \<bar>uint now - uint ts\<bar> \<le> 300 \<and>
        Option.bind (header_get hs ''host'') to_str = Some host \<and>
        signed_by_cert cr pk cert_der (ws_auth_payload cr host ts nonce) sig)"

lemma header_text_iff: "header_text hs name e e' = Inr v \<longleftrightarrow> Option.bind (header_get hs name) to_str = Some v"
  by (auto simp: header_text_def result_simps ok_orE_def split: option.splits)

lemma ws_auth_cert_iff:
  "ws_auth_cert cr pk issued_certs clock hs = Inr (cert_der, fp, entry, auth_header) \<longleftrightarrow>
     (\<exists>cert_text auth_text chain_now.
        Option.bind (header_get hs ''x-agent-cert'') to_str = Some cert_text \<and> length (str_trim cert_text) \<le> 8192 \<and>
        Option.bind (header_get hs ''x-agent-auth'') to_str = Some auth_text \<and> length (str_trim auth_text) \<le> 512 \<and>
        decode_cert_header cr (str_trim cert_text) = Some cert_der \<and>
        wc_chain clock = Some chain_now \<and> webpki_chain pk cert_der chain_now \<and>
        find_by_fingerprint issued_certs fp = Some entry \<and> cert_identity pk cert_der (ce_machine_id entry) \<and>
        fp = cert_fingerprint cr cert_der \<and> auth_header = str_trim auth_text)"
  unfolding ws_auth_cert_def bindE_Inr_iff header_text_iff Let_def
  by (auto simp: header_text_iff result_simps extract_machine_id_iff verify_chain_to_agent_ca_def linorder_not_less
      MAX_AGENT_CERT_HEADER_BYTES_def MAX_AGENT_AUTH_HEADER_BYTES_def ok_orE_def split: option.splits if_splits)

lemma ws_auth_assertion_iff:
  "ws_auth_assertion cr pk clock hs cert_der auth_header = Inr nonce \<longleftrightarrow>
     (\<exists>ts sig now host. parse_ws_auth_header cr auth_header = Inr (ts, nonce, sig) \<and> wc_now clock = Some now \<and>
        \<bar>uint now - uint ts\<bar> \<le> 300 \<and> Option.bind (header_get hs ''host'') to_str = Some host \<and>
        signed_by_cert cr pk cert_der (ws_auth_payload cr host ts nonce) sig)"
  by (auto simp: ws_auth_assertion_def result_simps check_timestamp_iff verify_p256_iff ok_orE_def split: option.splits)

lemma authenticate_cases:
  assumes "authenticate_ws_upgrade cr pk issued_certs clock hs cache = (res, cache')"
  obtains (refused) e where "res = Inl e" "cache' = cache"
  | (accepted) cert_der entry ts nonce where "good_ws_auth cr pk issued_certs clock hs cert_der entry ts nonce"
      "hm_get cache (cert_fingerprint cr cert_der, nonce) = None" "res = Inr (ce_machine_id entry)"
      "cache' = hm_insert (cert_fingerprint cr cert_der, nonce) (wc_instant clock) cache"
proof (cases res)
  case (Inl e)
  with assms show ?thesis by (intro refused) (auto simp: authenticate_ws_upgrade_def split: sum.splits prod.splits if_splits)
next
  case (Inr i)
  with assms obtain cert_der fp entry auth nonce where
    c: "ws_auth_cert cr pk issued_certs clock hs = Inr (cert_der, fp, entry, auth)"
    and a: "ws_auth_assertion cr pk clock hs cert_der auth = Inr nonce"
    and r: "hm_get cache (fp, nonce) = None" "i = ce_machine_id entry" "cache' = hm_insert (fp, nonce) (wc_instant clock) cache"
    by (auto simp: authenticate_ws_upgrade_def result_simps split: sum.splits prod.splits if_splits)
  have "\<exists>ts. good_ws_auth cr pk issued_certs clock hs cert_der entry ts nonce"
    using c a unfolding ws_auth_cert_iff ws_auth_assertion_iff good_ws_auth_def by blast
  moreover have "fp = cert_fingerprint cr cert_der" using c by (auto simp: ws_auth_cert_iff)
  ultimately show ?thesis using r Inr accepted by auto
qed

lemma authenticate_good:
  assumes "good_ws_auth cr pk issued_certs clock hs cert_der entry ts nonce"
  shows "authenticate_ws_upgrade cr pk issued_certs clock hs cache =
    (if hm_get cache (cert_fingerprint cr cert_der, nonce) \<noteq> None then (Inl Replayed, cache)
     else (Inr (ce_machine_id entry), hm_insert (cert_fingerprint cr cert_der, nonce) (wc_instant clock) cache))"
proof -
  from assms obtain auth where "ws_auth_cert cr pk issued_certs clock hs = Inr (cert_der, cert_fingerprint cr cert_der, entry, auth)"
    "ws_auth_assertion cr pk clock hs cert_der auth = Inr nonce"
    unfolding good_ws_auth_def ws_auth_cert_iff ws_auth_assertion_iff by blast
  then show ?thesis by (simp add: authenticate_ws_upgrade_def)
qed

section \<open>Runs with the replay cache\<close>

text \<open>
  Upgrades and collections in the order in which they take the cache's lock. The two clocks run in step,
  \<open>off\<close> apart; a request reads the Unix time at some moment \<open>u\<close> before it takes the lock at \<open>t\<close>. The issued
  certificates may be reloaded at any time.
\<close>

definition unix_secs :: "nanos \<Rightarrow> nanos \<Rightarrow> u64" where
  "unix_secs off t = word_of_nat ((off + t) div 1000000000)"

definition clock_at :: "nanos \<Rightarrow> nanos \<Rightarrow> nanos \<Rightarrow> ws_clock" where
  "clock_at off u t = \<lparr>wc_chain = Some (unix_secs off u), wc_now = Some (unix_secs off u), wc_instant = t\<rparr>"

datatype ws_event = Upgrade nanos nanos issued_cert_store headers "ws_auth_error + bytes" | ReplayGc nanos

inductive ws_run :: "crypto \<Rightarrow> pki \<Rightarrow> nanos \<Rightarrow> nanos \<Rightarrow> ws_event list \<Rightarrow> nanos \<Rightarrow> replay_cache \<Rightarrow> bool"
  for cr pk off t0 where
  ws_start: "ws_run cr pk off t0 [] t0 []"
| ws_upgrade: "ws_run cr pk off t0 log now cache \<Longrightarrow> now \<le> t \<Longrightarrow> u \<le> t \<Longrightarrow>
    authenticate_ws_upgrade cr pk store (clock_at off u t) hs cache = (res, cache') \<Longrightarrow>
    ws_run cr pk off t0 (log @ [Upgrade u t store hs res]) t cache'"
| ws_collect: "ws_run cr pk off t0 log now cache \<Longrightarrow> now \<le> t \<Longrightarrow>
    ws_run cr pk off t0 (log @ [ReplayGc t]) t (gc_ws_replay t cache)"

text \<open>The assertion an event accepted: which key of the cache it used, with which time stamp, and when.\<close>

definition accepted_as :: "crypto \<Rightarrow> pki \<Rightarrow> nanos \<Rightarrow> ws_event \<Rightarrow> bytes \<times> bytes \<Rightarrow> u64 \<Rightarrow> nanos \<Rightarrow> nanos \<Rightarrow> bool" where
  "accepted_as cr pk off e key ts u t \<longleftrightarrow>
     (\<exists>store hs i cert_der entry. e = Upgrade u t store hs (Inr i) \<and> fst key = cert_fingerprint cr cert_der \<and>
        good_ws_auth cr pk store (clock_at off u t) hs cert_der entry ts (snd key))"

definition remembered :: "replay_cache \<Rightarrow> nanos \<Rightarrow> nanos \<Rightarrow> bytes \<times> bytes \<Rightarrow> bool" where
  "remembered cache now t key \<longleftrightarrow> (now \<le> t + secs 600 \<longrightarrow> (\<exists>t'. hm_get cache key = Some t' \<and> t \<le> t'))"

lemma hm_get_filter: "hm_get m k = Some v \<Longrightarrow> P (k, v) \<Longrightarrow> hm_get (filter P m) k = Some v"
  by (induction m) (auto split: if_splits)

lemma remembered_gc:
  assumes "remembered cache now t key" "now \<le> g" "secs 600 \<le> g"
  shows "remembered (gc_ws_replay g cache) g t key"
  unfolding remembered_def
proof
  assume g: "g \<le> t + secs 600"
  then obtain t' where t': "hm_get cache key = Some t'" "t \<le> t'" using assms(1,2) by (auto simp: remembered_def)
  then have "g - secs 600 \<le> t'" using g by simp
  then have "hm_get (gc_ws_replay g cache) key = Some t'"
    using hm_get_filter [OF t'(1), of "\<lambda>(_, t). t \<ge> g - secs 600"] assms(3)
    by (simp add: gc_ws_replay_def checked_sub_nanos_def WS_REPLAY_TTL_SECS_def WS_AUTH_SKEW_SECS_def)
  with t'(2) show "\<exists>t'. hm_get (gc_ws_replay g cache) key = Some t' \<and> t \<le> t'" by blast
qed

lemma remembered_upgrade:
  assumes "authenticate_ws_upgrade cr pk store (clock_at off u t2) hs cache = (res, cache')"
    and "remembered cache now t key" "now \<le> t2" "t \<le> now"
  shows "remembered cache' t2 t key"
  using assms(1)
proof (cases rule: authenticate_cases)
  case (refused e)
  with assms(2,3) show ?thesis by (auto simp: remembered_def)
next
  case (accepted cert_der entry ts nonce)
  with assms(2-4) show ?thesis by (auto simp: remembered_def clock_at_def)
qed

lemma accepted_new:
  assumes "authenticate_ws_upgrade cr pk store (clock_at off u t) hs cache = (res, cache')"
    and "accepted_as cr pk off (Upgrade u t store hs res) key ts u' t'"
  shows "hm_get cache key = None" "hm_get cache' key = Some t" "u' = u" "t' = t"
proof -
  from assms(2) obtain i cert_der entry where g: "res = Inr i" "fst key = cert_fingerprint cr cert_der" "u' = u" "t' = t"
    "good_ws_auth cr pk store (clock_at off u t) hs cert_der entry ts (snd key)" by (auto simp: accepted_as_def)
  have k: "key = (cert_fingerprint cr cert_der, snd key)" using g(2) by (cases key) simp
  show "hm_get cache key = None" "hm_get cache' key = Some t"
    using assms(1) authenticate_good [OF g(5), of cache] g(1) k by (auto simp: clock_at_def split: if_splits)
  show "u' = u" "t' = t" by fact+
qed

definition no_replay :: "crypto \<Rightarrow> pki \<Rightarrow> nanos \<Rightarrow> ws_event \<Rightarrow> ws_event \<Rightarrow> bool" where
  "no_replay cr pk off e1 e2 \<longleftrightarrow>
     (\<forall>key ts1 u1 t1 ts2 u2 t2. accepted_as cr pk off e1 key ts1 u1 t1 \<and> accepted_as cr pk off e2 key ts2 u2 t2 \<longrightarrow>
        t1 + secs 600 < t2)"

definition kept :: "crypto \<Rightarrow> pki \<Rightarrow> nanos \<Rightarrow> ws_event list \<Rightarrow> nanos \<Rightarrow> replay_cache \<Rightarrow> bool" where
  "kept cr pk off log now cache \<longleftrightarrow>
     (\<forall>e key ts u t. e \<in> set log \<longrightarrow> accepted_as cr pk off e key ts u t \<longrightarrow> t \<le> now \<and> remembered cache now t key)"

lemma keptI:
  "(\<And>e key ts u t. e \<in> set log \<Longrightarrow> accepted_as cr pk off e key ts u t \<Longrightarrow> t \<le> now \<and> remembered cache now t key) \<Longrightarrow>
     kept cr pk off log now cache"
  unfolding kept_def by blast

lemma keptD:
  "kept cr pk off log now cache \<Longrightarrow> e \<in> set log \<Longrightarrow> accepted_as cr pk off e key ts u t \<Longrightarrow> t \<le> now \<and> remembered cache now t key"
  unfolding kept_def by blast

lemma kept_upgrade:
  assumes "kept cr pk off log now cache" "now \<le> t"
    and "authenticate_ws_upgrade cr pk store (clock_at off u t) hs cache = (res, cache')"
  shows "kept cr pk off (log @ [Upgrade u t store hs res]) t cache'"
    and "e \<in> set log \<Longrightarrow> no_replay cr pk off e (Upgrade u t store hs res)"
proof -
  let ?e = "Upgrade u t store hs res"
  show "kept cr pk off (log @ [?e]) t cache'"
  proof (rule keptI)
    fix e key ts u1 t1
    assume e: "e \<in> set (log @ [?e])" and a: "accepted_as cr pk off e key ts u1 t1"
    show "t1 \<le> t \<and> remembered cache' t t1 key"
    proof (cases "e \<in> set log")
      case True
      from keptD [OF assms(1) this a] remembered_upgrade [OF assms(3), of now t1 key] assms(2) show ?thesis by auto
    next
      case False
      with e a have "accepted_as cr pk off ?e key ts u1 t1" by simp
      from accepted_new [OF assms(3) this] show ?thesis by (simp add: remembered_def)
    qed
  qed
  show "no_replay cr pk off e ?e" if e: "e \<in> set log"
    unfolding no_replay_def
  proof (intro allI impI)
    fix key ts1 u1 t1 ts2 u2 t2
    assume a: "accepted_as cr pk off e key ts1 u1 t1 \<and> accepted_as cr pk off ?e key ts2 u2 t2"
    note new = accepted_new [OF assms(3) a [THEN conjunct2]]
    from keptD [OF assms(1) e a [THEN conjunct1]] new(1) have "t1 + secs 600 < now"
      by (auto simp: remembered_def not_le [symmetric])
    with new(4) assms(2) show "t1 + secs 600 < t2" by simp
  qed
qed

lemma ws_run_inv:
  assumes "ws_run cr pk off t0 log now cache" "secs 600 \<le> t0"
  shows "t0 \<le> now \<and> sorted_wrt (no_replay cr pk off) log \<and> kept cr pk off log now cache"
  using assms(1)
proof (induction rule: ws_run.induct)
  case ws_start
  show ?case by (simp add: kept_def)
next
  case (ws_upgrade log now cache t u store hs res cache')
  with kept_upgrade [OF _ ws_upgrade(2,4)] show ?case by (auto simp: sorted_wrt_append)
next
  case (ws_collect log now cache t)
  then have g: "secs 600 \<le> t" and k: "kept cr pk off log now cache" using assms(2) by auto
  have none: "\<not> accepted_as cr pk off (ReplayGc t) key ts u t'" for key ts u t' by (simp add: accepted_as_def)
  have "kept cr pk off (log @ [ReplayGc t]) t (gc_ws_replay t cache)"
  proof (rule keptI)
    fix e key ts u t1
    assume e: "e \<in> set (log @ [ReplayGc t])" and a: "accepted_as cr pk off e key ts u t1"
    with none [of key ts u t1] have "e \<in> set log" by auto
    from keptD [OF k this a] remembered_gc [of cache now t1 key t] g ws_collect(2)
    show "t1 \<le> t \<and> remembered (gc_ws_replay t cache) t t1 key" by auto
  qed
  with ws_collect none show ?case by (auto simp: sorted_wrt_append no_replay_def)
qed

section \<open>What the two sides agree on\<close>

lemma newline_free: "graphic s \<Longrightarrow> 0x0A \<notin> set s" "0x0A \<notin> set (dec_of_nat n)"
  using dec_of_nat_digits(1) [of n] by (auto simp: graphic_def list_all_iff is_digit_def word_le_nat_alt)

lemma last_field: "x \<notin> set b \<Longrightarrow> x \<notin> set d \<Longrightarrow> a @ [x] @ b = c @ [x] @ d \<longleftrightarrow> a = c \<and> b = d"
proof
  assume x: "x \<notin> set b" "x \<notin> set d" and e: "a @ [x] @ b = c @ [x] @ d"
  have "rev b @ x # rev a = rev d @ x # rev c" using arg_cong [OF e, of rev] by simp
  then have "takeWhile (\<lambda>y. y \<noteq> x) (rev b @ x # rev a) = takeWhile (\<lambda>y. y \<noteq> x) (rev d @ x # rev c)" by simp
  with x have "rev b = rev d" by (subst (asm) (1 2) takeWhile_append2) auto
  with e show "a = c \<and> b = d" by auto
qed auto

text \<open>The signed bytes determine the host, the time stamp and the nonce.\<close>

lemma ws_auth_payload_inject:
  assumes "crypto_laws cr" "b64_text cr"
  shows "ws_auth_payload cr host ts nonce = ws_auth_payload cr host' ts' nonce' \<longleftrightarrow> host = host' \<and> ts = ts' \<and> nonce = nonce'"
proof -
  have b64: "0x0A \<notin> set (b64u_encode cr n)" for n using assms(2) newline_free(1) by (simp add: b64_text_def)
  have b64i: "b64u_encode cr n = b64u_encode cr n' \<longleftrightarrow> n = n'" for n n'
    using assms(1) by (metis crypto_laws_def option.inject)
  have dec: "dec_of_nat (unat ts) = dec_of_nat (unat ts') \<longleftrightarrow> ts = ts'" by (metis parse_u64_dec option.inject)
  let ?h = "\<lambda>h. WS_AUTH_DOMAIN @ [0x0A] @ h"
  have p: "ws_auth_payload cr h t n = (?h h @ [0x0A] @ dec_of_nat (unat t)) @ [0x0A] @ b64u_encode cr n" for h t n
    by (simp add: ws_auth_payload_def)
  show ?thesis
    unfolding p last_field [OF b64 b64] last_field [OF newline_free(2) newline_free(2)] b64i dec by simp
qed

lemma agent_headers_good:
  assumes "crypto_laws cr" "b64_text cr" "length nonce = 16" "p256_sign pk key (ws_auth_payload cr host now nonce) = Some sig"
    and "signed_by_cert cr pk leaf (ws_auth_payload cr host now nonce) sig"
    and "length (b64u_encode cr leaf) \<le> 8192"
    and "length (dec_of_nat (unat now)) + length (b64u_encode cr nonce) + length (b64u_encode cr sig) \<le> 510"
    and "to_str host = Some host" "wc_chain clock = Some chain_now" "webpki_chain pk leaf chain_now"
    and "find_by_fingerprint store (cert_fingerprint cr leaf) = Some entry" "cert_identity pk leaf (ce_machine_id entry)"
    and "wc_now clock = Some hub_now" "\<bar>uint hub_now - uint now\<bar> \<le> 300"
  shows "agent_auth_headers cr pk (leaf # rest) key host (Some now) nonce =
      Inr (b64u_encode cr leaf, dec_of_nat (unat now) @ [0x2E] @ b64u_encode cr nonce @ [0x2E] @ b64u_encode cr sig)"
    and "good_ws_auth cr pk store clock
      [(bstr ''host'', host), (bstr ''x-agent-cert'', b64u_encode cr leaf),
       (bstr ''x-agent-auth'', dec_of_nat (unat now) @ [0x2E] @ b64u_encode cr nonce @ [0x2E] @ b64u_encode cr sig)]
      leaf entry now nonce"
proof -
  let ?cert = "b64u_encode cr leaf"
  let ?auth = "dec_of_nat (unat now) @ [0x2E] @ b64u_encode cr nonce @ [0x2E] @ b64u_encode cr sig"
  let ?hs = "[(bstr ''host'', host), (bstr ''x-agent-cert'', ?cert), (bstr ''x-agent-auth'', ?auth)]"
  have dig: "graphic (dec_of_nat n)" for n
    using dec_of_nat_digits(1) [of n] digit_not by (auto simp: graphic_def list_all_iff)
  have g: "graphic ?cert" "graphic ?auth"
    using assms(2) dig by (simp_all add: b64_text_def graphic_def word_le_nat_alt word_less_nat_alt)
  have hv: "header_value s = Some s" "to_str s = Some s" if "graphic s" for s
    using that by (auto simp: header_value_def to_str_def graphic_def list_all_iff word_le_nat_alt word_less_nat_alt)
  show "agent_auth_headers cr pk (leaf # rest) key host (Some now) nonce = Inr (?cert, ?auth)"
    using hv [OF g(1)] hv [OF g(2)] assms(4) by (simp add: agent_auth_headers_def Let_def)
  show "good_ws_auth cr pk store clock ?hs leaf entry now nonce"
    unfolding good_ws_auth_def
    using assms hv [OF g(1)] hv [OF g(2)] str_trim_graphic [OF g(1)] str_trim_graphic [OF g(2)]
      parse_ws_auth_header_written [OF assms(1-3)]
    by (simp add: header_get_def bstr_def decode_cert_header_def crypto_laws_def)
qed

section \<open>An example\<close>

definition agent_crypto :: crypto where
  "agent_crypto = demo_crypto\<lparr>b64u_encode := letters, b64u_decode := (\<lambda>b. Some (unletters b))\<rparr>"

definition agent_pki :: pki where
  "agent_pki =
     \<lparr>x509_parse = (\<lambda>_. Some \<lparr>xc_san = Some (Some [GnOther, GnUri (machine_urn (bstr ''alpha''))]),
        xc_algorithm = bstr ''1.2.840.10045.2.1'', xc_parameters = Some [0x2A, 0x86, 0x48, 0xCE, 0x3D, 0x03, 0x01, 0x07],
        xc_key = 4 # replicate 64 0\<rparr>),
      webpki_chain = (\<lambda>_ _. True), rustls_chain = (\<lambda>_ _ _. True), fixed_signature = Some,
      p256_sign = (\<lambda>_ m. Some (0 # m))\<rparr>"

definition agent_leaf :: bytes where "agent_leaf = [1, 2, 3]"
definition agent_nonce :: bytes where "agent_nonce = replicate 16 5"

definition agent_entry :: issued_cert_entry where
  "agent_entry = \<lparr>ce_machine_id = bstr ''alpha'', ce_fingerprint = cert_fingerprint agent_crypto agent_leaf,
     ce_serial_hex = bstr ''01'', ce_issued_at = [], ce_not_after_unix = 0, ce_label = None\<rparr>"

definition agent_store :: issued_cert_store where "agent_store = \<lparr>certs = [agent_entry]\<rparr>"

definition agent_sig :: bytes where
  "agent_sig = 0 # ws_auth_payload agent_crypto (bstr ''h'') 1300 agent_nonce"

definition agent_request :: headers where
  "agent_request = [(bstr ''host'', bstr ''h''), (bstr ''x-agent-cert'', letters agent_leaf),
     (bstr ''x-agent-auth'', dec_of_nat 1300 @ [0x2E] @ letters agent_nonce @ [0x2E] @ letters agent_sig)]"

lemma agent_crypto_laws: "crypto_laws agent_crypto" "b64_text agent_crypto"
proof -
  show "crypto_laws agent_crypto" using demo_crypto_laws by (simp add: crypto_laws_def agent_crypto_def)
  have "(0x2E :: u8) \<notin> set (letters b)" for b
    using letter_range [of "0x2E" b] by (auto simp: word_le_nat_alt word_less_nat_alt)
  then show "b64_text agent_crypto" using graphic_letters by (simp add: b64_text_def agent_crypto_def)
qed

lemma strip_prefix_append [simp]: "strip_prefix pre (pre @ t) = Some t"
  by simp

lemma agent_identity: "cert_identity agent_pki agent_leaf (bstr ''alpha'')"
  by (simp add: cert_identity_def agent_pki_def machine_urn_def validate_machine_id_def del: strip_prefix_iff)
    (simp add: bstr_def is_ascii_alphanumeric_def)

lemma agent_signed: "signed_by_cert agent_crypto agent_pki agent_leaf (ws_auth_payload agent_crypto (bstr ''h'') 1300 agent_nonce) agent_sig"
  by (simp add: signed_by_cert_def agent_pki_def agent_crypto_def demo_crypto_def agent_sig_def)

lemma agent_sizes: "dec_of_nat 1300 = [0x31, 0x33, 0x30, 0x30]" "length (letters b) = 2 * length b" "length agent_sig = 59"
proof -
  show d: "dec_of_nat 1300 = [0x31, 0x33, 0x30, 0x30]" by (simp add: dec_of_nat.simps)
  show "length (letters b) = 2 * length b" for b by (induction b) (simp_all add: letters_def)
  then show "length agent_sig = 59"
    by (simp add: agent_sig_def ws_auth_payload_def WS_AUTH_DOMAIN_def bstr_def d agent_crypto_def agent_nonce_def)
qed

lemma agent_request_good:
  assumes "\<bar>uint (unix_secs 0 u) - 1300\<bar> \<le> 300"
  shows "good_ws_auth agent_crypto agent_pki agent_store (clock_at 0 u t) agent_request agent_leaf agent_entry 1300 agent_nonce"
proof -
  have "good_ws_auth agent_crypto agent_pki agent_store (clock_at 0 u t)
      [(bstr ''host'', bstr ''h''), (bstr ''x-agent-cert'', b64u_encode agent_crypto agent_leaf),
       (bstr ''x-agent-auth'', dec_of_nat (unat (1300 :: u64)) @ [0x2E] @ b64u_encode agent_crypto agent_nonce @ [0x2E] @
          b64u_encode agent_crypto agent_sig)] agent_leaf agent_entry 1300 agent_nonce"
  proof (rule agent_headers_good(2) [OF agent_crypto_laws, where chain_now = "unix_secs 0 u" and hub_now = "unix_secs 0 u"])
    show "p256_sign agent_pki [] (ws_auth_payload agent_crypto (bstr ''h'') 1300 agent_nonce) = Some agent_sig"
      by (simp add: agent_pki_def agent_sig_def)
    show "cert_identity agent_pki agent_leaf (ce_machine_id agent_entry)" using agent_identity by (simp add: agent_entry_def)
    show "find_by_fingerprint agent_store (cert_fingerprint agent_crypto agent_leaf) = Some agent_entry"
      by (simp add: agent_store_def find_by_fingerprint_def agent_entry_def)
    show "to_str (bstr ''h'') = Some (bstr ''h'')" by (simp add: to_str_def bstr_def)
    show "webpki_chain agent_pki agent_leaf (unix_secs 0 u)" by (simp add: agent_pki_def)
    show "length (b64u_encode agent_crypto agent_leaf) \<le> 8192" by (simp add: agent_crypto_def agent_leaf_def agent_sizes)
    show "length (dec_of_nat (unat (1300 :: u64))) + length (b64u_encode agent_crypto agent_nonce) +
        length (b64u_encode agent_crypto agent_sig) \<le> 510" by (simp add: agent_crypto_def agent_nonce_def agent_sizes)
  qed (use assms agent_signed in \<open>simp_all add: clock_at_def agent_nonce_def\<close>)
  then show ?thesis by (simp add: agent_request_def agent_crypto_def)
qed

section \<open>Properties\<close>

text \<open>
  C15. An agent is admitted behind the perimeter exactly on a request that proves its identity with a
  nonce that is not in the cache, as the machine its issued certificate names; the nonce is then
  remembered. Every other request is refused and leaves the cache alone.
\<close>

theorem agent_ws_auth_spec:
  "(authenticate_ws_upgrade cr pk store clock hs cache = (Inr i, cache') \<longleftrightarrow>
     (\<exists>cert_der entry ts nonce. good_ws_auth cr pk store clock hs cert_der entry ts nonce \<and> i = ce_machine_id entry \<and>
        hm_get cache (cert_fingerprint cr cert_der, nonce) = None \<and>
        cache' = hm_insert (cert_fingerprint cr cert_der, nonce) (wc_instant clock) cache)) \<and>
   ((\<exists>e. authenticate_ws_upgrade cr pk store clock hs cache = (Inl e, cache)) \<or>
    (\<exists>i c. authenticate_ws_upgrade cr pk store clock hs cache = (Inr i, c)))"
proof (intro conjI)
  show "authenticate_ws_upgrade cr pk store clock hs cache = (Inr i, cache') \<longleftrightarrow>
     (\<exists>cert_der entry ts nonce. good_ws_auth cr pk store clock hs cert_der entry ts nonce \<and> i = ce_machine_id entry \<and>
        hm_get cache (cert_fingerprint cr cert_der, nonce) = None \<and>
        cache' = hm_insert (cert_fingerprint cr cert_der, nonce) (wc_instant clock) cache)" (is "?l \<longleftrightarrow> ?r")
  proof
    assume ?l
    then show ?r
    proof (cases rule: authenticate_cases)
      case (accepted cert_der entry ts nonce)
      then show ?thesis by (intro exI conjI) simp_all
    qed simp
  next
    assume ?r
    then show ?l by (auto simp: authenticate_good)
  qed
  obtain res c where r: "authenticate_ws_upgrade cr pk store clock hs cache = (res, c)" by fastforce
  from r show "(\<exists>e. authenticate_ws_upgrade cr pk store clock hs cache = (Inl e, cache)) \<or>
      (\<exists>i c. authenticate_ws_upgrade cr pk store clock hs cache = (Inr i, c))"
    by (cases rule: authenticate_cases) (use r in simp_all)
qed


text \<open>
  The window is one second wider than the memory: an assertion that was five minutes ahead of the hub's
  clock when it was accepted can be accepted again in the second before it is too old, after a collection.
\<close>

definition replay_log :: "ws_event list" where
  "replay_log = [Upgrade (secs 1000) (secs 1000) agent_store agent_request (Inr (bstr ''alpha'')), ReplayGc (secs 1600 + 500),
     Upgrade (secs 1600 + 500) (secs 1600 + 500) agent_store agent_request (Inr (bstr ''alpha''))]"

lemma replay_in_the_gap:
  "\<exists>cache. ws_run agent_crypto agent_pki 0 (secs 600) replay_log (secs 1600 + 500) cache"
proof -
  let ?key = "(cert_fingerprint agent_crypto agent_leaf, agent_nonce)"
  let ?run = "ws_run agent_crypto agent_pki 0 (secs 600)"
  have unix: "unix_secs 0 (secs 1000) = 1000" "unix_secs 0 (secs 1600 + 500) = 1600" by (simp_all add: unix_secs_def secs_def)
  have id: "ce_machine_id agent_entry = bstr ''alpha''" by (simp add: agent_entry_def)
  have auth: "authenticate_ws_upgrade agent_crypto agent_pki agent_store (clock_at 0 u u) agent_request [] =
      (Inr (bstr ''alpha''), [(?key, u)])" if "u \<in> {secs 1000, secs 1600 + 500}" for u
  proof -
    have "\<bar>uint (unix_secs 0 u) - 1300\<bar> \<le> 300" using that unix by auto
    from authenticate_good [OF agent_request_good [OF this], of u "[]"] show ?thesis by (simp add: id clock_at_def)
  qed
  have 1: "?run [Upgrade (secs 1000) (secs 1000) agent_store agent_request (Inr (bstr ''alpha''))] (secs 1000) [(?key, secs 1000)]"
    using ws_upgrade [OF ws_start _ _ auth [of "secs 1000"], of "secs 600"] by (simp add: secs_def)
  have gc: "gc_ws_replay (secs 1600 + 500) [(?key, secs 1000)] = []"
    by (simp add: gc_ws_replay_def checked_sub_nanos_def WS_REPLAY_TTL_SECS_def WS_AUTH_SKEW_SECS_def secs_def)
  have 2: "?run [Upgrade (secs 1000) (secs 1000) agent_store agent_request (Inr (bstr ''alpha'')), ReplayGc (secs 1600 + 500)]
      (secs 1600 + 500) []"
    using ws_collect [OF 1, of "secs 1600 + 500"] unfolding gc by (simp add: secs_def)
  show ?thesis
    using ws_upgrade [OF 2 _ _ auth [of "secs 1600 + 500"]] by (auto simp: replay_log_def)
qed


text \<open>
  What the agent sends is what the hub accepts: the headers an agent makes with the key of its issued
  certificate are admitted as its machine, when the request reaches the host it was signed for within
  five minutes of clock difference and its nonce is new.
\<close>

theorem agent_headers_accepted:
  assumes "crypto_laws cr" "b64_text cr" "length nonce = 16" "p256_sign pk key (ws_auth_payload cr host now nonce) = Some sig"
    and "signed_by_cert cr pk leaf (ws_auth_payload cr host now nonce) sig"
    and "length (b64u_encode cr leaf) \<le> 8192"
    and "length (dec_of_nat (unat now)) + length (b64u_encode cr nonce) + length (b64u_encode cr sig) \<le> 510"
    and "to_str host = Some host" "wc_chain clock = Some chain_now" "webpki_chain pk leaf chain_now"
    and "find_by_fingerprint store (cert_fingerprint cr leaf) = Some entry" "cert_identity pk leaf (ce_machine_id entry)"
    and "wc_now clock = Some hub_now" "\<bar>uint hub_now - uint now\<bar> \<le> 300"
    and "hm_get cache (cert_fingerprint cr leaf, nonce) = None"
  shows "\<exists>cert auth cache'. agent_auth_headers cr pk (leaf # rest) key host (Some now) nonce = Inr (cert, auth) \<and>
    authenticate_ws_upgrade cr pk store clock
      [(bstr ''host'', host), (bstr ''x-agent-cert'', cert), (bstr ''x-agent-auth'', auth)] cache =
      (Inr (ce_machine_id entry), cache')"
  using agent_headers_good [OF assms(1-14)] assms(15) by (simp add: authenticate_good)

theorem agent_headers_accepted_witness:
  "\<exists>cert auth cache'. agent_auth_headers agent_crypto agent_pki [agent_leaf] [] (bstr ''h'') (Some 1300) agent_nonce = Inr (cert, auth) \<and>
     authenticate_ws_upgrade agent_crypto agent_pki agent_store (clock_at 0 (secs 1200) (secs 1200))
       [(bstr ''host'', bstr ''h''), (bstr ''x-agent-cert'', cert), (bstr ''x-agent-auth'', auth)] [] = (Inr (bstr ''alpha''), cache')"
proof -
  have "\<bar>uint (1200 :: u64) - uint (1300 :: u64)\<bar> \<le> 300" "to_str (bstr ''h'') = Some (bstr ''h'')"
    by (simp_all add: to_str_def bstr_def)
  with agent_headers_accepted [OF agent_crypto_laws _ _ agent_signed, where key = "[]" and chain_now = 1200 and hub_now = 1200
      and clock = "clock_at 0 (secs 1200) (secs 1200)" and store = agent_store and entry = agent_entry and cache = "[]" and rest = "[]"]
  show ?thesis
    using agent_identity agent_sizes(3)
    by (simp add: agent_crypto_def agent_pki_def agent_leaf_def agent_nonce_def agent_sizes clock_at_def unix_secs_def secs_def
        agent_store_def find_by_fingerprint_def agent_entry_def agent_sig_def)
qed

lemma verify_client_cert_iff:
  "verify_client_cert cr pk store ee ints now = Inr () \<longleftrightarrow>
     rustls_chain pk ee ints now \<and> (\<exists>entry. find_by_fingerprint store (cert_fingerprint cr ee) = Some entry \<and>
       cert_identity pk ee (ce_machine_id entry) \<and> (ce_not_after_unix entry = 0 \<or> now \<le> ce_not_after_unix entry))"
  by (auto simp: verify_client_cert_def Let_def result_simps extract_machine_id_iff ok_orE_def word_neq_0_conv linorder_not_less
      split: option.splits if_splits)


definition agent_dir :: data_dir where
  "agent_dir = demo_dir\<lparr>dd_certs := \<lparr>sf_body = Some (ser demo_cert_codec agent_store), sf_tmp = None\<rparr>\<rparr>"

abbreviation agent_reload :: "data_dir \<Rightarrow> issued_cert_store" where
  "agent_reload dir \<equiv> reload_issued_certs demo_cert_codec True (dd_certs dir) \<lparr>certs = []\<rparr>"

lemma agent_load: "cert_load demo_cert_codec True (dd_certs agent_dir) = Inr agent_store"
  using demo_cert_codec_ok by (simp add: agent_dir_def cert_load_def codec_ok_def)


text \<open>
  The collection looks ten minutes back; where the platform's instants cannot go back that far it drops
  every nonce that was not recorded at this very instant.
\<close>

lemma gc_forgets_early:
  assumes "now < secs 600" "hm_ok cache" "hm_get cache key = Some t" "t < now"
  shows "hm_get (gc_ws_replay now cache) key = None"
proof -
  have "gc_ws_replay now cache = filter (\<lambda>(_, t). now \<le> t) cache"
    using assms(1) by (simp add: gc_ws_replay_def checked_sub_nanos_def WS_REPLAY_TTL_SECS_def WS_AUTH_SKEW_SECS_def)
  moreover have "(key, v) \<in> set cache \<Longrightarrow> v = t" for v using assms(2,3) by (simp add: hm_get_iff_mem [symmetric])
  ultimately show ?thesis using assms(4) by (auto simp: map_of_eq_None_iff)
qed

text \<open>The perimeter gets the token in the file, or a cached one that lives for more than another minute.\<close>

lemma current_token_fresh:
  "current_token cr now (Some contents) cache = (Inr tok, cache') \<Longrightarrow>
     tok = str_trim contents \<or> (\<exists>c. cache = Some c \<and> ct_raw c = tok \<and> now + secs 60 < ct_expires_at c)"
  by (auto simp: current_token_def read_token_def TOKEN_REFRESH_MARGIN_def Let_def split: option.splits if_splits sum.splits)

end
