(* ===== verification/Pty_Bridge.thy ===== *)
theory Pty_Bridge
  imports Agent_Session
begin

text \<open>
  The PTY wrapper of \<open>agent/src/pty.rs\<close>: \<open>split_shell\<close> and the spawning of the shell, the two
  bridge threads, the cursor-query scanner that Windows builds run on the shell's output, and the
  bounded wait of \<open>kill\<close>. The crate \<open>portable-pty\<close> is not under verification: whether each of its
  calls succeeds, what the blocking reads return and when the channels' other ends go away are
  arguments. The two platforms are the two values of the argument \<open>windows\<close>.

  The lemmas show what the scanner does to the output (a grammar of segments, of which only the
  cursor queries are removed), that the reader thread hands every other byte to the session in
  order, and that the composition of the thread with the session's own reader task is the
  composition of the two scanners.
\<close>

section \<open>The shell command\<close>

text \<open>\<open>str::split_whitespace\<close>: the maximal runs of characters that are not white space.\<close>

fun ws_words :: "bytes \<Rightarrow> bytes list \<Rightarrow> bytes list" where
  "ws_words cur [] = (if cur = [] then [] else [cur])"
| "ws_words cur (c # cs) =
     (if char_whitespace c then (if cur = [] then ws_words [] cs else cur # ws_words [] cs)
      else ws_words (cur @ c) cs)"

definition split_whitespace :: "bytes \<Rightarrow> bytes list" where
  "split_whitespace s = ws_words [] (utf8_chars s)"

definition default_shell_for_split :: "bool \<Rightarrow> bytes option \<Rightarrow> bytes" where
  "default_shell_for_split windows comspec =
     (if windows
      then (case comspec of Some c \<Rightarrow> c
            | None \<Rightarrow> bstr ''C:'' @ [0x5C] @ bstr ''Windows'' @ [0x5C] @ bstr ''System32'' @ [0x5C] @ bstr ''cmd.exe'')
      else bstr ''/bin/sh'')"

definition split_shell :: "bool \<Rightarrow> bytes option \<Rightarrow> bytes \<Rightarrow> bytes \<times> bytes list" where
  "split_shell windows comspec raw =
     (case split_whitespace raw of
        [] \<Rightarrow> (default_shell_for_split windows comspec, [])
      | program # args \<Rightarrow> (program, args))"

text \<open>\<open>PasteStyle::from_shell\<close> (with the separators of Unix paths).\<close>

definition ascii_lower :: "u8 \<Rightarrow> u8" where
  "ascii_lower b = (if 0x41 \<le> b \<and> b \<le> 0x5A then b + 0x20 else b)"

definition eq_ignore_ascii_case :: "bytes \<Rightarrow> bytes \<Rightarrow> bool" where
  "eq_ignore_ascii_case a b \<longleftrightarrow> map ascii_lower a = map ascii_lower b"

definition from_shell :: "bytes \<Rightarrow> paste_style" where
  "from_shell shell =
     (let first = (case split_whitespace shell of [] \<Rightarrow> [] | w # _ \<Rightarrow> w);
          prog = (case path_file_name first of
                    None \<Rightarrow> []
                  | Some n \<Rightarrow> (case from_utf8 n of None \<Rightarrow> [] | Some n \<Rightarrow> n))
      in if eq_ignore_ascii_case prog (bstr ''cmd.exe'') \<or> eq_ignore_ascii_case prog (bstr ''cmd'')
         then PlainStyle else Bracketed)"

section \<open>Spawning\<close>

definition READ_BUF_SIZE :: nat where "READ_BUF_SIZE = 16 * 1024"
definition BRIDGE_QUEUE_LEN :: nat where "BRIDGE_QUEUE_LEN = 32"

record pty_size =
  ps_rows :: u16
  ps_cols :: u16
  ps_pixel_width :: u16
  ps_pixel_height :: u16

definition clamped_size :: "u16 \<Rightarrow> u16 \<Rightarrow> pty_size" where
  "clamped_size rows cols =
     \<lparr>ps_rows = max rows 1, ps_cols = max cols 1, ps_pixel_width = 0, ps_pixel_height = 0\<rparr>"

datatype pty_error =
    OpenPty | SpawnCommand | CloneReader | TakeWriter | ReaderThread | WriterThread | PtyResizeFailed | JoinFailed

datatype pty_call =
    CallOpenpty pty_size
  | CallSpawn bytes "bytes list" "(bytes \<times> bytes) list"
  | CallReaderThread
  | CallWriterThread

text \<open>What the system answers: one success flag per call that can fail.\<close>

record pty_sys =
  sys_openpty :: "pty_size \<Rightarrow> bool"
  sys_spawn :: "bytes \<Rightarrow> bytes list \<Rightarrow> (bytes \<times> bytes) list \<Rightarrow> bool"
  sys_reader :: bool
  sys_writer :: bool
  sys_rthread :: bool
  sys_wthread :: bool

definition pty_spawn ::
    "pty_sys \<Rightarrow> bytes \<Rightarrow> bytes list \<Rightarrow> (bytes \<times> bytes) list \<Rightarrow> u16 \<Rightarrow> u16
       \<Rightarrow> pty_call list \<times> (pty_error + pty_size)" where
  "pty_spawn sys program args env rows cols =
     (let size = clamped_size rows cols in
      if \<not> sys_openpty sys size then ([CallOpenpty size], Inl OpenPty)
      else if \<not> sys_spawn sys program args env
        then ([CallOpenpty size, CallSpawn program args env], Inl SpawnCommand)
      else let calls = [CallOpenpty size, CallSpawn program args env] in
        if \<not> sys_reader sys then (calls, Inl CloneReader)
        else if \<not> sys_writer sys then (calls, Inl TakeWriter)
        else if \<not> sys_rthread sys then (calls @ [CallReaderThread], Inl ReaderThread)
        else if \<not> sys_wthread sys then (calls @ [CallReaderThread, CallWriterThread], Inl WriterThread)
        else (calls @ [CallReaderThread, CallWriterThread], Inr size))"

definition pty_resize :: "(pty_size \<Rightarrow> bool) \<Rightarrow> bool \<Rightarrow> u16 \<Rightarrow> u16 \<Rightarrow> pty_error + pty_size" where
  "pty_resize ioctl joined rows cols =
     (let size = clamped_size rows cols in
      if \<not> joined then Inl JoinFailed
      else if \<not> ioctl size then Inl PtyResizeFailed
      else Inr size)"

text \<open>
  \<open>Session::spawn\<close> up to the construction of the session: the environment of the shell carries the
  download token. The result is the argument that \<open>lookup_or_spawn\<close> takes for the outcome.
\<close>

definition shell_env :: "bytes \<Rightarrow> (bytes \<times> bytes) list" where
  "shell_env token =
     [(bstr ''TERM'', bstr ''xterm-256color''), (bstr ''COLORTERM'', bstr ''truecolor''),
      (bstr ''LANG'', bstr ''C.UTF-8''), (bstr ''LC_ALL'', bstr ''C.UTF-8''),
      (bstr ''TERM_DL_TOKEN'', token)]"

definition session_pty ::
    "bool \<Rightarrow> bytes option \<Rightarrow> pty_sys \<Rightarrow> (bytes \<Rightarrow> bytes) \<Rightarrow> bytes \<Rightarrow> bytes \<Rightarrow> term_size
       \<Rightarrow> pty_call list \<times> (bytes \<times> paste_style) option" where
  "session_pty windows comspec sys b64url rnd shell initial_size =
     (let (program, args) = split_shell windows comspec shell;
          token = b64url rnd;
          (calls, res) = pty_spawn sys program args (shell_env token) (fst initial_size) (snd initial_size)
      in (calls, case res of Inl _ \<Rightarrow> None | Inr _ \<Rightarrow> Some (token, from_shell shell)))"

section \<open>The cursor-query scanner\<close>

definition MAX_CSI_LEN :: nat where "MAX_CSI_LEN = 64"

datatype dsr_state = DNormal | DEsc | DCsi

record dsr_scanner =
  dstate :: dsr_state
  dargs :: bytes

definition dsr_new :: dsr_scanner where
  "dsr_new = \<lparr>dstate = DNormal, dargs = []\<rparr>"

definition DSR_REPLY :: bytes where
  "DSR_REPLY = [ESC] @ bstr ''[1;1R''"

definition dsr_feed_byte :: "dsr_scanner \<Rightarrow> u8 \<Rightarrow> dsr_scanner \<times> bytes \<times> bytes list" where
  "dsr_feed_byte s b =
     (case dstate s of
        DNormal \<Rightarrow> if b = ESC then (s\<lparr>dstate := DEsc\<rparr>, [], []) else (s, [b], [])
      | DEsc \<Rightarrow>
          if b = 0x5B then (s\<lparr>dstate := DCsi, dargs := []\<rparr>, [], [])
          else (s\<lparr>dstate := DNormal\<rparr>, [ESC, b], [])
      | DCsi \<Rightarrow>
          if 0x40 \<le> b \<and> b \<le> 0x7E then
            (if dargs s = [0x36] \<and> b = 0x6E
             then (s\<lparr>dargs := [], dstate := DNormal\<rparr>, [], [DSR_REPLY])
             else (s\<lparr>dargs := [], dstate := DNormal\<rparr>, [ESC, 0x5B] @ dargs s @ [b], []))
          else if length (dargs s) \<ge> MAX_CSI_LEN
            then (s\<lparr>dargs := [], dstate := DNormal\<rparr>, [ESC, 0x5B] @ dargs s @ [b], [])
          else (s\<lparr>dargs := dargs s @ [b]\<rparr>, [], []))"

fun dsr_feed :: "dsr_scanner \<Rightarrow> bytes \<Rightarrow> dsr_scanner \<times> bytes \<times> bytes list" where
  "dsr_feed s [] = (s, [], [])"
| "dsr_feed s (b # input) =
     (let (s1, out1, r1) = dsr_feed_byte s b; (s2, out2, r2) = dsr_feed s1 input
      in (s2, out1 @ out2, r1 @ r2))"

section \<open>The bridge threads\<close>

text \<open>
  One iteration of \<open>pty_reader_thread\<close>: what the blocking read returned, how many of the replies
  the writer's channel still takes, and whether the session still receives. \<open>pump\<close> is what the
  thread has sent on its two channels; the boolean of the step is whether the loop goes on.
\<close>

datatype read_result = ReadOk bytes | ReadErr

record read_env =
  re_read :: read_result
  re_replies_taken :: nat
  re_out_open :: bool

record pump =
  pm_dsr :: dsr_scanner
  pm_out :: "bytes list"
  pm_replies :: "bytes list"

definition pump_new :: pump where
  "pump_new = \<lparr>pm_dsr = dsr_new, pm_out = [], pm_replies = []\<rparr>"

definition reader_chunk_of :: "bool \<Rightarrow> nat \<Rightarrow> bytes \<Rightarrow> pump \<Rightarrow> pump \<times> bytes" where
  "reader_chunk_of windows taken buf st =
     (if windows then
        (let (dsr, fwd, replies) = dsr_feed (pm_dsr st) buf
         in (st\<lparr>pm_dsr := dsr, pm_replies := pm_replies st @ take taken replies\<rparr>, fwd))
      else (st, buf))"

definition reader_iter :: "bool \<Rightarrow> read_env \<Rightarrow> pump \<Rightarrow> pump \<times> bool" where
  "reader_iter windows e st =
     (case re_read e of
        ReadErr \<Rightarrow> (st, False)
      | ReadOk buf \<Rightarrow>
          if buf = [] then (st, False)
          else let (st1, chunk) = reader_chunk_of windows (re_replies_taken e) buf st in
            if chunk = [] then (st1, True)
            else if \<not> re_out_open e then (st1, False)
            else (st1\<lparr>pm_out := pm_out st1 @ [chunk]\<rparr>, True))"

fun pty_reader_thread :: "bool \<Rightarrow> read_env list \<Rightarrow> pump \<Rightarrow> pump" where
  "pty_reader_thread windows [] st = st"
| "pty_reader_thread windows (e # es) st =
     (let (st1, go) = reader_iter windows e st
      in if go then pty_reader_thread windows es st1 else st1)"

text \<open>
  \<open>pty_writer_thread\<close>: \<open>write_all\<close> gives the number of bytes it wrote before it failed, or nothing
  when it wrote them all; the result is what reached the PTY.
\<close>

fun pty_writer_thread :: "(bytes \<times> nat option) list \<Rightarrow> bytes" where
  "pty_writer_thread [] = []"
| "pty_writer_thread ((bs, r) # rest) =
     (case r of
        Some n \<Rightarrow> take n bs
      | None \<Rightarrow> bs @ pty_writer_thread rest)"

section \<open>Killing the shell\<close>

text \<open>
  The wait loop of \<open>kill\<close> on a clock in milliseconds: \<open>reaped t\<close> is whether \<open>try_wait\<close> at time \<open>t\<close>
  finds the child gone, \<open>late t\<close> how much later than asked the sleep begun at \<open>t\<close> returns.
\<close>

function kill_wait :: "(nat \<Rightarrow> bool) \<Rightarrow> (nat \<Rightarrow> nat) \<Rightarrow> nat \<Rightarrow> nat \<Rightarrow> bool \<times> nat" where
  "kill_wait reaped late deadline now =
     (if reaped now then (True, now)
      else if now > deadline then (False, now)
      else kill_wait reaped late deadline (now + 10 + late now))"
  by pat_completeness auto
termination
  by (relation "measure (\<lambda>(_, _, d, t). Suc d - t)") auto

declare kill_wait.simps [simp del]

definition pty_kill :: "(nat \<Rightarrow> bool) \<Rightarrow> (nat \<Rightarrow> nat) \<Rightarrow> nat \<Rightarrow> bool \<times> nat" where
  "pty_kill reaped late now = kill_wait reaped late (now + 500) now"

definition pty_exited :: "(nat \<Rightarrow> bool) \<Rightarrow> nat \<Rightarrow> bool \<Rightarrow> bool" where
  "pty_exited reaped now joined \<longleftrightarrow> joined \<and> reaped now"

section \<open>The grammar of the cursor-query scanner\<close>

datatype dsr_seg =
    DPlain u8
  | DEscape u8
  | DCsiSeq bytes u8
  | DOverrun bytes u8

definition csi_final :: "u8 \<Rightarrow> bool" where
  "csi_final b \<longleftrightarrow> 0x40 \<le> b \<and> b \<le> 0x7E"

definition csi_args :: "bytes \<Rightarrow> bool" where
  "csi_args bs \<longleftrightarrow> list_all (\<lambda>b. \<not> csi_final b) bs \<and> length bs \<le> MAX_CSI_LEN"

fun dseg_raw :: "dsr_seg \<Rightarrow> bytes" where
  "dseg_raw (DPlain b) = [b]"
| "dseg_raw (DEscape b) = [ESC, b]"
| "dseg_raw (DCsiSeq bs b) = [ESC, 0x5B] @ bs @ [b]"
| "dseg_raw (DOverrun bs b) = [ESC, 0x5B] @ bs @ [b]"

fun dseg_ok :: "dsr_seg \<Rightarrow> bool" where
  "dseg_ok (DPlain b) \<longleftrightarrow> b \<noteq> ESC"
| "dseg_ok (DEscape b) \<longleftrightarrow> b \<noteq> 0x5B"
| "dseg_ok (DCsiSeq bs b) \<longleftrightarrow> csi_args bs \<and> csi_final b"
| "dseg_ok (DOverrun bs b) \<longleftrightarrow> csi_args bs \<and> length bs = MAX_CSI_LEN \<and> \<not> csi_final b"

definition is_query :: "dsr_seg \<Rightarrow> bool" where
  "is_query g \<longleftrightarrow> g = DCsiSeq [0x36] 0x6E"

definition dseg_out :: "dsr_seg \<Rightarrow> bytes" where
  "dseg_out g = (if is_query g then [] else dseg_raw g)"

definition dseg_cap :: "dsr_seg \<Rightarrow> bytes list" where
  "dseg_cap g = (if is_query g then [DSR_REPLY] else [])"

definition dsr_pending :: "dsr_scanner \<Rightarrow> bytes \<Rightarrow> bool" where
  "dsr_pending s p =
     (case dstate s of
        DNormal \<Rightarrow> p = []
      | DEsc \<Rightarrow> p = [ESC]
      | DCsi \<Rightarrow> p = [ESC, 0x5B] @ dargs s \<and> list_all (\<lambda>b. \<not> csi_final b) (dargs s))"

definition dsr_ok :: "dsr_scanner \<Rightarrow> bool" where
  "dsr_ok s \<longleftrightarrow> length (dargs s) \<le> MAX_CSI_LEN"

lemma dsr_feed_is_feed_with: "dsr_feed s xs = feed_with dsr_feed_byte s xs"
  by (induction xs arbitrary: s) simp_all

lemmas dsr_feed_append = feed_with_append [of dsr_feed_byte, folded dsr_feed_is_feed_with]

lemma dsr_byte_ok: "dsr_ok s \<Longrightarrow> dsr_ok (fst (dsr_feed_byte s b))"
  by (auto simp: dsr_ok_def dsr_feed_byte_def split: dsr_state.splits)

lemma dsr_byte_seg:
  assumes ok: "dsr_ok s" and p: "dsr_pending s p" and f: "dsr_feed_byte s b = (s', out, reps)"
  shows "(out = [] \<and> reps = [] \<and> dsr_pending s' (p @ [b])) \<or>
    (\<exists>g. dseg_ok g \<and> p @ [b] = dseg_raw g \<and> out = dseg_out g \<and> reps = dseg_cap g \<and> dsr_pending s' [])"
proof (cases "dstate s")
  case DNormal
  show ?thesis
  proof (cases "b = ESC")
    case True
    with DNormal p f show ?thesis by (auto simp: dsr_feed_byte_def dsr_pending_def)
  next
    case False
    with DNormal p f show ?thesis
      by (intro disjI2 exI [of _ "DPlain b"])
        (auto simp: dsr_feed_byte_def dsr_pending_def dseg_out_def dseg_cap_def is_query_def)
  qed
next
  case DEsc
  show ?thesis
  proof (cases "b = 0x5B")
    case True
    with DEsc p f show ?thesis by (auto simp: dsr_feed_byte_def dsr_pending_def)
  next
    case False
    with DEsc p f show ?thesis
      by (intro disjI2 exI [of _ "DEscape b"])
        (auto simp: dsr_feed_byte_def dsr_pending_def dseg_out_def dseg_cap_def is_query_def)
  qed
next
  case DCsi
  have a: "csi_args (dargs s)" and p': "p = [ESC, 0x5B] @ dargs s"
    using DCsi p ok by (simp_all only: dsr_pending_def csi_args_def dsr_ok_def dsr_state.case)
  show ?thesis
  proof (cases "csi_final b")
    case True
    then have "dsr_feed_byte s b = (s\<lparr>dargs := [], dstate := DNormal\<rparr>,
        dseg_out (DCsiSeq (dargs s) b), dseg_cap (DCsiSeq (dargs s) b))"
      using DCsi by (simp add: dsr_feed_byte_def csi_final_def dseg_out_def dseg_cap_def is_query_def)
    with True f a p' show ?thesis
      by (intro disjI2 exI [of _ "DCsiSeq (dargs s) b"]) (auto simp: dsr_pending_def)
  next
    case nf: False
    show ?thesis
    proof (cases "length (dargs s) \<ge> MAX_CSI_LEN")
      case True
      then have "dsr_feed_byte s b = (s\<lparr>dargs := [], dstate := DNormal\<rparr>,
          dseg_out (DOverrun (dargs s) b), dseg_cap (DOverrun (dargs s) b))"
        using DCsi nf by (auto simp: dsr_feed_byte_def csi_final_def dseg_out_def dseg_cap_def is_query_def)
      with True nf f a p' show ?thesis
        by (intro disjI2 exI [of _ "DOverrun (dargs s) b"]) (auto simp: dsr_pending_def csi_args_def)
    next
      case False
      then have "dsr_feed_byte s b = (s\<lparr>dargs := dargs s @ [b]\<rparr>, [], [])"
        using DCsi nf by (auto simp: dsr_feed_byte_def csi_final_def)
      with nf f a p' DCsi show ?thesis by (auto simp: dsr_pending_def csi_args_def)
    qed
  qed
qed

interpretation dsr: seg_scanner dsr_feed_byte dsr_ok dsr_pending dseg_ok dseg_raw dseg_out dseg_cap
  by unfold_locales (simp add: dsr_byte_ok, rule dsr_byte_seg)

lemma dseg_out_filter: "concat (map dseg_out gs) = concat (map dseg_raw (filter (\<lambda>g. \<not> is_query g) gs))"
  by (induction gs) (simp_all add: dseg_out_def)

lemma dseg_cap_filter: "concat (map dseg_cap gs) = map (\<lambda>_. DSR_REPLY) (filter is_query gs)"
  by (induction gs) (simp_all add: dseg_cap_def)

lemma dsr_pending_len: "dsr_ok s \<Longrightarrow> dsr_pending s p \<Longrightarrow> length p \<le> MAX_CSI_LEN + 2"
  by (auto simp: dsr_ok_def dsr_pending_def split: dsr_state.splits)

lemma dsr_feed_plain:
  "dstate s = DNormal \<Longrightarrow> list_all (\<lambda>b. b \<noteq> ESC) xs \<Longrightarrow> dsr_feed s xs = (s, xs, [])"
  by (induction xs) (auto simp: dsr_feed_byte_def)

section \<open>What the reader thread sends\<close>

text \<open>
  The shell's output up to its end or the first failing read, and what the platform's filter leaves
  of it.
\<close>

fun shell_output :: "read_env list \<Rightarrow> bytes list" where
  "shell_output [] = []"
| "shell_output (e # es) =
     (case re_read e of
        ReadErr \<Rightarrow> []
      | ReadOk buf \<Rightarrow> if buf = [] then [] else buf # shell_output es)"

definition bridge_feed :: "bool \<Rightarrow> dsr_scanner \<Rightarrow> bytes \<Rightarrow> dsr_scanner \<times> bytes \<times> bytes list" where
  "bridge_feed windows s xs = (if windows then dsr_feed s xs else (s, xs, []))"

lemma bridge_feed_append:
  "bridge_feed windows s (xs @ ys) =
     (let (s1, out1, r1) = bridge_feed windows s xs; (s2, out2, r2) = bridge_feed windows s1 ys
      in (s2, out1 @ out2, r1 @ r2))"
  by (simp add: bridge_feed_def dsr_feed_append)

lemma reader_chunk_of_feed:
  "reader_chunk_of windows n buf st =
     (let (d, fwd, reps) = bridge_feed windows (pm_dsr st) buf
      in (st\<lparr>pm_dsr := d, pm_replies := pm_replies st @ take n reps\<rparr>, fwd))"
  by (simp add: reader_chunk_of_def bridge_feed_def)

text \<open>While the session and the writer listen, nothing is lost and nothing is reordered.\<close>

definition env_open :: "read_env \<Rightarrow> bool" where
  "env_open e \<longleftrightarrow> re_out_open e \<and> (\<forall>buf. re_read e = ReadOk buf \<longrightarrow> length buf \<le> re_replies_taken e)"

lemma dsr_replies_len: "length (snd (snd (dsr_feed s xs))) \<le> length xs"
proof (induction xs arbitrary: s)
  case (Cons b xs)
  have "length (snd (snd (dsr_feed_byte s b))) \<le> 1"
    by (auto simp: dsr_feed_byte_def split: dsr_state.splits)
  with Cons.IH [of "fst (dsr_feed_byte s b)"] show ?case by (simp add: Let_def split_beta)
qed simp

lemma reader_thread_feed:
  assumes "list_all env_open es"
  shows "concat (pm_out (pty_reader_thread windows es st)) = concat (pm_out st) @
      fst (snd (bridge_feed windows (pm_dsr st) (concat (shell_output es))))"
    and "pm_replies (pty_reader_thread windows es st) = pm_replies st @
      snd (snd (bridge_feed windows (pm_dsr st) (concat (shell_output es))))"
proof -
  have "concat (pm_out (pty_reader_thread windows es st)) = concat (pm_out st) @
      fst (snd (bridge_feed windows (pm_dsr st) (concat (shell_output es)))) \<and>
    pm_replies (pty_reader_thread windows es st) = pm_replies st @
      snd (snd (bridge_feed windows (pm_dsr st) (concat (shell_output es))))"
    using assms
  proof (induction es arbitrary: st)
    case Nil
    then show ?case by (simp add: bridge_feed_def)
  next
    case (Cons e es)
    have e: "env_open e" "list_all env_open es" using Cons.prems by simp_all
    show ?case
    proof (cases "re_read e")
      case ReadErr
      then show ?thesis by (simp add: reader_iter_def bridge_feed_def)
    next
      case (ReadOk buf)
      show ?thesis
      proof (cases "buf = []")
        case True
        with ReadOk show ?thesis by (simp add: reader_iter_def bridge_feed_def)
      next
        case False
        obtain d fwd reps where f: "bridge_feed windows (pm_dsr st) buf = (d, fwd, reps)"
          by (cases "bridge_feed windows (pm_dsr st) buf") auto
        have "length reps \<le> length buf"
          using f dsr_replies_len [of "pm_dsr st" buf] by (auto simp: bridge_feed_def split: if_splits)
        then have t: "take (re_replies_taken e) reps = reps"
          using e(1) ReadOk by (simp add: env_open_def)
        let ?st = "st\<lparr>pm_dsr := d, pm_replies := pm_replies st @ reps\<rparr>"
        have it: "reader_iter windows e st =
            (if fwd = [] then ?st else ?st\<lparr>pm_out := pm_out st @ [fwd]\<rparr>, True)"
          using ReadOk False e(1) f t
          by (simp add: reader_iter_def reader_chunk_of_feed env_open_def)
        show ?thesis
          using ReadOk False it f Cons.IH [OF e(2), of ?st]
            Cons.IH [OF e(2), of "?st\<lparr>pm_out := pm_out st @ [fwd]\<rparr>"]
          by (simp add: bridge_feed_append Let_def split_beta)
      qed
    qed
  qed
  then show "concat (pm_out (pty_reader_thread windows es st)) = concat (pm_out st) @
      fst (snd (bridge_feed windows (pm_dsr st) (concat (shell_output es))))"
    and "pm_replies (pty_reader_thread windows es st) = pm_replies st @
      snd (snd (bridge_feed windows (pm_dsr st) (concat (shell_output es))))"
    by simp_all
qed

section \<open>From the thread to the session\<close>

text \<open>The downloads an effect list starts, and those of a whole run of the session's reader.\<close>

definition started :: "effect list \<Rightarrow> bytes list" where
  "started es = concat (map (\<lambda>e. case e of SpawnDownload p \<Rightarrow> [p] | _ \<Rightarrow> []) es)"

lemma started_append [simp]: "started (es @ fs) = started es @ started fs"
  by (simp add: started_def)

lemma dispatch_token: "dl_token s = dl_token s' \<Longrightarrow> dispatch_captured s = dispatch_captured s'"
  by (rule ext) (simp add: dispatch_captured_def split: option.splits)

lemma reader_chunk_started:
  "started (snd (reader_chunk buf s)) =
     started (concat (map (dispatch_captured s) (snd (snd (feed (reader_osc s) buf)))))"
  "dl_token (fst (reader_chunk buf s)) = dl_token s"
proof -
  have "dispatch_captured (s\<lparr>reader_osc := o1, scrollback := r\<rparr>) = dispatch_captured s"
    "dispatch_captured (s\<lparr>reader_osc := o1\<rparr>) = dispatch_captured s" for o1 r
    by (rule dispatch_token, simp)+
  then show "started (snd (reader_chunk buf s)) =
     started (concat (map (dispatch_captured s) (snd (snd (feed (reader_osc s) buf)))))"
    by (simp add: reader_chunk_def Let_def split_beta started_def)
  show "dl_token (fst (reader_chunk buf s)) = dl_token s"
    by (simp add: reader_chunk_def Let_def split_beta)
qed

lemma outputs_run:
  "data_of (snd (sess_run (map OpOutput cs) s)) = fst (snd (feed (reader_osc s) (concat cs)))"
  "started (snd (sess_run (map OpOutput cs) s)) =
     started (concat (map (dispatch_captured s) (snd (snd (feed (reader_osc s) (concat cs))))))"
proof -
  have "output_of (map OpOutput cs) = cs" by (induction cs) simp_all
  then show "data_of (snd (sess_run (map OpOutput cs) s)) = fst (snd (feed (reader_osc s) (concat cs)))"
    by (simp add: run_data feeds_concat)
  show "started (snd (sess_run (map OpOutput cs) s)) =
     started (concat (map (dispatch_captured s) (snd (snd (feed (reader_osc s) (concat cs))))))"
  proof (induction cs arbitrary: s)
    case Nil
    then show ?case by (simp add: started_def)
  next
    case (Cons c cs)
    have d: "dispatch_captured (fst (reader_chunk c s)) = dispatch_captured s"
      by (rule dispatch_token) (rule reader_chunk_started)
    show ?case
      using Cons.IH [of "fst (reader_chunk c s)"]
      by (simp add: feed_append Let_def split_beta d reader_chunk_started reader_chunk_data)
  qed
qed

section \<open>Commands and sizes\<close>

lemma ws_words_word:
  "list_all (\<lambda>c. \<not> char_whitespace c) cs \<Longrightarrow> list_all (\<lambda>c. c \<noteq> []) cs \<Longrightarrow>
     ws_words cur (cs @ rest) =
       (if cs = [] then ws_words cur rest else ws_words (cur @ concat cs) rest)"
  by (induction cs arbitrary: cur) (auto split: if_splits)

lemma utf8_chars_append_graphic: "graphic w \<Longrightarrow> utf8_chars (w @ t) = map (\<lambda>b. [b]) w @ utf8_chars t"
proof (induction w)
  case (Cons b w)
  then have "b < 0x80" "graphic w"
    by (auto simp: graphic_def word_less_nat_alt word_le_nat_alt)
  with Cons.IH show ?case by (simp add: utf8_width_def)
qed simp

lemma split_whitespace_word:
  assumes "graphic w" "w \<noteq> []"
  shows "split_whitespace (w @ 0x20 # t) = w # split_whitespace t" "split_whitespace w = [w]"
proof -
  have ws: "list_all (\<lambda>c. \<not> char_whitespace c) (map (\<lambda>b. [b]) w)"
    using graphic_chars [OF assms(1)] by (simp add: list_all_iff)
  have ne: "list_all (\<lambda>c. c \<noteq> []) (map (\<lambda>b. [b]) w)" by (simp add: list_all_iff)
  have sp: "char_whitespace [0x20]" "utf8_chars (0x20 # t) = [0x20] # utf8_chars t"
    by (simp_all add: char_whitespace_def utf8_width_def)
  show "split_whitespace (w @ 0x20 # t) = w # split_whitespace t"
    using assms sp ws_words_word [OF ws ne, of "[]" "[0x20] # utf8_chars t"]
    by (simp add: split_whitespace_def utf8_chars_append_graphic del: utf8_chars.simps)
  show "split_whitespace w = [w]"
    using assms ws_words_word [OF ws ne, of "[]" "[]"]
    by (simp add: split_whitespace_def graphic_chars(1))
qed

fun join_words :: "bytes list \<Rightarrow> bytes" where
  "join_words [] = []"
| "join_words [w] = w"
| "join_words (w # ws) = w @ 0x20 # join_words ws"

text \<open>A command written as words with blanks between them is split into those words.\<close>

lemma split_shell_join:
  "list_all (\<lambda>w. graphic w \<and> w \<noteq> []) (program # args) \<Longrightarrow>
     split_shell windows comspec (join_words (program # args)) = (program, args)"
proof -
  have "list_all (\<lambda>w. graphic w \<and> w \<noteq> []) ws \<Longrightarrow> ws \<noteq> [] \<Longrightarrow> split_whitespace (join_words ws) = ws"
    for ws
    by (induction ws rule: join_words.induct) (simp_all add: split_whitespace_word)
  then show "list_all (\<lambda>w. graphic w \<and> w \<noteq> []) (program # args) \<Longrightarrow> ?thesis"
    by (simp add: split_shell_def)
qed

lemma clamped_size_pos: "1 \<le> ps_rows (clamped_size r c)" "1 \<le> ps_cols (clamped_size r c)"
  by (simp_all add: clamped_size_def)

lemma clamped_size_id: "1 \<le> r \<Longrightarrow> 1 \<le> c \<Longrightarrow> ps_rows (clamped_size r c) = r \<and> ps_cols (clamped_size r c) = c"
  by (simp add: clamped_size_def max_def)

lemma session_pty_env:
  assumes "session_pty windows comspec sys b64url rnd shell geom = (calls, Some (tok, style))"
  shows "\<exists>program args. CallSpawn program args (shell_env tok) \<in> set calls" "tok = b64url rnd"
  using assms
  by (auto simp: session_pty_def pty_spawn_def Let_def split: prod.splits if_splits sum.splits)

text \<open>The second of two escapes is forwarded with the first, so that a query after it is not seen.\<close>

lemma dsr_misses_after_escape:
  "dsr_feed dsr_new ([ESC, ESC] @ bstr ''[6n'') = (dsr_new, [ESC, ESC] @ bstr ''[6n'', [])"
  by (simp add: dsr_new_def dsr_feed_byte_def bstr_def of_char_def ESC_def)

section \<open>Properties\<close>

text \<open>
  The cursor-query scanner, from its start, implements its grammar: the output seen so far is a
  list of complete segments and a rest of at most 66 bytes; everything but the queries
  \<open>ESC [ 6 n\<close> is forwarded verbatim and in order, and there is one reply for each query.
\<close>

theorem dsr_refines_grammar:
  "\<exists>gs p. list_all dseg_ok gs \<and> xs = concat (map dseg_raw gs) @ p \<and>
     dsr_pending (fst (dsr_feed dsr_new xs)) p \<and> length p \<le> MAX_CSI_LEN + 2 \<and>
     fst (snd (dsr_feed dsr_new xs)) = concat (map dseg_raw (filter (\<lambda>g. \<not> is_query g) gs)) \<and>
     snd (snd (dsr_feed dsr_new xs)) = map (\<lambda>_. DSR_REPLY) (filter is_query gs)"
proof -
  have new: "dsr_ok dsr_new" "dsr_pending dsr_new []"
    by (simp_all add: dsr_new_def dsr_ok_def dsr_pending_def)
  have "dsr_ok (fst (dsr_feed dsr_new xs))"
    unfolding dsr_feed_is_feed_with by (rule dsr.feed_inv [OF new(1)])
  with dsr.feed_grammar [OF new, of xs] show ?thesis
    unfolding dsr_feed_is_feed_with [symmetric] dseg_out_filter dseg_cap_filter
    using dsr_pending_len by blast
qed


lemma kill_wait_ends:
  fixes late :: "nat \<Rightarrow> nat"
  assumes "\<And>t. late t \<le> j"
  shows "\<exists>T. kill_wait reaped late d now = (reaped T, T) \<and> (reaped T \<or> d < T) \<and>
    now \<le> T \<and> T \<le> max now (d + 10 + j)"
  using assms
proof (induction reaped late d now rule: kill_wait.induct)
  case (1 reaped late d now)
  show ?case
  proof (cases "reaped now \<or> d < now")
    case True
    then show ?thesis by (subst kill_wait.simps) (auto intro: exI [of _ now])
  next
    case False
    then obtain T where T: "kill_wait reaped late d (now + 10 + late now) = (reaped T, T)"
      "reaped T \<or> d < T" "now + 10 + late now \<le> T" "T \<le> max (now + 10 + late now) (d + 10 + j)"
      using 1 by auto
    moreover have "now + 10 + late now \<le> d + 10 + j" using False 1(2) [of now] by simp
    ultimately show ?thesis
      using False by (subst kill_wait.simps) (intro exI [of _ T], auto)
  qed
qed




end
