(* ===== verification/Term_Dl.thy ===== *)
theory Term_Dl
  imports Pty_Bridge
begin

text \<open>
  The command \<open>term-dl\<close> of \<open>term-dl/src/main.rs\<close>, which a user runs in the shell to download files:
  it checks each path and prints an OSC that carries the download token of the session. The process
  arguments, the environment variable and the three file-system queries are arguments of the model;
  the result is what the process writes to its standard output and how it ends.

  The property follows a request from the command through the PTY bridge and the OSC scanner to the
  download tasks of the session.
\<close>

section \<open>The command\<close>

text \<open>\<open>fs::metadata\<close>, reduced to whether the path is a regular file, and \<open>fs::canonicalize\<close>.\<close>

record dl_fs =
  fs_is_file :: "bytes \<Rightarrow> bool option"
  fs_canonicalize :: "bytes \<Rightarrow> bytes option"

datatype prepare_error = PMetadata | PNotRegular | PCanonicalize | PControlByte

definition prepare :: "dl_fs \<Rightarrow> bytes \<Rightarrow> prepare_error + bytes" where
  "prepare fs raw =
     (case fs_is_file fs raw of
        None \<Rightarrow> Inl PMetadata
      | Some is_file \<Rightarrow>
          if \<not> is_file then Inl PNotRegular
          else (case fs_canonicalize fs raw of
                  None \<Rightarrow> Inl PCanonicalize
                | Some full \<Rightarrow>
                    if list_ex (\<lambda>b. b = 0x07 \<or> b = 0x1b) full then Inl PControlByte else Inr full))"

text \<open>\<open>Exited\<close> with a status, or \<open>Panicked\<close>: \<open>env::args\<close> panics at an argument that is not Unicode.\<close>

datatype dl_outcome = Exited u8 | Panicked

definition token_char :: "u8 \<Rightarrow> bool" where
  "token_char b \<longleftrightarrow> (0x30 \<le> b \<and> b \<le> 0x39) \<or> (0x41 \<le> b \<and> b \<le> 0x5A) \<or> (0x61 \<le> b \<and> b \<le> 0x7A) \<or>
     b = 0x2D \<or> b = 0x5F"

definition dl_osc :: "bytes \<Rightarrow> bytes \<Rightarrow> bytes" where
  "dl_osc token full = ([0x1b] @ bstr '']5111;dl;'') @ token @ bstr '';'' @ full @ [0x07]"

definition saturating_succ8 :: "u8 \<Rightarrow> u8" where
  "saturating_succ8 n = (if n = 255 then 255 else n + 1)"

fun dl_loop :: "dl_fs \<Rightarrow> bytes \<Rightarrow> u8 \<Rightarrow> bytes list \<Rightarrow> bytes \<times> dl_outcome" where
  "dl_loop fs token failed [] = ([], Exited failed)"
| "dl_loop fs token failed (raw # args) =
     (if \<not> utf8_valid raw then ([], Panicked)
      else (case prepare fs raw of
              Inr full \<Rightarrow> (let (out, r) = dl_loop fs token failed args in (dl_osc token full @ out, r))
            | Inl _ \<Rightarrow> dl_loop fs token (saturating_succ8 failed) args))"

definition term_dl :: "bytes \<Rightarrow> dl_fs \<Rightarrow> bytes option \<Rightarrow> bytes list \<Rightarrow> bytes \<times> dl_outcome" where
  "term_dl usage fs token_var argv =
     (case argv of
        [] \<Rightarrow> ([], Exited 64)
      | prog # args \<Rightarrow>
          if \<not> utf8_valid prog then ([], Panicked)
          else (case args of
             [] \<Rightarrow> ([], Exited 64)
           | first # _ \<Rightarrow>
               if \<not> utf8_valid first then ([], Panicked)
               else if first = bstr ''-h'' \<or> first = bstr ''--help'' then (usage, Exited 0)
               else (case Option.bind token_var from_utf8 of
                  None \<Rightarrow> ([], Exited 69)
                | Some token \<Rightarrow>
                    if token = [] then ([], Exited 69)
                    else if \<not> list_all token_char token then ([], Exited 78)
                    else dl_loop fs token 0 args)))"

section \<open>What is printed\<close>

text \<open>The paths the command accepts, and how it ends when every argument is Unicode.\<close>

definition accepted :: "dl_fs \<Rightarrow> bytes list \<Rightarrow> bytes list" where
  "accepted fs args = concat (map (\<lambda>raw. case prepare fs raw of Inr full \<Rightarrow> [full] | Inl _ \<Rightarrow> []) args)"

definition rejected :: "dl_fs \<Rightarrow> bytes list \<Rightarrow> nat" where
  "rejected fs args = length (filter (\<lambda>raw. case prepare fs raw of Inr _ \<Rightarrow> False | Inl _ \<Rightarrow> True) args)"

lemma unat_numeral_255: "unat (255 :: u8) = 255"
  by simp

lemma saturating_succ8_nat: "saturating_succ8 (word_of_nat (min n 255)) = word_of_nat (min (Suc n) 255)"
proof (cases "n < 255")
  case True
  then have "unat (word_of_nat n :: u8) = n" by (simp add: unat_of_nat take_bit_nat_eq_self)
  with True have "(word_of_nat n :: u8) \<noteq> 255" by (metis less_irrefl unat_numeral_255)
  with True show ?thesis by (simp add: saturating_succ8_def min_def)
qed (simp add: saturating_succ8_def min_def)

lemma dl_loop_run:
  "list_all utf8_valid args \<Longrightarrow>
     dl_loop fs token (word_of_nat (min n 255)) args =
       (concat (map (dl_osc token) (accepted fs args)),
        Exited (word_of_nat (min (n + rejected fs args) 255)))"
proof (induction args arbitrary: n)
  case Nil
  then show ?case by (simp add: accepted_def rejected_def)
next
  case (Cons raw args)
  show ?case
  proof (cases "prepare fs raw")
    case (Inl e)
    with Cons.IH [of "Suc n"] Cons.prems show ?thesis
      by (simp add: saturating_succ8_nat accepted_def rejected_def)
  next
    case (Inr full)
    with Cons.IH [of n] Cons.prems show ?thesis
      by (simp add: accepted_def rejected_def)
  qed
qed

lemma prepare_clean: "prepare fs raw = Inr full \<Longrightarrow> list_all osc_clean full"
  by (auto simp: prepare_def osc_clean_def BEL_def ESC_def list_all_iff list_ex_iff
      split: option.splits if_splits)

lemma accepted_clean: "full \<in> set (accepted fs args) \<Longrightarrow> list_all osc_clean full"
  using prepare_clean by (fastforce simp: accepted_def split: sum.splits)

lemma token_char_clean: "token_char b \<Longrightarrow> osc_clean b" "token_char b \<Longrightarrow> b \<noteq> 0x3B" "token_char b \<Longrightarrow> b < 0x80"
  by (auto simp: token_char_def osc_clean_def BEL_def ESC_def word_le_nat_alt word_less_nat_alt)

section \<open>Through the scanners\<close>

lemma dl_osc_private: "dl_osc token full = [ESC, 0x5D] @ bstr ''5111;'' @ (bstr ''dl;'' @ token @ 0x3B # full) @ [BEL]"
  by (simp add: dl_osc_def ESC_def BEL_def bstr_def of_char_def)

text \<open>A request the scanner takes whole: no byte that ends an OSC, and within its length.\<close>

definition request_ok :: "bytes \<Rightarrow> bytes \<Rightarrow> bool" where
  "request_ok token full \<longleftrightarrow> list_all token_char token \<and> list_all osc_clean full \<and>
     length token + length full + 9 \<le> MAX_OSC_LEN"

lemma feed_dl_osc:
  assumes "ostate s = Normal" "request_ok token full"
  shows "feed s (dl_osc token full) = (scanner_new, [], [bstr ''dl;'' @ token @ 0x3B # full])"
proof -
  let ?pay = "bstr ''dl;'' @ token @ 0x3B # full"
  have "list_all osc_clean ?pay" "length ?pay + 5 \<le> MAX_OSC_LEN"
    using assms(2) token_char_clean(1)
    by (auto simp: request_ok_def bstr_dl list_all_iff osc_clean_def BEL_def ESC_def)
  from feed_private [OF assms(1) this] show ?thesis
    unfolding dl_osc_private by (simp add: scanner_new_def)
qed

lemma feed_dl_oscs:
  assumes "ostate s = Normal" "list_all (request_ok token) ps"
  shows "snd (feed s (concat (map (dl_osc token) ps))) = ([], map (\<lambda>p. bstr ''dl;'' @ token @ 0x3B # p) ps)"
  using assms
proof (induction ps arbitrary: s)
  case (Cons p ps)
  have "snd (feed scanner_new (concat (map (dl_osc token) ps))) =
      ([], map (\<lambda>p. bstr ''dl;'' @ token @ 0x3B # p) ps)"
    using Cons by (simp add: scanner_new_def)
  then show ?case
    using Cons.prems feed_dl_osc [of s token p]
    by (simp add: feed_append Let_def split_beta)
qed simp

lemma dsr_dl_osc:
  assumes "dstate s = DNormal" "request_ok token full"
  shows "dsr_feed s (dl_osc token full) = (s, dl_osc token full, [])"
proof -
  let ?rest = "bstr ''5111;'' @ (bstr ''dl;'' @ token @ 0x3B # full) @ [BEL]"
  have "list_all (\<lambda>b. b \<noteq> ESC) ?rest"
    using assms(2) token_char_clean(1)
    by (auto simp: request_ok_def bstr_def of_char_def list_all_iff osc_clean_def BEL_def ESC_def)
  then have "dsr_feed s ?rest = (s, ?rest, [])" by (rule dsr_feed_plain [OF assms(1)])
  then show ?thesis
    using assms(1) unfolding dl_osc_private by (cases s) (simp add: dsr_feed_byte_def ESC_def)
qed

lemma bridge_dl_oscs:
  "list_all (request_ok token) ps \<Longrightarrow>
     fst (snd (bridge_feed windows dsr_new (concat (map (dl_osc token) ps)))) = concat (map (dl_osc token) ps)"
proof -
  have "list_all (request_ok token) ps \<Longrightarrow>
      dsr_feed dsr_new (concat (map (dl_osc token) ps)) = (dsr_new, concat (map (dl_osc token) ps), [])"
    by (induction ps) (simp_all add: dsr_feed_append dsr_dl_osc dsr_new_def)
  then show "list_all (request_ok token) ps \<Longrightarrow> ?thesis" by (simp add: bridge_feed_def)
qed

lemma started_requests:
  assumes "list_all token_char (dl_token s)" "list_all utf8_valid ps"
  shows "started (concat (map (dispatch_captured s)
      (map (\<lambda>p. bstr ''dl;'' @ dl_token s @ 0x3B # p) ps))) = ps"
  using assms(2)
proof (induction ps)
  case (Cons p ps)
  have "0x3B \<notin> set (dl_token s)" "utf8_valid (dl_token s)"
    using assms(1) token_char_clean(2,3) utf8_valid_ascii by (auto simp: list_all_iff)
  then have "parse_dl_osc (bstr ''dl;'' @ dl_token s @ 0x3B # p) = Some (dl_token s, p)"
    using Cons.prems by (simp add: parse_dl_osc_iff)
  then have "dispatch_captured s (bstr ''dl;'' @ dl_token s @ 0x3B # p) = [SpawnDownload p]"
    by (simp add: dispatch_captured_def ct_eq_str_iff)
  with Cons show ?case by (simp add: started_def)
qed (simp add: started_def)

section \<open>Properties\<close>



text \<open>Without the variable that the agent sets, or with one it cannot have set, nothing is printed.\<close>

lemma term_dl_needs_token:
  assumes "list_all utf8_valid argv" "hd (tl argv) \<notin> {bstr ''-h'', bstr ''--help''}"
    and "\<And>t. token_var = Some t \<Longrightarrow> t = [] \<or> \<not> list_all token_char t"
  shows "fst (term_dl usage fs token_var argv) = [] \<and>
    snd (term_dl usage fs token_var argv) \<in> {Exited 64, Exited 69, Exited 78}"
proof -
  have "Option.bind token_var from_utf8 = Some t \<Longrightarrow> t = [] \<or> \<not> list_all token_char t" for t
    using assms(3) [of t] by (cases token_var) auto
  then show ?thesis
    using assms(1,2)
    by (cases "Option.bind token_var from_utf8") (auto simp: term_dl_def split: list.splits)
qed

text \<open>
  A path that is not text passes the command's checks, and the request for it is dropped by the
  agent: the command reports success and no download starts.
\<close>

lemma non_text_path_is_lost:
  assumes "\<not> utf8_valid p" "list_all token_char token" "request_ok token p" "ostate (reader_osc s) = Normal"
  shows "started (snd (reader_chunk (dl_osc token p) s)) = []"
proof -
  have t: "0x3B \<notin> set token" using assms(2) token_char_clean(2) by (auto simp: list_all_iff)
  have "split_semi (bstr ''dl;'' @ token @ 0x3B # p) = Some ([0x64, 0x6C], token @ 0x3B # p)"
    using split_semi_app [of "[0x64, 0x6C]" "token @ 0x3B # p"] by (simp add: bstr_dl)
  then have "parse_dl_osc (bstr ''dl;'' @ token @ 0x3B # p) = None"
    unfolding parse_dl_osc_def using split_semi_app [OF t, of p] assms(1)
    by (simp add: from_utf8_def)
  then show ?thesis
    unfolding reader_chunk_started(1) feed_dl_osc [OF assms(4,3)]
    by (simp add: dispatch_captured_def started_def)
qed

end
