(* ===== verification/Cert_Authority.thy ===== *)
theory Cert_Authority
  imports Agent_Pki
begin

text \<open>
  The agents' certificate authority (\<open>common/src/agent_pki/ca.rs\<close>) and the operator command that
  runs it (\<open>hub-admin/src/main.rs\<close>): \<open>init-ca\<close>, \<open>issue-cert\<close>, \<open>show-ca\<close>, the listings, the
  choice of the data directory and the dispatcher of the subcommands.

  The PEM files are a map from directory and file name to contents and mode; both writers create a
  temporary sibling that must not exist yet and rename it over the target. The crates \<open>rcgen\<close>,
  \<open>rustls-pemfile\<close> and the \<open>toml\<close> parser are parameters. What the system decides (clock, random
  bytes, generated keys, where a write fails) is \<open>ca_io\<close>. Integer arithmetic is that of the release
  profile, which wraps; adding durations panics on overflow.

  The properties: no command ever changes a file that is already there and private keys are never
  readable by others, a freshly issued certificate is admitted by the hub for its whole life, and the
  commands that only look leave everything as it was.
\<close>

section \<open>PEM files\<close>

type_synonym fpath = "bytes \<times> bytes"
type_synonym pem_fs = "fpath \<Rightarrow> (bytes \<times> nat) option"

definition AGENT_CA_CERT_FILE :: bytes where "AGENT_CA_CERT_FILE = bstr ''agent-ca.crt''"
definition AGENT_CA_KEY_FILE :: bytes where "AGENT_CA_KEY_FILE = bstr ''agent-ca.key''"
definition DEFAULT_CA_DAYS :: u64 where "DEFAULT_CA_DAYS = 365 * 10"
definition DEFAULT_LEAF_DAYS :: u64 where "DEFAULT_LEAF_DAYS = 365"

definition agent_ca_cert_path :: "bytes \<Rightarrow> fpath" where
  "agent_ca_cert_path data_dir = (data_dir, AGENT_CA_CERT_FILE)"

definition agent_ca_key_path :: "bytes \<Rightarrow> fpath" where
  "agent_ca_key_path data_dir = (data_dir, AGENT_CA_KEY_FILE)"

text \<open>The modes 0644 and 0600.\<close>

definition MODE_CERT :: nat where "MODE_CERT = 420"
definition MODE_KEY :: nat where "MODE_KEY = 384"

definition tmp_of :: "fpath \<Rightarrow> fpath" where
  "tmp_of p = (fst p, bstr ''.'' @ snd p @ bstr ''.tmp'')"

definition create_new_rename :: "save_fault \<Rightarrow> fpath \<Rightarrow> bytes \<Rightarrow> nat \<Rightarrow> pem_fs \<Rightarrow> bool \<times> pem_fs" where
  "create_new_rename k path contents mode fs =
     (let tmp = tmp_of path in
      if fs tmp \<noteq> None then (False, fs)
      else (case k of
              OpenFails \<Rightarrow> (False, fs)
            | WriteFails n \<Rightarrow> (False, fs(tmp \<mapsto> (take n contents, mode)))
            | SyncFails \<Rightarrow> (False, fs(tmp \<mapsto> (contents, mode)))
            | RenameFails \<Rightarrow> (False, fs(tmp \<mapsto> (contents, mode)))
            | SaveOk \<Rightarrow> (True, fs(path \<mapsto> (contents, mode)))))"

definition write_atomic :: "save_fault \<Rightarrow> fpath \<Rightarrow> bytes \<Rightarrow> nat \<Rightarrow> pem_fs \<Rightarrow> bool \<times> pem_fs" where
  "write_atomic = create_new_rename"

definition write_with_mode :: "save_fault \<Rightarrow> fpath \<Rightarrow> bytes \<Rightarrow> nat \<Rightarrow> pem_fs \<Rightarrow> bool \<times> pem_fs" where
  "write_with_mode = create_new_rename"

section \<open>Certificates and their library\<close>

datatype is_ca = CaUnconstrained | ExplicitNoCa
datatype key_usage = KeyCertSign | CrlSign | DigitalSignature | KeyAgreement
datatype ext_key_usage = ClientAuth

record cert_params =
  cp_is_ca :: is_ca
  cp_key_usages :: "key_usage list"
  cp_ext_key_usages :: "ext_key_usage list"
  cp_not_before :: int
  cp_not_after :: int
  cp_common_name :: bytes
  cp_sans :: "general_name list"
  cp_serial :: bytes

record rcgen =
  self_signed :: "cert_params \<Rightarrow> bytes \<Rightarrow> bytes option"
  signed_by :: "cert_params \<Rightarrow> bytes \<Rightarrow> cert_params \<Rightarrow> bytes \<Rightarrow> bytes option"
  cert_to_pem :: "bytes \<Rightarrow> bytes"
  key_to_pem :: "bytes \<Rightarrow> bytes"
  from_ca_cert_pem :: "bytes \<Rightarrow> cert_params option"
  key_from_pem :: "bytes \<Rightarrow> bytes option"
  pem_certs :: "bytes \<Rightarrow> bytes list option"
  ia5_ok :: "bytes \<Rightarrow> bool"

record ca_io =
  ci_clock :: int
  ci_keygen :: "bytes option"
  ci_random :: bytes
  ci_readable :: bool
  ci_mkdir :: bool
  ci_write_cert :: save_fault
  ci_write_key :: save_fault
  ci_cwd :: "bytes option"

datatype ca_error =
    CertExists | KeyExists | CreateDir | KeyGen | ClockBeforeEpoch | NotBeforeRange | NotAfterRange
  | SelfSign | WriteCert | WriteKey | ReadCaCert | ReadCaKey | ParseCaCert | ParseCaKey | NoCertificateEntry
  | NotOneCertificate nat | BadMachineId pki_error | UrnNotIa5 | SignLeaf

definition random_serial :: "bytes \<Rightarrow> bytes" where
  "random_serial rnd = (case rnd of [] \<Rightarrow> [] | b # bs \<Rightarrow> (b AND 0x7f) # bs)"

definition hex_digit :: "nat \<Rightarrow> u8" where
  "hex_digit n = (if n < 10 then word_of_nat (0x30 + n) else word_of_nat (0x61 + n - 10))"

definition serial_hex :: "bytes \<Rightarrow> bytes" where
  "serial_hex s = concat (map (\<lambda>b. [hex_digit (unat b div 16), hex_digit (unat b mod 16)]) s)"

text \<open>\<open>OffsetDateTime::from_unix_timestamp\<close> takes the years -9999 to 9999.\<close>

definition datetime_ok :: "int \<Rightarrow> bool" where
  "datetime_ok t \<longleftrightarrow> - 377705116800 \<le> t \<and> t \<le> 253402300799"

definition clock_window :: "u64 \<Rightarrow> int \<Rightarrow> ca_error fail + int \<times> int" where
  "clock_window days clock =
     (if clock < 0 then Inl (Err ClockBeforeEpoch)
      else let now = word_of_int clock :: u64; nb = sint (now - 60) in
        if \<not> datetime_ok nb then Inl (Err NotBeforeRange)
        else let span = days * 86400 in
          if unat now + unat span \<ge> 2 ^ 64 then Inl Panic
          else let na = sint (now + span) in
            if \<not> datetime_ok na then Inl (Err NotAfterRange) else Inr (nb, na))"

record ca_signer =
  cs_cert_der :: bytes
  cs_issuer_params :: cert_params
  cs_issuer_key :: bytes

record issued_cert =
  ic_cert_pem :: bytes
  ic_key_pem :: bytes
  ic_fingerprint :: bytes
  ic_serial_hex :: bytes
  ic_machine_id :: bytes
  ic_not_after_unix :: u64

definition ca_params :: "bytes \<Rightarrow> int \<times> int \<Rightarrow> cert_params" where
  "ca_params rnd window =
     \<lparr>cp_is_ca = CaUnconstrained, cp_key_usages = [KeyCertSign, CrlSign, DigitalSignature], cp_ext_key_usages = [],
      cp_not_before = fst window, cp_not_after = snd window, cp_common_name = bstr ''term-agent root CA'',
      cp_sans = [], cp_serial = random_serial rnd\<rparr>"

definition init_ca ::
    "rcgen \<Rightarrow> ca_io \<Rightarrow> bytes \<Rightarrow> u64 \<Rightarrow> pem_fs \<Rightarrow> (ca_error fail + ca_signer) \<times> pem_fs" where
  "init_ca lib io data_dir validity_days fs =
     (let cert_path = agent_ca_cert_path data_dir; key_path = agent_ca_key_path data_dir in
      if fs cert_path \<noteq> None then (Inl (Err CertExists), fs)
      else if fs key_path \<noteq> None then (Inl (Err KeyExists), fs)
      else if \<not> ci_mkdir io then (Inl (Err CreateDir), fs)
      else (case bindE (ok_orE (ci_keygen io) (Err KeyGen)) (\<lambda>key.
                 bindE (clock_window validity_days (ci_clock io)) (\<lambda>window.
                 let params = ca_params (ci_random io) window in
                 bindE (ok_orE (self_signed lib params key) (Err SelfSign)) (\<lambda>der.
                 Inr \<lparr>cs_cert_der = der, cs_issuer_params = params, cs_issuer_key = key\<rparr>))) of
              Inl e \<Rightarrow> (Inl e, fs)
            | Inr ca \<Rightarrow>
                let (ok1, fs1) = write_atomic (ci_write_cert io) cert_path (cert_to_pem lib (cs_cert_der ca)) MODE_CERT fs in
                if \<not> ok1 then (Inl (Err WriteCert), fs1)
                else let (ok2, fs2) = write_atomic (ci_write_key io) key_path (key_to_pem lib (cs_issuer_key ca)) MODE_KEY fs1 in
                  if \<not> ok2 then (Inl (Err WriteKey), fs2) else (Inr ca, fs2)))"

text \<open>\<open>load_pem_cert_chain\<close> of \<open>agent_pki/mod.rs\<close>: the entries, at least one.\<close>

definition load_pem_cert_chain :: "rcgen \<Rightarrow> bytes \<Rightarrow> bytes list option" where
  "load_pem_cert_chain lib pem =
     (case pem_certs lib pem of None \<Rightarrow> None | Some out \<Rightarrow> if out = [] then None else Some out)"

definition load_ca_cert :: "rcgen \<Rightarrow> bool \<Rightarrow> bytes \<Rightarrow> pem_fs \<Rightarrow> ca_error + bytes" where
  "load_ca_cert lib readable data_dir fs =
     (case fs (agent_ca_cert_path data_dir) of
        None \<Rightarrow> Inl ReadCaCert
      | Some (pem, _) \<Rightarrow>
          if \<not> readable then Inl ReadCaCert
          else bindE (ok_orE (load_pem_cert_chain lib pem) ParseCaCert) (\<lambda>chain.
            if length chain \<noteq> 1 then Inl (NotOneCertificate (length chain)) else Inr (hd chain)))"

definition read_to_string :: "bool \<Rightarrow> fpath \<Rightarrow> pem_fs \<Rightarrow> bytes option" where
  "read_to_string readable p fs =
     (case fs p of None \<Rightarrow> None | Some (b, _) \<Rightarrow> if readable then from_utf8 b else None)"

definition load_ca_signer :: "rcgen \<Rightarrow> bool \<Rightarrow> bytes \<Rightarrow> pem_fs \<Rightarrow> ca_error + ca_signer" where
  "load_ca_signer lib readable data_dir fs =
     bindE (ok_orE (read_to_string readable (agent_ca_cert_path data_dir) fs) ReadCaCert) (\<lambda>cert_pem.
     bindE (ok_orE (read_to_string readable (agent_ca_key_path data_dir) fs) ReadCaKey) (\<lambda>key_pem.
     bindE (ok_orE (from_ca_cert_pem lib cert_pem) ParseCaCert) (\<lambda>issuer_params.
     bindE (ok_orE (key_from_pem lib key_pem) ParseCaKey) (\<lambda>issuer_key.
     bindE (ok_orE (load_pem_cert_chain lib cert_pem) ParseCaCert) (\<lambda>chain.
     case chain of
       [] \<Rightarrow> Inl NoCertificateEntry
     | der # _ \<Rightarrow> Inr \<lparr>cs_cert_der = der, cs_issuer_params = issuer_params, cs_issuer_key = issuer_key\<rparr>)))))"

definition leaf_params :: "bytes \<Rightarrow> bytes \<Rightarrow> int \<times> int \<Rightarrow> cert_params" where
  "leaf_params machine_id rnd window =
     \<lparr>cp_is_ca = ExplicitNoCa, cp_key_usages = [DigitalSignature, KeyAgreement], cp_ext_key_usages = [ClientAuth],
      cp_not_before = fst window, cp_not_after = snd window, cp_common_name = machine_id,
      cp_sans = [GnUri (machine_urn machine_id)], cp_serial = random_serial rnd\<rparr>"

text \<open>\<open>rcgen_cert_from\<close> rebuilds the issuer's certificate by signing it again.\<close>

definition rcgen_cert_from :: "rcgen \<Rightarrow> cert_params \<Rightarrow> bytes \<Rightarrow> ca_error + bytes" where
  "rcgen_cert_from lib params key = ok_orE (self_signed lib params key) SelfSign"

definition issue_machine_cert ::
    "crypto \<Rightarrow> rcgen \<Rightarrow> ca_io \<Rightarrow> ca_signer \<Rightarrow> bytes \<Rightarrow> u64 \<Rightarrow> ca_error fail + issued_cert" where
  "issue_machine_cert cr lib io ca machine_id validity_days =
     bindE (map_errE (\<lambda>e. Err (BadMachineId e)) (validate_machine_id machine_id)) (\<lambda>_.
     if \<not> ia5_ok lib (machine_urn machine_id) then Inl (Err UrnNotIa5)
     else bindE (ok_orE (ci_keygen io) (Err KeyGen)) (\<lambda>leaf_key.
     bindE (clock_window validity_days (ci_clock io)) (\<lambda>window.
     let params = leaf_params machine_id (ci_random io) window in
     bindE (map_errE Err (rcgen_cert_from lib (cs_issuer_params ca) (cs_issuer_key ca))) (\<lambda>_.
     bindE (ok_orE (signed_by lib params leaf_key (cs_issuer_params ca) (cs_issuer_key ca)) (Err SignLeaf)) (\<lambda>cert_der.
     Inr \<lparr>ic_cert_pem = cert_to_pem lib cert_der, ic_key_pem = key_to_pem lib leaf_key,
          ic_fingerprint = cert_fingerprint cr cert_der, ic_serial_hex = serial_hex (cp_serial params),
          ic_machine_id = machine_id, ic_not_after_unix = word_of_int (max (snd window) 0)\<rparr>)))))"

section \<open>The commands\<close>

datatype cmd_error =
    Admin admin_error
  | BadDays
  | IdRequired
  | Ca ca_error
  | FileExists fpath
  | OutDir
  | WriteFile fpath
  | MissingSubcommand
  | UnknownSubcommand bytes
  | ReadCa

fun init_ca_args :: "bytes list \<Rightarrow> u64 \<Rightarrow> cmd_error + u64" where
  "init_ca_args [] days = Inr days"
| "init_ca_args [a] days =
     (if a = bstr ''--days'' then Inl (Admin (ExpectsValue a)) else Inl (Admin (UnknownFlag a)))"
| "init_ca_args (a # v # args) days =
     (if a = bstr ''--days'' then (case parse_u64 v of None \<Rightarrow> Inl BadDays | Some d \<Rightarrow> init_ca_args args d)
      else Inl (Admin (UnknownFlag a)))"

record issue_opts =
  io_id :: "bytes option"
  io_label :: "bytes option"
  io_out_dir :: "bytes option"
  io_days :: u64

definition issue_flag :: "bytes \<Rightarrow> bool" where
  "issue_flag a \<longleftrightarrow> a \<in> {bstr ''--id'', bstr ''--label'', bstr ''--out-dir'', bstr ''--days''}"

fun issue_args :: "bytes list \<Rightarrow> issue_opts \<Rightarrow> cmd_error + issue_opts" where
  "issue_args [] opts = Inr opts"
| "issue_args [a] opts = (if issue_flag a then Inl (Admin (ExpectsValue a)) else Inl (Admin (UnknownFlag a)))"
| "issue_args (a # v # args) opts =
     (if a = bstr ''--id'' then issue_args args (opts\<lparr>io_id := Some v\<rparr>)
      else if a = bstr ''--label'' then issue_args args (opts\<lparr>io_label := Some v\<rparr>)
      else if a = bstr ''--out-dir'' then issue_args args (opts\<lparr>io_out_dir := Some v\<rparr>)
      else if a = bstr ''--days''
        then (case parse_u64 v of None \<Rightarrow> Inl BadDays | Some d \<Rightarrow> issue_args args (opts\<lparr>io_days := d\<rparr>))
      else Inl (Admin (UnknownFlag a)))"

definition cmd_init_ca ::
    "rcgen \<Rightarrow> ca_io \<Rightarrow> bytes \<Rightarrow> bytes list \<Rightarrow> pem_fs \<Rightarrow> (cmd_error fail + ca_signer) \<times> pem_fs" where
  "cmd_init_ca lib io dir args fs =
     (case init_ca_args args DEFAULT_CA_DAYS of
        Inl e \<Rightarrow> (Inl (Err e), fs)
      | Inr days \<Rightarrow>
          if \<not> ci_mkdir io then (Inl (Err (Ca CreateDir)), fs)
          else apfst (map_errE (map_fail Ca)) (init_ca lib io dir days fs))"

text \<open>
  \<open>cmd_issue_cert\<close>: the certificate and its key are written first, then the entry is added to
  \<open>issued-certs.json\<close> under the lock.
\<close>

definition write_issued ::
    "ca_io \<Rightarrow> fpath \<Rightarrow> fpath \<Rightarrow> issued_cert \<Rightarrow> pem_fs \<Rightarrow> (cmd_error fail + unit) \<times> pem_fs" where
  "write_issued io cert_path key_path newcert fs =
     (if fs cert_path \<noteq> None then (Inl (Err (FileExists cert_path)), fs)
      else if fs key_path \<noteq> None then (Inl (Err (FileExists key_path)), fs)
      else if \<not> ci_mkdir io then (Inl (Err OutDir), fs)
      else let (ok1, fs1) = write_with_mode (ci_write_cert io) cert_path (ic_cert_pem newcert) MODE_CERT fs in
        if \<not> ok1 then (Inl (Err (WriteFile cert_path)), fs1)
        else let (ok2, fs2) = write_with_mode (ci_write_key io) key_path (ic_key_pem newcert) MODE_KEY fs1 in
          if \<not> ok2 then (Inl (Err (WriteFile key_path)), fs2) else (Inr (), fs2))"

definition issue_dir :: "ca_io \<Rightarrow> issue_opts \<Rightarrow> bytes" where
  "issue_dir io opts =
     (case io_out_dir opts of Some d \<Rightarrow> d | None \<Rightarrow> (case ci_cwd io of Some d \<Rightarrow> d | None \<Rightarrow> bstr ''.''))"

definition mint ::
    "crypto \<Rightarrow> rcgen \<Rightarrow> ca_io \<Rightarrow> bytes \<Rightarrow> bytes list \<Rightarrow> pem_fs
       \<Rightarrow> cmd_error fail + bytes \<times> bytes option \<times> bytes \<times> issued_cert" where
  "mint cr lib io dir args fs =
     bindE (map_errE Err (issue_args args \<lparr>io_id = None, io_label = None, io_out_dir = None, io_days = DEFAULT_LEAF_DAYS\<rparr>)) (\<lambda>opts.
     bindE (ok_orE (io_id opts) (Err IdRequired)) (\<lambda>i.
     let out_dir = issue_dir io opts in
     bindE (map_errE (\<lambda>e. Err (Ca e)) (load_ca_signer lib (ci_readable io) dir fs)) (\<lambda>signer.
     bindE (map_errE (map_fail Ca) (issue_machine_cert cr lib io signer i (io_days opts))) (\<lambda>newcert.
     Inr (i, io_label opts, out_dir, newcert)))))"

definition cmd_issue_cert ::
    "crypto \<Rightarrow> rcgen \<Rightarrow> issued_cert_store codec \<Rightarrow> admin_io \<Rightarrow> ca_io \<Rightarrow> bytes \<Rightarrow> bytes list
       \<Rightarrow> pem_fs \<times> data_dir \<Rightarrow> (cmd_error fail + unit) \<times> pem_fs \<times> data_dir" where
  "cmd_issue_cert cr lib cd aio io dir args st =
     (let (fs, dd) = st in
      case mint cr lib io dir args fs of
        Inl e \<Rightarrow> (Inl e, fs, dd)
      | Inr (i, label, out_dir, newcert) \<Rightarrow>
          let cert_path = (out_dir, i @ bstr ''.crt''); key_path = (out_dir, i @ bstr ''.key'');
              (res, fs1) = write_issued io cert_path key_path newcert fs in
          (case res of
             Inl e \<Rightarrow> (Inl e, fs1, dd)
           | Inr _ \<Rightarrow>
               let (res, dd1) = issue_cert_entry cd aio i (ic_fingerprint newcert) (ic_serial_hex newcert)
                     (ic_not_after_unix newcert) label dd
               in (map_errE (\<lambda>e. Err (Admin e)) res, fs1, dd1)))"

text \<open>The commands that only print. \<open>{:<n}\<close> pads to a number of characters.\<close>

definition pad_to :: "nat \<Rightarrow> bytes \<Rightarrow> bytes" where
  "pad_to w s = s @ replicate (w - length (utf8_chars s)) 0x20"

definition line :: "bytes \<Rightarrow> bytes" where
  "line s = s @ [0x0A]"

definition cmd_list :: "credential_store codec \<Rightarrow> bool \<Rightarrow> data_dir \<Rightarrow> admin_error + bytes" where
  "cmd_list cd readable dd =
     bindE (map_errE StoreFailed (cred_load cd readable (dd_credentials dd))) (\<lambda>store.
       if credentials store = [] then Inr (line (bstr ''(no credentials registered)''))
       else Inr (concat (map (\<lambda>c. line (sc_label c @ [0x09] @ sc_added_at c @ [0x09] @ credential_id_b64 c))
                             (credentials store))))"

definition cert_line :: "issued_cert_entry \<Rightarrow> bytes" where
  "cert_line c =
     line (pad_to 32 (ce_machine_id c) @ pad_to 24 (ce_issued_at c) @
           pad_to 14 (concat (take 12 (utf8_chars (ce_serial_hex c)))) @ pad_to 64 (ce_fingerprint c))"

definition cmd_list_certs :: "issued_cert_store codec \<Rightarrow> bool \<Rightarrow> data_dir \<Rightarrow> admin_error + bytes" where
  "cmd_list_certs cd readable dd =
     bindE (map_errE StoreFailed (cert_load cd readable (dd_certs dd))) (\<lambda>store.
       if certs store = [] then Inr (line (bstr ''(no agent certs issued)''))
       else Inr (line (pad_to 32 (bstr ''machine_id'') @ pad_to 24 (bstr ''issued_at'') @
                       pad_to 14 (bstr ''serial(8)'') @ pad_to 64 (bstr ''fingerprint'')) @
                 concat (map cert_line (certs store))))"

definition cmd_show_ca :: "bool \<Rightarrow> bytes \<Rightarrow> pem_fs \<Rightarrow> cmd_error + bytes" where
  "cmd_show_ca readable dir fs = ok_orE (read_to_string readable (agent_ca_cert_path dir) fs) ReadCa"

definition cmd_secret_info ::
    "crypto \<Rightarrow> admin_io \<Rightarrow> bytes \<Rightarrow> data_dir \<Rightarrow> (admin_error + bytes) \<times> data_dir" where
  "cmd_secret_info cr io dir dd =
     (let (secret, sf) = load_or_create_secret (io_readable io) (io_secret io) (io_random io) (dd_secret dd)
      in (bindE (map_errE SecretFailed secret) (\<lambda>key.
            Inr (line (bstr ''data_dir: '' @ dir) @
                 line (bstr ''secret_fingerprint: '' @ b64_encode cr (take 8 (sha256 cr key))))),
          dd\<lparr>dd_secret := sf\<rparr>))"

section \<open>The dispatcher\<close>

definition DEFAULT_HUB_CONFIG :: bytes where "DEFAULT_HUB_CONFIG = bstr ''/etc/term-hub/hub.toml''"
definition DEFAULT_DATA_DIR :: bytes where "DEFAULT_DATA_DIR = bstr ''/var/lib/term-hub''"

text \<open>
  \<open>data_dir()\<close>: \<open>toml\<close> gives the optional key of a configuration that parses, and \<open>files\<close> the text of the
  files that can be read.
\<close>

definition data_dir_path ::
    "(bytes \<Rightarrow> bytes option option) \<Rightarrow> bytes option \<Rightarrow> bytes option \<Rightarrow> (bytes \<Rightarrow> bytes option) \<Rightarrow> bytes" where
  "data_dir_path toml env_data_dir env_config files =
     (case env_data_dir of
        Some d \<Rightarrow> d
      | None \<Rightarrow>
          (let cfg_path = (case env_config of Some p \<Rightarrow> p | None \<Rightarrow> DEFAULT_HUB_CONFIG) in
           case files cfg_path of
             None \<Rightarrow> DEFAULT_DATA_DIR
           | Some s \<Rightarrow>
               (case toml s of
                  None \<Rightarrow> DEFAULT_DATA_DIR
                | Some None \<Rightarrow> DEFAULT_DATA_DIR
                | Some (Some d) \<Rightarrow> d)))"

record admin_libs =
  al_crypto :: crypto
  al_envelope :: envelope_lib
  al_creds :: "credential_store codec"
  al_certs :: "issued_cert_store codec"
  al_rcgen :: rcgen

type_synonym admin_state = "pem_fs \<times> data_dir"

definition lift_store ::
    "(admin_error + unit) \<times> data_dir \<Rightarrow> pem_fs \<Rightarrow> (cmd_error fail + bytes) \<times> admin_state" where
  "lift_store r fs = (map_errE (\<lambda>e. Err (Admin e)) (bindE (fst r) (\<lambda>_. Inr [])), fs, snd r)"

definition run_command ::
    "admin_libs \<Rightarrow> admin_io \<Rightarrow> ca_io \<Rightarrow> bytes \<Rightarrow> bytes list \<Rightarrow> admin_state \<Rightarrow> (cmd_error fail + bytes) \<times> admin_state" where
  "run_command l aio io dir args st =
     (let (fs, dd) = st in
      case args of
        [] \<Rightarrow> (Inl (Err MissingSubcommand), st)
      | cmd # rest \<Rightarrow>
          if cmd = bstr ''add-passkey'' then lift_store (cmd_add (al_crypto l) (al_envelope l) (al_creds l) aio rest dd) fs
          else if cmd = bstr ''list'' then (map_errE (\<lambda>e. Err (Admin e)) (cmd_list (al_creds l) (io_readable aio) dd), st)
          else if cmd = bstr ''remove'' then lift_store (cmd_remove (al_creds l) aio rest dd) fs
          else if cmd = bstr ''secret-info''
            then (let (res, dd1) = cmd_secret_info (al_crypto l) aio dir dd in (map_errE (\<lambda>e. Err (Admin e)) res, fs, dd1))
          else if cmd = bstr ''init-ca''
            then (let (res, fs1) = cmd_init_ca (al_rcgen l) io dir rest fs in (bindE res (\<lambda>_. Inr []), fs1, dd))
          else if cmd = bstr ''issue-cert''
            then (let (res, st1) = cmd_issue_cert (al_crypto l) (al_rcgen l) (al_certs l) aio io dir rest st
                  in (bindE res (\<lambda>_. Inr []), st1))
          else if cmd = bstr ''list-certs'' then (map_errE (\<lambda>e. Err (Admin e)) (cmd_list_certs (al_certs l) (io_readable aio) dd), st)
          else if cmd = bstr ''revoke-cert'' then lift_store (cmd_revoke_cert (al_certs l) aio rest dd) fs
          else if cmd = bstr ''show-ca'' then (map_errE Err (cmd_show_ca (ci_readable io) dir fs), st)
          else if cmd \<in> {bstr ''help'', bstr ''-h'', bstr ''--help''} then (Inr [], st)
          else (Inl (Err (UnknownSubcommand cmd)), st))"

text \<open>
  \<open>run\<close> and \<open>main\<close>: the arguments are collected first, which panics on one that is not Unicode. The
  confirmations that the storing commands print are left out of the output.
\<close>

definition hub_admin ::
    "admin_libs \<Rightarrow> admin_io \<Rightarrow> ca_io \<Rightarrow> bytes \<Rightarrow> bytes list \<Rightarrow> admin_state \<Rightarrow> (cmd_error fail + bytes) \<times> admin_state" where
  "hub_admin l aio io dir argv st =
     (if \<not> list_all utf8_valid argv then (Inl Panic, st) else run_command l aio io dir (drop 1 argv) st)"

definition exit_code :: "cmd_error fail + bytes \<Rightarrow> nat" where
  "exit_code res = (case res of Inr _ \<Rightarrow> 0 | Inl (Err _) \<Rightarrow> 1 | Inl Panic \<Rightarrow> 101)"

section \<open>Files\<close>

text \<open>One write never touches a file that is there already, except the target of the rename.\<close>

lemma create_new_rename_keeps:
  assumes "create_new_rename k path contents mode fs = (r, fs')" "fs path = None" "fs p = Some x"
  shows "fs' p = Some x"
proof (cases "fs (tmp_of path)")
  case None
  then have "p \<noteq> path" "p \<noteq> tmp_of path" using assms(2,3) by auto
  with None assms(1,3) show ?thesis by (auto simp: create_new_rename_def Let_def split: save_fault.splits)
next
  case (Some y)
  with assms(1,3) show ?thesis by (simp add: create_new_rename_def)
qed

lemma create_new_rename_new:
  assumes "create_new_rename k path contents mode fs = (r, fs')" "fs p = None" "fs' p = Some (c, m)"
  shows "m = mode \<and> p \<in> {path, tmp_of path}"
  using assms by (auto simp: create_new_rename_def Let_def split: if_splits save_fault.splits)

lemma create_new_rename_done:
  "create_new_rename k path contents mode fs = (True, fs') \<Longrightarrow> fs' = fs(path \<mapsto> (contents, mode))"
  by (auto simp: create_new_rename_def Let_def split: if_splits save_fault.splits)

definition key_file :: "fpath \<Rightarrow> bool" where
  "key_file p \<longleftrightarrow> (\<exists>n. snd p = n @ bstr ''.key'' \<or> snd p = n @ bstr ''.key.tmp'')"

lemma key_file_names:
  "\<not> key_file (d, n @ bstr ''.crt'')" "\<not> key_file (tmp_of (d, n @ bstr ''.crt''))"
  "\<not> key_file (agent_ca_cert_path d)" "\<not> key_file (tmp_of (agent_ca_cert_path d))"
  by (auto simp: key_file_def tmp_of_def agent_ca_cert_path_def AGENT_CA_CERT_FILE_def bstr_def of_char_def
      dest!: arg_cong [of _ _ rev])

text \<open>What a command may do to the PEM files.\<close>

definition files_safe :: "pem_fs \<Rightarrow> pem_fs \<Rightarrow> bool" where
  "files_safe fs fs' \<longleftrightarrow> (\<forall>p x. fs p = Some x \<longrightarrow> fs' p = Some x) \<and>
     (\<forall>p c m. fs p = None \<longrightarrow> fs' p = Some (c, m) \<longrightarrow> key_file p \<longrightarrow> m = MODE_KEY)"

lemma files_safe_refl [simp]: "files_safe fs fs"
  by (simp add: files_safe_def)

lemma files_safe_trans: "files_safe f g \<Longrightarrow> files_safe g h \<Longrightarrow> files_safe f h"
  unfolding files_safe_def by (metis not_Some_eq prod.exhaust)

lemma create_new_rename_safe:
  assumes "create_new_rename k path contents mode fs = (r, fs')" "fs path = None"
    and "mode = MODE_KEY \<or> \<not> key_file path \<and> \<not> key_file (tmp_of path)"
  shows "files_safe fs fs'"
  unfolding files_safe_def
  using create_new_rename_keeps [OF assms(1,2)] create_new_rename_new [OF assms(1)] assms(3) by blast

text \<open>The pattern of \<open>init_ca\<close> and \<open>cmd_issue_cert\<close>: two targets that are checked first and differ.\<close>

lemma two_writes_safe:
  assumes "fs cp = None" "fs kp = None" "kp \<noteq> cp" "kp \<noteq> tmp_of cp" "\<not> key_file cp" "\<not> key_file (tmp_of cp)"
    and "create_new_rename k1 cp c MODE_CERT fs = (r1, fs1)" "create_new_rename k2 kp d MODE_KEY fs1 = (r2, fs2)"
  shows "files_safe fs fs1" "files_safe fs fs2"
proof -
  show 1: "files_safe fs fs1" by (rule create_new_rename_safe [OF assms(7,1)]) (use assms(5,6) in blast)
  have "fs1 kp = None"
  proof (rule ccontr)
    assume "fs1 kp \<noteq> None"
    then obtain c m where "fs1 kp = Some (c, m)" by auto
    with create_new_rename_new [OF assms(7,2)] assms(3,4) show False by blast
  qed
  then have "files_safe fs1 fs2" by (rule create_new_rename_safe [OF assms(8)]) simp
  with 1 show "files_safe fs fs2" by (rule files_safe_trans)
qed

lemma ca_paths_differ:
  "agent_ca_key_path d \<noteq> agent_ca_cert_path d" "agent_ca_key_path d \<noteq> tmp_of (agent_ca_cert_path d)"
  "(d, n @ bstr ''.key'') \<noteq> (d, n @ bstr ''.crt'')" "(d, n @ bstr ''.key'') \<noteq> tmp_of (d, n @ bstr ''.crt'')"
  by (auto simp: agent_ca_key_path_def agent_ca_cert_path_def tmp_of_def AGENT_CA_CERT_FILE_def AGENT_CA_KEY_FILE_def
      bstr_def of_char_def dest!: arg_cong [of _ _ rev])

lemma init_ca_safe: "files_safe fs (snd (init_ca lib io d days fs))"
proof (cases "fs (agent_ca_cert_path d) \<noteq> None \<or> fs (agent_ca_key_path d) \<noteq> None \<or> \<not> ci_mkdir io")
  case True
  then show ?thesis by (auto simp: init_ca_def Let_def)
next
  case False
  then have "fs (agent_ca_cert_path d) = None" "fs (agent_ca_key_path d) = None" by blast+
  note safe = two_writes_safe [OF this ca_paths_differ(1,2) key_file_names(3,4)]
  show ?thesis
    using False unfolding init_ca_def Let_def write_atomic_def
    by (auto split: sum.splits prod.splits intro: safe)
qed

lemma write_issued_safe: "files_safe fs (snd (write_issued io (d, i @ bstr ''.crt'') (d, i @ bstr ''.key'') c fs))"
proof (cases "fs (d, i @ bstr ''.crt'') \<noteq> None \<or> fs (d, i @ bstr ''.key'') \<noteq> None \<or> \<not> ci_mkdir io")
  case True
  then show ?thesis by (auto simp: write_issued_def Let_def)
next
  case False
  then have "fs (d, i @ bstr ''.crt'') = None" "fs (d, i @ bstr ''.key'') = None" by blast+
  note safe = two_writes_safe [OF this ca_paths_differ(3,4) key_file_names(1,2)]
  show ?thesis
    using False unfolding write_issued_def Let_def write_with_mode_def
    by (auto split: prod.splits intro: safe)
qed

lemma cmd_issue_safe: "files_safe (fst st) (fst (snd (cmd_issue_cert cr lib cd aio io d args st)))"
proof -
  have w: "write_issued io (o1, i @ bstr ''.crt'') (o1, i @ bstr ''.key'') c fs = (r, fs1) \<Longrightarrow> files_safe fs fs1"
    for o1 i c fs r fs1
    using write_issued_safe [of fs io o1 i c] by simp
  show ?thesis
    by (cases st) (auto simp: cmd_issue_cert_def Let_def split: sum.splits prod.splits dest: w)
qed

lemma hub_admin_safe: "files_safe (fst st) (fst (snd (hub_admin l aio io d argv st)))"
proof -
  have i: "files_safe fs (snd (cmd_init_ca lib io d args fs))" for lib args fs
    by (auto simp: cmd_init_ca_def apfst_def map_prod_def split_beta init_ca_safe split: sum.splits)
  obtain fs dd where st: "st = (fs, dd)" by (cases st)
  show ?thesis
  proof (cases "\<exists>rest. drop 1 argv = bstr ''init-ca'' # rest \<or> drop 1 argv = bstr ''issue-cert'' # rest")
    case True
    then show ?thesis
      using i cmd_issue_safe [of st]
      by (auto simp: hub_admin_def run_command_def Let_def split_beta st bstr_def)
  next
    case False
    then show ?thesis
      by (auto simp: hub_admin_def run_command_def Let_def split_beta st lift_store_def split: list.splits)
  qed
qed

section \<open>Time windows\<close>

lemma sint_u64: "0 \<le> k \<Longrightarrow> k < 2 ^ 63 \<Longrightarrow> sint (word_of_int k :: u64) = k"
  by (simp add: sint_sbintrunc' signed_take_bit_int_eq_self)

text \<open>For validities that stay within the calendar of the library the window is the one asked for.\<close>

lemma clock_window_value:
  assumes "60 \<le> clock" "clock + uint days * 86400 \<le> 253402300799"
  shows "clock_window days clock = Inr (clock - 60, clock + uint days * 86400)"
proof -
  have p: "(2 :: int) ^ 62 = 4611686018427387904" by simp
  have b: "0 \<le> uint days" "uint days * 86400 < 2 ^ 62" "clock < 2 ^ 62"
    using assms uint_ge_0 [of days] unfolding p by linarith+
  have w: "word_of_int clock - 60 = (word_of_int (clock - 60) :: u64)"
    "word_of_int clock + days * 86400 = (word_of_int (clock + uint days * 86400) :: u64)"
    by (simp_all add: wi_hom_syms)
  have "unat (days * 86400) = nat (uint days * 86400)" "unat (word_of_int clock :: u64) = nat clock"
    using b assms(1) by (simp_all add: unat_eq_nat_uint uint_word_ariths uint_word_of_int)
  then have o: "unat (word_of_int clock :: u64) + unat (days * 86400) < 2 ^ 64" using b assms(1) by simp
  have s: "sint (word_of_int (clock - 60) :: u64) = clock - 60"
    "sint (word_of_int (clock + uint days * 86400) :: u64) = clock + uint days * 86400"
    by (rule sint_u64; use assms(1) b in simp)+
  have "datetime_ok (clock - 60)" "datetime_ok (clock + uint days * 86400)"
    using assms b(1) unfolding datetime_ok_def by linarith+
  then show ?thesis
    using assms(1) o unfolding clock_window_def Let_def w s by simp
qed

lemma clock_window_range:
  assumes "clock_window days clock = Inr (nb, na)"
  shows "na \<le> 253402300799"
  using assms by (auto simp: clock_window_def Let_def datetime_ok_def split: if_splits)

text \<open>
  The product of the days and the seconds of a day wraps: some absurdly long validities give a
  certificate that expires within the day.
\<close>

lemma clock_window_wraps: "clock_window 213503982334602 1000000000 = Inr (999999940, 1000061184)"
proof -
  have m: "(213503982334602 :: u64) * 86400 = 61184" by simp
  have s: "sint (999999940 :: u64) = 999999940" "sint (1000061184 :: u64) = 1000061184"
    using sint_u64 [of 999999940] sint_u64 [of 1000061184] by simp_all
  show ?thesis unfolding clock_window_def Let_def m by (simp add: datetime_ok_def s)
qed

section \<open>Issued certificates\<close>

text \<open>
  What is relied on of the libraries for certificates signed with the agents' CA: a client
  certificate parses to the names it was made with, and chains to the CA while it is valid.
\<close>

definition issuer_trusted :: "rcgen \<Rightarrow> pki \<Rightarrow> cert_params \<Rightarrow> bytes \<Rightarrow> bool" where
  "issuer_trusted lib pk ip ik \<longleftrightarrow>
     (\<forall>p k der. signed_by lib p k ip ik = Some der \<and> cp_is_ca p = ExplicitNoCa \<and> ClientAuth \<in> set (cp_ext_key_usages p) \<longrightarrow>
        (\<exists>cert. x509_parse pk der = Some cert \<and> xc_san cert = Some (Some (cp_sans p))) \<and>
        (\<forall>ints now. cp_not_before p \<le> uint now \<and> uint now \<le> cp_not_after p \<longrightarrow>
           rustls_chain pk der ints now \<and> webpki_chain pk der now))"

definition mint_opts :: "bytes list \<Rightarrow> cmd_error + issue_opts" where
  "mint_opts args = issue_args args \<lparr>io_id = None, io_label = None, io_out_dir = None, io_days = DEFAULT_LEAF_DAYS\<rparr>"

lemma issue_machine_cert_D:
  assumes "issue_machine_cert cr lib io ca i days = Inr c"
  obtains key nb na der where "clock_window days (ci_clock io) = Inr (nb, na)" "validate_machine_id i = Inr ()"
    "ci_keygen io = Some key"
    "signed_by lib (leaf_params i (ci_random io) (nb, na)) key (cs_issuer_params ca) (cs_issuer_key ca) = Some der"
    "ic_cert_pem c = cert_to_pem lib der" "ic_key_pem c = key_to_pem lib key" "ic_machine_id c = i"
    "ic_fingerprint c = cert_fingerprint cr der" "ic_not_after_unix c = word_of_int (max na 0)"
  using assms
  by (auto simp: issue_machine_cert_def result_simps Let_def ok_orE_def split: if_splits option.splits)

lemma leaf_identity:
  assumes "issuer_trusted lib pk ip ik" "signed_by lib (leaf_params i rnd (nb, na)) key ip ik = Some der"
    "validate_machine_id i = Inr ()"
  shows "cert_identity pk der i" "nb \<le> uint now \<Longrightarrow> uint now \<le> na \<Longrightarrow> rustls_chain pk der ints now"
proof -
  let ?p = "leaf_params i rnd (nb, na)"
  have p: "cp_is_ca ?p = ExplicitNoCa" "ClientAuth \<in> set (cp_ext_key_usages ?p)" "cp_sans ?p = [GnUri (machine_urn i)]"
    "cp_not_before ?p = nb" "cp_not_after ?p = na" by (simp_all add: leaf_params_def)
  have t: "(\<exists>cert. x509_parse pk der = Some cert \<and> xc_san cert = Some (Some (cp_sans ?p))) \<and>
        (\<forall>ints now. cp_not_before ?p \<le> uint now \<and> uint now \<le> cp_not_after ?p \<longrightarrow>
           rustls_chain pk der ints now \<and> webpki_chain pk der now)"
    using assms(1,2) p(1,2) unfolding issuer_trusted_def by blast
  have "urns [GnUri (machine_urn i)] = [i]"
    by (simp add: machine_urn_def strip_prefix_def del: strip_prefix_iff)
  with t assms(3) show "cert_identity pk der i" unfolding cert_identity_def p by blast
  show "nb \<le> uint now \<Longrightarrow> uint now \<le> na \<Longrightarrow> rustls_chain pk der ints now" using t unfolding p by blast
qed

lemma issue_cert_entry_D:
  assumes "codec_ok cd" "issue_cert_entry cd aio i fp sh na label dd = (Inr (), dd')"
  obtains s e where "cert_load cd True (dd_certs dd') = Inr (s\<lparr>certs := certs s @ [e]\<rparr>)"
    "\<forall>c \<in> set (certs s). ce_fingerprint c \<noteq> fp" "ce_machine_id e = i" "ce_fingerprint e = fp"
    "ce_not_after_unix e = na"
proof -
  let ?e = "\<lparr>ce_machine_id = i, ce_fingerprint = fp, ce_serial_hex = sh, ce_issued_at = iso8601_now (io_stamp aio),
      ce_not_after_unix = na, ce_label = label\<rparr>"
  obtain f where u: "update_certs cd aio (track_cert ?e) (dd_certs dd) = (Inr (), f)" "dd' = dd\<lparr>dd_certs := f\<rparr>"
    using assms(2) by (cases "update_certs cd aio (track_cert ?e) (dd_certs dd)") (auto simp: issue_cert_entry_def)
  show thesis
    using assms(1) u(1) [unfolded update_certs_def]
  proof (cases rule: agent_certs.update_cases)
    case same
    then show ?thesis by (auto simp: track_cert_def split: if_splits)
  next
    case (changed s s')
    then show ?thesis
      using u(2) that [of s ?e] by (auto simp: track_cert_def split: if_splits)
  qed
qed

lemma find_fingerprint_appended:
  "\<forall>x \<in> set xs. ce_fingerprint x \<noteq> fp \<Longrightarrow> ce_fingerprint e = fp \<Longrightarrow> find (\<lambda>c. ce_fingerprint c = fp) (xs @ [e]) = Some e"
  by (induction xs) auto

lemma write_issued_D:
  assumes "write_issued io cp kp c fs = (Inr (), fs1)"
  obtains fs2 where "create_new_rename (ci_write_cert io) cp (ic_cert_pem c) MODE_CERT fs = (True, fs2)"
    "create_new_rename (ci_write_key io) kp (ic_key_pem c) MODE_KEY fs2 = (True, fs1)"
  using assms unfolding write_issued_def write_with_mode_def Let_def by (simp split: if_splits prod.splits)

text \<open>A successful \<open>issue-cert\<close>, taken apart.\<close>

lemma cmd_issue_cert_D:
  assumes "cmd_issue_cert cr lib cd aio io d args (fs, dd) = (Inr (), fs', dd')"
  obtains opts i signer c where "mint_opts args = Inr opts" "io_id opts = Some i"
    "load_ca_signer lib (ci_readable io) d fs = Inr signer"
    "issue_machine_cert cr lib io signer i (io_days opts) = Inr c"
    "fs' (issue_dir io opts, i @ bstr ''.crt'') = Some (ic_cert_pem c, MODE_CERT)"
    "fs' (issue_dir io opts, i @ bstr ''.key'') = Some (ic_key_pem c, MODE_KEY)"
    "issue_cert_entry cd aio i (ic_fingerprint c) (ic_serial_hex c) (ic_not_after_unix c) (io_label opts) dd = (Inr (), dd')"
proof -
  obtain i label out_dir c fs1 where m: "mint cr lib io d args fs = Inr (i, label, out_dir, c)"
    "write_issued io (out_dir, i @ bstr ''.crt'') (out_dir, i @ bstr ''.key'') c fs = (Inr (), fs1)" "fs1 = fs'"
    "issue_cert_entry cd aio i (ic_fingerprint c) (ic_serial_hex c) (ic_not_after_unix c) label dd = (Inr (), dd')"
    using assms by (auto simp: cmd_issue_cert_def Let_def split: sum.splits prod.splits)
  obtain opts signer where o: "mint_opts args = Inr opts" "io_id opts = Some i" "label = io_label opts"
    "load_ca_signer lib (ci_readable io) d fs = Inr signer" "issue_machine_cert cr lib io signer i (io_days opts) = Inr c" "out_dir = issue_dir io opts"
    using m(1) unfolding mint_def mint_opts_def [symmetric] Let_def by (auto simp: bindE_Inr_iff)
  obtain fs2 where w: "create_new_rename (ci_write_cert io) (out_dir, i @ bstr ''.crt'') (ic_cert_pem c) MODE_CERT fs = (True, fs2)"
    "create_new_rename (ci_write_key io) (out_dir, i @ bstr ''.key'') (ic_key_pem c) MODE_KEY fs2 = (True, fs')"
    using write_issued_D [OF m(2)] m(3) by metis
  have "fs' (out_dir, i @ bstr ''.crt'') = Some (ic_cert_pem c, MODE_CERT)"
    "fs' (out_dir, i @ bstr ''.key'') = Some (ic_key_pem c, MODE_KEY)"
    using create_new_rename_done [OF w(1)] create_new_rename_done [OF w(2)] by (simp_all add: bstr_def of_char_def)
  with that [OF o(1,2,4,5)] m(4) o(3,6) show thesis by blast
qed

section \<open>Properties\<close>

text \<open>
  A certificate that \<open>issue-cert\<close> reports as issued works: once the hub has reloaded its list, the
  TLS listener admits it as the machine it was issued for throughout its validity; the certificate
  file holds it, and the file with its key can be read by its owner only.
\<close>

theorem issued_cert_admitted:
  assumes "codec_ok cd" "cmd_issue_cert cr lib cd aio io d args (fs, dd) = (Inr (), fs', dd')"
    and "\<And>signer. load_ca_signer lib (ci_readable io) d fs = Inr signer \<Longrightarrow>
      issuer_trusted lib pk (cs_issuer_params signer) (cs_issuer_key signer)"
  shows "\<exists>opts i der key nb na.
    mint_opts args = Inr opts \<and> io_id opts = Some i \<and> clock_window (io_days opts) (ci_clock io) = Inr (nb, na) \<and>
    fs' (issue_dir io opts, i @ bstr ''.crt'') = Some (cert_to_pem lib der, MODE_CERT) \<and>
    fs' (issue_dir io opts, i @ bstr ''.key'') = Some (key_to_pem lib key, MODE_KEY) \<and> cert_identity pk der i \<and>
    (\<forall>ints now snapshot. nb \<le> uint now \<and> uint now \<le> na \<longrightarrow>
       verify_client_cert cr pk (reload_issued_certs cd True (dd_certs dd') snapshot) der ints now = Inr ())"
proof -
  obtain opts i signer c where 1: "mint_opts args = Inr opts" "io_id opts = Some i"
    "load_ca_signer lib (ci_readable io) d fs = Inr signer" "issue_machine_cert cr lib io signer i (io_days opts) = Inr c"
    "fs' (issue_dir io opts, i @ bstr ''.crt'') = Some (ic_cert_pem c, MODE_CERT)"
    "fs' (issue_dir io opts, i @ bstr ''.key'') = Some (ic_key_pem c, MODE_KEY)"
    "issue_cert_entry cd aio i (ic_fingerprint c) (ic_serial_hex c) (ic_not_after_unix c) (io_label opts) dd = (Inr (), dd')"
    using cmd_issue_cert_D [OF assms(2)] by metis
  obtain key nb na der where 2: "clock_window (io_days opts) (ci_clock io) = Inr (nb, na)" "validate_machine_id i = Inr ()"
    "signed_by lib (leaf_params i (ci_random io) (nb, na)) key (cs_issuer_params signer) (cs_issuer_key signer) = Some der"
    "ic_cert_pem c = cert_to_pem lib der" "ic_fingerprint c = cert_fingerprint cr der"
    "ic_not_after_unix c = word_of_int (max na 0)" "ic_key_pem c = key_to_pem lib key"
    using issue_machine_cert_D [OF 1(4)] by metis
  obtain s e where 3: "cert_load cd True (dd_certs dd') = Inr (s\<lparr>certs := certs s @ [e]\<rparr>)"
    "\<forall>x \<in> set (certs s). ce_fingerprint x \<noteq> cert_fingerprint cr der" "ce_machine_id e = i"
    "ce_fingerprint e = cert_fingerprint cr der" "ce_not_after_unix e = word_of_int (max na 0)"
    using issue_cert_entry_D [OF assms(1) 1(7)] unfolding 2(5,6) by metis
  note trusted = leaf_identity [OF assms(3) [OF 1(3)] 2(3,2)]
  have f: "find_by_fingerprint (s\<lparr>certs := certs s @ [e]\<rparr>) (cert_fingerprint cr der) = Some e"
    using find_fingerprint_appended [OF 3(2,4)] by (simp add: find_by_fingerprint_def)
  have "verify_client_cert cr pk (reload_issued_certs cd True (dd_certs dd') snapshot) der ints now = Inr ()"
    if w: "nb \<le> uint now" "uint now \<le> na" for ints now snapshot
  proof -
    have "uint (word_of_int (max na 0) :: u64) = max na 0"
      using clock_window_range [OF 2(1)] by (simp add: uint_word_of_int)
    then have "now \<le> word_of_int (max na 0)" using w(2) by (simp add: word_le_def)
    then show ?thesis
      unfolding verify_client_cert_iff reload_issued_certs_def 3(1)
      using trusted(1) trusted(2) [OF w] f 3(3,5) by auto
  qed
  with 1(1,2,5,6) 2(1,4,7) trusted(1) show ?thesis by metis
qed

text \<open>The commands, run one after the other, each with its own arguments and its own luck.\<close>

type_synonym invocation = "admin_io \<times> ca_io \<times> bytes \<times> bytes list"

fun admin_runs :: "admin_libs \<Rightarrow> invocation list \<Rightarrow> admin_state \<Rightarrow> admin_state" where
  "admin_runs l [] st = st"
| "admin_runs l ((aio, io, d, argv) # invs) st = admin_runs l invs (snd (hub_admin l aio io d argv st))"

text \<open>
  C29. However the operator's commands are run, one after the other and interrupted anywhere, none changes a
  PEM file that is already there (a second \<open>init-ca\<close> cannot replace the CA, no certificate or key is ever
  overwritten), and every key file they create, its temporary sibling included, has mode 0600.
\<close>

theorem pem_files_safe:
  shows "(fs p = Some x \<longrightarrow> fst (admin_runs l invs (fs, dd)) p = Some x) \<and>
    (fs p = None \<longrightarrow> fst (admin_runs l invs (fs, dd)) p = Some (c, m) \<longrightarrow> key_file p \<longrightarrow> m = MODE_KEY)"
proof -
  have "files_safe (fst st) (fst (admin_runs l invs st))" for st
    by (induction l invs st rule: admin_runs.induct) (auto intro: files_safe_trans hub_admin_safe)
  from this [of "(fs, dd)"] show ?thesis unfolding files_safe_def fst_conv by blast
qed

text \<open>
  The frame of every command: credentials change only in \<open>add-passkey\<close> and \<open>remove\<close>, the list of
  certificates only in \<open>issue-cert\<close> and \<open>revoke-cert\<close>, PEM files only in \<open>init-ca\<close> and \<open>issue-cert\<close>, the secret
  only in \<open>add-passkey\<close> and \<open>secret-info\<close>; the other commands, and an unknown or missing one, change nothing.
\<close>

theorem admin_frame:
  assumes "hub_admin l aio io d argv (fs, dd) = (res, fs', dd')"
  shows "(dd_credentials dd' \<noteq> dd_credentials dd \<longrightarrow> argv ! 1 \<in> {bstr ''add-passkey'', bstr ''remove''}) \<and>
    (dd_certs dd' \<noteq> dd_certs dd \<longrightarrow> argv ! 1 \<in> {bstr ''issue-cert'', bstr ''revoke-cert''}) \<and>
    (fs' \<noteq> fs \<longrightarrow> argv ! 1 \<in> {bstr ''init-ca'', bstr ''issue-cert''}) \<and>
    (dd_secret dd' \<noteq> dd_secret dd \<longrightarrow> argv ! 1 \<in> {bstr ''add-passkey'', bstr ''secret-info''})"
proof -
  have add: "dd_certs (snd (cmd_add cr lib cd aio args dd)) = dd_certs dd" for cr lib cd aio args dd
    by (auto simp: cmd_add_def Let_def split: sum.splits prod.splits)
  have rm: "dd_certs (snd (cmd_remove cd aio args dd)) = dd_certs dd"
    "dd_secret (snd (cmd_remove cd aio args dd)) = dd_secret dd" for cd aio args dd
    by (auto simp: cmd_remove_def Let_def split_beta split: list.splits)
  have rv: "dd_credentials (snd (cmd_revoke_cert cd aio args dd)) = dd_credentials dd"
    "dd_secret (snd (cmd_revoke_cert cd aio args dd)) = dd_secret dd" for cd aio args dd
    by (auto simp: cmd_revoke_cert_def Let_def split_beta split: sum.splits prod.splits)
  have iss: "dd_credentials (snd (snd (cmd_issue_cert cr lib cd aio io d args (fs, dd)))) = dd_credentials dd"
    "dd_secret (snd (snd (cmd_issue_cert cr lib cd aio io d args (fs, dd)))) = dd_secret dd" for cr lib cd aio io args fs dd
    by (auto simp: cmd_issue_cert_def issue_cert_entry_def Let_def split_beta split: sum.splits prod.splits)
  have si: "dd_credentials (snd (cmd_secret_info cr aio d dd)) = dd_credentials dd"
    "dd_certs (snd (cmd_secret_info cr aio d dd)) = dd_certs dd" for cr aio dd
    by (simp_all add: cmd_secret_info_def Let_def split_beta)
  show ?thesis
  proof (cases "\<exists>a cmd rest. argv = a # cmd # rest \<and> list_all utf8_valid argv")
    case False
    then show ?thesis
      using assms by (auto simp: hub_admin_def run_command_def split: if_splits list.splits)
        (cases argv; auto simp: drop_Suc neq_Nil_conv)+
  next
    case True
    then obtain a cmd rest where argv: "argv = a # cmd # rest" "list_all utf8_valid argv" by blast
    have e: "(res, fs', dd') = run_command l aio io d (cmd # rest) (fs, dd)" using assms argv by (simp add: hub_admin_def)
    show ?thesis
      using e unfolding run_command_def lift_store_def argv(1)
      by (auto simp: Let_def split_beta add rm rv si split: if_splits) (metis iss snd_conv)+
  qed
qed

section \<open>Interrupted commands\<close>

text \<open>The CA that \<open>init-ca\<close> reports is the one the hub and \<open>issue-cert\<close> load afterwards.\<close>

definition rcgen_laws :: "rcgen \<Rightarrow> bool" where
  "rcgen_laws lib \<longleftrightarrow>
     (\<forall>der. pem_certs lib (cert_to_pem lib der) = Some [der] \<and> utf8_valid (cert_to_pem lib der)) \<and>
     (\<forall>k. key_from_pem lib (key_to_pem lib k) = Some k \<and> utf8_valid (key_to_pem lib k)) \<and>
     (\<forall>p k der. self_signed lib p k = Some der \<longrightarrow> (\<exists>p'. from_ca_cert_pem lib (cert_to_pem lib der) = Some p'))"

lemma init_ca_D:
  assumes "init_ca lib io d days fs = (Inr ca, fs')"
  obtains "self_signed lib (cs_issuer_params ca) (cs_issuer_key ca) = Some (cs_cert_der ca)"
    "fs' (agent_ca_cert_path d) = Some (cert_to_pem lib (cs_cert_der ca), MODE_CERT)"
    "fs' (agent_ca_key_path d) = Some (key_to_pem lib (cs_issuer_key ca), MODE_KEY)"
proof -
  obtain fs1 where w: "create_new_rename (ci_write_cert io) (agent_ca_cert_path d) (cert_to_pem lib (cs_cert_der ca)) MODE_CERT fs = (True, fs1)"
    "create_new_rename (ci_write_key io) (agent_ca_key_path d) (key_to_pem lib (cs_issuer_key ca)) MODE_KEY fs1 = (True, fs')"
    using assms unfolding init_ca_def Let_def write_atomic_def by (auto split: if_splits sum.splits prod.splits)
  have "self_signed lib (cs_issuer_params ca) (cs_issuer_key ca) = Some (cs_cert_der ca)"
    using assms unfolding init_ca_def Let_def by (auto simp: bindE_Inr_iff split: if_splits sum.splits prod.splits)
  with that create_new_rename_done [OF w(1)] create_new_rename_done [OF w(2)] ca_paths_differ(1) [of d] show thesis by auto
qed

lemma init_ca_loads:
  assumes "rcgen_laws lib" "init_ca lib io d days fs = (Inr ca, fs')"
  shows "load_ca_cert lib True d fs' = Inr (cs_cert_der ca) \<and>
    (\<exists>p. load_ca_signer lib True d fs' = Inr \<lparr>cs_cert_der = cs_cert_der ca, cs_issuer_params = p, cs_issuer_key = cs_issuer_key ca\<rparr>)"
  using assms(2)
proof (cases rule: init_ca_D)
  case 1
  with assms(1) obtain p where "from_ca_cert_pem lib (cert_to_pem lib (cs_cert_der ca)) = Some p"
    unfolding rcgen_laws_def by blast
  with 1 assms(1) show ?thesis
    by (auto simp: load_ca_cert_def load_ca_signer_def read_to_string_def load_pem_cert_chain_def rcgen_laws_def from_utf8_def)
qed

text \<open>
  A temporary file that an interrupted run left behind makes every later run fail, and a CA whose key
  could not be written can be neither used nor created again.
\<close>

lemma stale_temp_blocks:
  assumes "fs (tmp_of (agent_ca_cert_path d)) = Some x"
  shows "\<exists>e. init_ca lib io d days fs = (Inl e, fs)"
  using assms by (auto simp: init_ca_def write_atomic_def create_new_rename_def Let_def split: sum.splits)

lemma create_new_rename_failed:
  "create_new_rename k path c m fs = (False, fs') \<Longrightarrow> p \<noteq> tmp_of path \<Longrightarrow> fs' p = fs p"
  by (auto simp: create_new_rename_def Let_def split: if_splits save_fault.splits)

lemma half_made_ca:
  assumes "init_ca lib io d days fs = (Inl (Err WriteKey), fs')"
  shows "\<exists>e1 e2. init_ca lib io' d days' fs' = (Inl e1, fs') \<and> load_ca_signer lib r d fs' = Inl e2"
proof -
  obtain c k fs1 where w: "create_new_rename (ci_write_cert io) (agent_ca_cert_path d) c MODE_CERT fs = (True, fs1)"
    "create_new_rename (ci_write_key io) (agent_ca_key_path d) k MODE_KEY fs1 = (False, fs')"
    using assms unfolding init_ca_def Let_def write_atomic_def
    by (auto simp: bindE_Inl_iff clock_window_def Let_def ok_orE_def split: if_splits sum.splits prod.splits option.splits)
  have n: "fs (agent_ca_key_path d) = None"
    using assms by (cases "fs (agent_ca_key_path d)") (auto simp: init_ca_def Let_def split: if_splits)
  have fs1: "fs1 = fs(agent_ca_cert_path d \<mapsto> (c, MODE_CERT))" by (rule create_new_rename_done [OF w(1)])
  have d: "agent_ca_cert_path d \<noteq> tmp_of (agent_ca_key_path d)" "agent_ca_key_path d \<noteq> tmp_of (agent_ca_key_path d)"
    by (auto simp: agent_ca_cert_path_def agent_ca_key_path_def tmp_of_def AGENT_CA_CERT_FILE_def AGENT_CA_KEY_FILE_def bstr_def)
  have "fs' (agent_ca_cert_path d) = Some (c, MODE_CERT)" "fs' (agent_ca_key_path d) = None"
    using create_new_rename_failed [OF w(2) d(1)] create_new_rename_failed [OF w(2) d(2)] n ca_paths_differ(1) [of d]
    by (simp_all add: fs1)
  then show ?thesis
    by (auto simp: init_ca_def load_ca_signer_def read_to_string_def Let_def bindE_def ok_orE_def split: option.splits)
qed

section \<open>An example\<close>

definition demo_ca_params :: cert_params where
  "demo_ca_params = ca_params (replicate 16 0) (0, 2000000000)"

definition demo_rcgen :: rcgen where
  "demo_rcgen =
     \<lparr>self_signed = (\<lambda>_ _. Some [1]),
      signed_by = (\<lambda>p _ _ _. if cp_sans p = [GnUri (machine_urn (bstr ''alpha''))] then Some [9] else None),
      cert_to_pem = (\<lambda>b. b), key_to_pem = (\<lambda>b. b), from_ca_cert_pem = (\<lambda>_. Some demo_ca_params),
      key_from_pem = Some, pem_certs = (\<lambda>b. Some [b]), ia5_ok = (\<lambda>_. True)\<rparr>"

definition demo_leaf_pki :: pki where
  "demo_leaf_pki = agent_pki\<lparr>x509_parse := (\<lambda>_. Some \<lparr>xc_san = Some (Some [GnUri (machine_urn (bstr ''alpha''))]),
        xc_algorithm = [], xc_parameters = None, xc_key = []\<rparr>)\<rparr>"

definition demo_ca_io :: ca_io where
  "demo_ca_io = \<lparr>ci_clock = 1000000000, ci_keygen = Some [7], ci_random = replicate 16 0xFF, ci_readable = True, ci_mkdir = True,
     ci_write_cert = SaveOk, ci_write_key = SaveOk, ci_cwd = Some (bstr ''/out'')\<rparr>"

definition demo_pem :: pem_fs where
  "demo_pem = Map.empty(agent_ca_cert_path (bstr ''/d'') \<mapsto> ([1], MODE_CERT), agent_ca_key_path (bstr ''/d'') \<mapsto> ([2], MODE_KEY))"

definition demo_issue_args :: "bytes list" where
  "demo_issue_args = [bstr ''--id'', bstr ''alpha'']"

lemma demo_issuer: "issuer_trusted demo_rcgen demo_leaf_pki ip ik"
  by (auto simp: issuer_trusted_def demo_rcgen_def demo_leaf_pki_def agent_pki_def split: if_splits)

lemma demo_window: "clock_window 365 1000000000 = Inr (999999940, 1031536000)"
  using clock_window_value [of 1000000000 365] by simp

lemma demo_signer:
  "load_ca_signer demo_rcgen True (bstr ''/d'') demo_pem = Inr \<lparr>cs_cert_der = [1], cs_issuer_params = demo_ca_params, cs_issuer_key = [2]\<rparr>"
proof -
  have "read_to_string True (agent_ca_cert_path (bstr ''/d'')) demo_pem = Some [1]"
    "read_to_string True (agent_ca_key_path (bstr ''/d'')) demo_pem = Some [2]"
    using ca_paths_differ(1) [of "bstr ''/d''"]
    by (auto simp: read_to_string_def demo_pem_def from_utf8_def utf8_width_def utf8_seq_def)
  then show ?thesis by (simp add: load_ca_signer_def demo_rcgen_def load_pem_cert_chain_def)
qed

definition demo_minted :: issued_cert where
  "demo_minted = \<lparr>ic_cert_pem = [9], ic_key_pem = [7], ic_fingerprint = cert_fingerprint agent_crypto [9],
     ic_serial_hex = serial_hex (random_serial (replicate 16 0xFF)), ic_machine_id = bstr ''alpha'', ic_not_after_unix = 1031536000\<rparr>"

lemma demo_mint:
  "mint agent_crypto demo_rcgen demo_ca_io (bstr ''/d'') demo_issue_args demo_pem = Inr (bstr ''alpha'', None, bstr ''/out'', demo_minted)"
proof -
  have a: "issue_args demo_issue_args \<lparr>io_id = None, io_label = None, io_out_dir = None, io_days = DEFAULT_LEAF_DAYS\<rparr> =
      Inr \<lparr>io_id = Some (bstr ''alpha''), io_label = None, io_out_dir = None, io_days = 365\<rparr>"
    by (simp add: demo_issue_args_def DEFAULT_LEAF_DAYS_def)
  have v: "validate_machine_id (bstr ''alpha'') = Inr ()"
    by (simp add: validate_machine_id_def bstr_def is_ascii_alphanumeric_def)
  have "issue_machine_cert agent_crypto demo_rcgen demo_ca_io
      \<lparr>cs_cert_der = [1], cs_issuer_params = demo_ca_params, cs_issuer_key = [2]\<rparr> (bstr ''alpha'') 365 = Inr demo_minted"
    by (simp add: issue_machine_cert_def v demo_rcgen_def demo_ca_io_def rcgen_cert_from_def demo_window leaf_params_def demo_minted_def)
  with a demo_signer show ?thesis by (simp add: mint_def issue_dir_def demo_ca_io_def)
qed

lemma demo_issue:
  "\<exists>fs' dd'. cmd_issue_cert agent_crypto demo_rcgen demo_cert_codec demo_io demo_ca_io (bstr ''/d'') demo_issue_args (demo_pem, demo_dir) =
     (Inr (), fs', dd') \<and> fs' (bstr ''/out'', bstr ''alpha'' @ bstr ''.crt'') = Some ([9], MODE_CERT) \<and>
     fs' (bstr ''/out'', bstr ''alpha'' @ bstr ''.key'') = Some ([7], MODE_KEY)"
proof -
  have n: "demo_pem ([0x2F, 0x6F, 0x75, 0x74], f) = None" for f
    by (simp add: demo_pem_def agent_ca_cert_path_def agent_ca_key_path_def bstr_def of_char_def)
  obtain fs' where w: "write_issued demo_ca_io (bstr ''/out'', bstr ''alpha'' @ bstr ''.crt'') (bstr ''/out'', bstr ''alpha'' @ bstr ''.key'')
      demo_minted demo_pem = (Inr (), fs')"
    by (auto simp: write_issued_def write_with_mode_def create_new_rename_def tmp_of_def n demo_ca_io_def Let_def bstr_def of_char_def)
  obtain dd' where "issue_cert_entry demo_cert_codec demo_io (bstr ''alpha'') (ic_fingerprint demo_minted) (ic_serial_hex demo_minted)
      (ic_not_after_unix demo_minted) None demo_dir = (Inr (), dd')"
    by (auto simp: issue_cert_entry_def update_certs_def locked_update_def demo_io_def demo_dir_def cert_load_def track_cert_def
        cert_save_atomic_def)
  moreover obtain fs2 where "create_new_rename (ci_write_cert demo_ca_io) (bstr ''/out'', bstr ''alpha'' @ bstr ''.crt'')
        (ic_cert_pem demo_minted) MODE_CERT demo_pem = (True, fs2)"
      "create_new_rename (ci_write_key demo_ca_io) (bstr ''/out'', bstr ''alpha'' @ bstr ''.key'')
        (ic_key_pem demo_minted) MODE_KEY fs2 = (True, fs')"
    using write_issued_D [OF w] by metis
  then have "fs' (bstr ''/out'', bstr ''alpha'' @ bstr ''.crt'') = Some ([9], MODE_CERT)"
    "fs' (bstr ''/out'', bstr ''alpha'' @ bstr ''.key'') = Some ([7], MODE_KEY)"
    by (auto dest!: create_new_rename_done simp: demo_minted_def bstr_def of_char_def)
  ultimately show ?thesis using w by (simp add: cmd_issue_cert_def demo_mint)
qed

theorem issued_cert_admitted_witness:
  "\<exists>fs' dd' out_dir der. cmd_issue_cert agent_crypto demo_rcgen demo_cert_codec demo_io demo_ca_io (bstr ''/d'') demo_issue_args
       (demo_pem, demo_dir) = (Inr (), fs', dd') \<and>
     fs' (out_dir, bstr ''alpha'' @ bstr ''.crt'') = Some (der, MODE_CERT) \<and>
     verify_client_cert agent_crypto demo_leaf_pki (agent_reload dd') der [] 1000000000 = Inr ()"
proof -
  obtain fs' dd' where c: "cmd_issue_cert agent_crypto demo_rcgen demo_cert_codec demo_io demo_ca_io (bstr ''/d'') demo_issue_args
       (demo_pem, demo_dir) = (Inr (), fs', dd')"
    using demo_issue by blast
  have o: "mint_opts demo_issue_args = Inr \<lparr>io_id = Some (bstr ''alpha''), io_label = None, io_out_dir = None, io_days = 365\<rparr>"
    by (simp add: mint_opts_def demo_issue_args_def DEFAULT_LEAF_DAYS_def)
  from issued_cert_admitted [OF demo_cert_codec_ok c demo_issuer] obtain der
    where "fs' (bstr ''/out'', bstr ''alpha'' @ bstr ''.crt'') = Some (cert_to_pem demo_rcgen der, MODE_CERT)"
      "\<forall>ints now snapshot. 999999940 \<le> uint now \<and> uint now \<le> 1031536000 \<longrightarrow>
         verify_client_cert agent_crypto demo_leaf_pki (reload_issued_certs demo_cert_codec True (dd_certs dd') snapshot) der ints now = Inr ()"
    unfolding o by (auto simp: demo_ca_io_def issue_dir_def demo_window)
  moreover have "cert_to_pem demo_rcgen der = der" by (simp add: demo_rcgen_def)
  moreover have "999999940 \<le> uint (1000000000 :: u64)" "uint (1000000000 :: u64) \<le> 1031536000" by simp_all
  ultimately show ?thesis using c by metis
qed

definition demo_libs :: admin_libs where
  "demo_libs = \<lparr>al_crypto = agent_crypto, al_envelope = demo_lib, al_creds = \<lparr>ser = (\<lambda>_. []), de = (\<lambda>_. None)\<rparr>,
     al_certs = demo_cert_codec, al_rcgen = demo_rcgen\<rparr>"

theorem pem_files_safe_witness:
  "fst (admin_runs demo_libs (replicate 2 (demo_io, demo_ca_io, bstr ''/d'', [bstr ''hub-admin'', bstr ''init-ca''])) (demo_pem, demo_dir))
     (agent_ca_key_path (bstr ''/d'')) = Some ([2], MODE_KEY)"
  using pem_files_safe [of demo_pem "agent_ca_key_path (bstr ''/d'')" "([2], MODE_KEY)"] by (simp add: demo_pem_def)

theorem admin_frame_witness:
  "snd (hub_admin demo_libs demo_io demo_ca_io (bstr ''/d'') [bstr ''hub-admin'', bstr ''help''] (demo_pem, demo_dir)) = (demo_pem, demo_dir)"
proof -
  obtain res fs' dd' where h: "hub_admin demo_libs demo_io demo_ca_io (bstr ''/d'') [bstr ''hub-admin'', bstr ''help''] (demo_pem, demo_dir) = (res, fs', dd')"
    by (metis prod.collapse)
  from admin_frame [OF this] have "dd_credentials dd' = dd_credentials demo_dir" "dd_certs dd' = dd_certs demo_dir" "fs' = demo_pem"
    "dd_secret dd' = dd_secret demo_dir"
    by (auto simp: bstr_def of_char_def)
  with h show ?thesis by simp
qed

end
