(* ===== verification/Hub_Serve.thy ===== *)
theory Hub_Serve
  imports Cert_Authority Hub_Link
begin

text \<open>
  How the hub starts and what it serves around the handlers: the configuration
  (\<open>hub/src/config.rs\<close>, \<open>load_config\<close>), the checks of \<open>main\<close> (\<open>hub/src/main.rs\<close>) that decide which
  listeners run, the certificate that is re-read from disk (\<open>hub/src/tls_files.rs\<close>), the edge middleware
  (\<open>hub/src/edge.rs\<close>), the embedded files (\<open>hub/src/static_assets.rs\<close>) and the metrics page
  (\<open>hub/src/metrics.rs\<close>).

  The TOML and URL parsers, \<open>SocketAddr\<close>, PEM and TLS, the embedded file table and the printed uptime are
  parameters. The result of the start is a plan: the listeners with their addresses and modes.
\<close>

section \<open>Configuration\<close>

datatype tls_mode = Acme | Files | TlsOff

record no_auth_config =
  na_bind :: bytes
  na_public_origin :: bytes

record machine_config =
  mc_id :: bytes
  mc_label :: bytes

record hub_toml = hub_config +
  ht_tls :: tls_mode
  ht_acme_email :: "bytes option"
  ht_acme_production :: bool
  ht_cert_path :: "bytes option"
  ht_key_path :: "bytes option"
  ht_tls_reload_interval_secs :: "u64 option"
  ht_data_dir :: bytes
  ht_bind :: "bytes option"
  ht_agent_bind :: bytes
  ht_no_auth :: "no_auth_config option"
  ht_machines :: "machine_config list"

definition default_rp_name :: bytes where "default_rp_name = bstr ''term''"
definition default_data_dir :: bytes where "default_data_dir = bstr ''/var/lib/term-hub''"
definition default_agent_bind :: bytes where "default_agent_bind = bstr ''[::]:7700''"

text \<open>What the file says, before the defaults of the optional keys.\<close>

record raw_toml =
  rt_domain :: bytes
  rt_rp_id :: bytes
  rt_rp_name :: "bytes option"
  rt_tls :: "tls_mode option"
  rt_acme_email :: "bytes option"
  rt_acme_production :: "bool option"
  rt_cert_path :: "bytes option"
  rt_key_path :: "bytes option"
  rt_tls_reload_interval_secs :: "u64 option"
  rt_data_dir :: "bytes option"
  rt_bind :: "bytes option"
  rt_agent_bind :: "bytes option"
  rt_public_origin :: "bytes option"
  rt_no_auth :: "no_auth_config option"
  rt_machines :: "machine_config list option"

definition or_default :: "'a option \<Rightarrow> 'a \<Rightarrow> 'a" where
  "or_default x d = (case x of Some v \<Rightarrow> v | None \<Rightarrow> d)"

definition with_defaults :: "raw_toml \<Rightarrow> hub_toml" where
  "with_defaults r =
     \<lparr>cfg_domain = rt_domain r, cfg_rp_id = rt_rp_id r, cfg_rp_name = or_default (rt_rp_name r) default_rp_name,
      cfg_public_origin = rt_public_origin r,
      ht_tls = or_default (rt_tls r) Acme, ht_acme_email = rt_acme_email r,
      ht_acme_production = or_default (rt_acme_production r) False, ht_cert_path = rt_cert_path r, ht_key_path = rt_key_path r,
      ht_tls_reload_interval_secs = rt_tls_reload_interval_secs r, ht_data_dir = or_default (rt_data_dir r) default_data_dir,
      ht_bind = rt_bind r, ht_agent_bind = or_default (rt_agent_bind r) default_agent_bind, ht_no_auth = rt_no_auth r,
      ht_machines = or_default (rt_machines r) []\<rparr>"

definition toml_origin :: "hub_toml \<Rightarrow> bytes" where
  "toml_origin cfg = config_origin (hub_config.truncate cfg)"

definition effective_bind :: "hub_toml \<Rightarrow> bytes" where
  "effective_bind cfg =
     (case ht_bind cfg of
        Some b \<Rightarrow> b
      | None \<Rightarrow> (case ht_tls cfg of Acme \<Rightarrow> bstr ''[::]:443'' | Files \<Rightarrow> bstr ''[::]:443'' | TlsOff \<Rightarrow> bstr ''[::]:8080''))"

datatype start_error =
    ReadConfig | ParseConfig | RpIdNotSuffix | AcmeEmailMissing | InvalidMachineId bytes
  | CreateDataDir | CreateAcmeDir | SecretUnavailable store_error | OriginNotUrl
  | NoAuthUnrecognised bytes | NoAuthMissing | NoAuthOriginNotUrl | BindCollision
  | CaUnavailable ca_error | CertsUnavailable store_error | BadBind | BadNoAuthBind
  | CertPathMissing | KeyPathMissing | TlsLoad
| CaRootPanic | VerifierRejected

definition no_auth_wanted :: "bytes option \<Rightarrow> start_error + bool option" where
  "no_auth_wanted env =
     (case map_option str_trim env of
        None \<Rightarrow> Inr None
      | Some v \<Rightarrow>
          if v \<in> {bstr ''on'', bstr ''1'', bstr ''true'', bstr ''yes''} then Inr (Some True)
          else if v \<in> {bstr ''off'', bstr ''0'', bstr ''false'', bstr ''no''} then Inr (Some False)
          else if v = [] then Inr None
          else Inl (NoAuthUnrecognised v))"

definition effective_no_auth :: "hub_toml \<Rightarrow> bytes option \<Rightarrow> start_error + no_auth_config option" where
  "effective_no_auth cfg env =
     bindE (no_auth_wanted env) (\<lambda>want.
       case (want, ht_no_auth cfg) of
         (Some False, _) \<Rightarrow> Inr None
       | (Some True, Some c) \<Rightarrow> Inr (Some c)
       | (Some True, None) \<Rightarrow> Inl NoAuthMissing
       | (None, opt) \<Rightarrow> Inr opt)"

definition is_valid_machine_id :: "bytes \<Rightarrow> bool" where
  "is_valid_machine_id s \<longleftrightarrow>
     (let n = length s in
      if n = 0 \<or> n > 32 then False
      else list_all (\<lambda>b. is_ascii_alphanumeric b \<or> b = 0x5F \<or> b = 0x2D) s)"

definition ends_with :: "bytes \<Rightarrow> bytes \<Rightarrow> bool" where
  "ends_with suf s \<longleftrightarrow> length suf \<le> length s \<and> drop (length s - length suf) s = suf"

definition load_config ::
    "(bytes \<Rightarrow> raw_toml option) \<Rightarrow> (bytes \<Rightarrow> bytes option) \<Rightarrow> bytes option \<Rightarrow> start_error + hub_toml" where
  "load_config toml fsys env_config =
     (let path = or_default env_config (bstr ''/etc/term-hub/hub.toml'') in
      bindE (ok_orE (fsys path) ReadConfig) (\<lambda>s.
      bindE (ok_orE (toml s) ParseConfig) (\<lambda>raw.
      let cfg = with_defaults raw in
      if \<not> ends_with (cfg_rp_id cfg) (cfg_domain cfg) \<and> cfg_rp_id cfg \<noteq> cfg_domain cfg then Inl RpIdNotSuffix
      else if ht_tls cfg = Acme \<and> ht_acme_email cfg = None then Inl AcmeEmailMissing
      else (case find (\<lambda>m. \<not> is_valid_machine_id (mc_id m)) (ht_machines cfg) of
              Some m \<Rightarrow> Inl (InvalidMachineId (mc_id m))
            | None \<Rightarrow> Inr cfg))))"

section \<open>Certificates from disk\<close>

record certified_key =
  ck_certs :: "bytes list"
  ck_key :: bytes

record tls_lib =
  tl_certs :: "bytes \<Rightarrow> bytes list option"
  tl_private_key :: "bytes \<Rightarrow> bytes option option"
  tl_supported :: "bytes \<Rightarrow> bool"

datatype tls_load_error = ReadCert | ReadKey | ParseCerts | NoCerts | ParseKey | NoKey | UnsupportedKey

text \<open>The two files are what each of the two reads found, in this order.\<close>

definition load_certified_key ::
    "tls_lib \<Rightarrow> bytes option \<Rightarrow> bytes option \<Rightarrow> tls_load_error + certified_key" where
  "load_certified_key lib cert_read key_read =
     bindE (ok_orE cert_read ReadCert) (\<lambda>cert_bytes.
     bindE (ok_orE key_read ReadKey) (\<lambda>key_bytes.
     bindE (ok_orE (tl_certs lib cert_bytes) ParseCerts) (\<lambda>certs.
     if certs = [] then Inl NoCerts
     else
     bindE (ok_orE (tl_private_key lib key_bytes) ParseKey) (\<lambda>found.
     bindE (ok_orE found NoKey) (\<lambda>key.
     if \<not> tl_supported lib key then Inl UnsupportedKey else Inr \<lparr>ck_certs = certs, ck_key = key\<rparr>)))))"

definition reload_tick :: "tls_lib \<Rightarrow> bytes option \<times> bytes option \<Rightarrow> certified_key \<Rightarrow> certified_key" where
  "reload_tick lib pair current =
     (case load_certified_key lib (fst pair) (snd pair) of Inr new \<Rightarrow> new | Inl _ \<Rightarrow> current)"

text \<open>The reloader; \<open>tokio::time::interval\<close> panics on a period of zero, which ends the task before the first tick.\<close>

definition spawn_reloader ::
    "tls_lib \<Rightarrow> u64 \<Rightarrow> (bytes option \<times> bytes option) list \<Rightarrow> certified_key \<Rightarrow> certified_key" where
  "spawn_reloader lib period_secs ticks ck =
     (if period_secs = 0 then ck else fold (reload_tick lib) ticks ck)"

section \<open>The start\<close>

text \<open>Two bind strings are compared as parsed addresses, or as text when one does not parse.\<close>

definition equal_socket_addr :: "(bytes \<Rightarrow> 'a option) \<Rightarrow> bytes \<Rightarrow> bytes \<Rightarrow> bool" where
  "equal_socket_addr parse a b =
     (case (parse a, parse b) of
        (Some x, Some y) \<Rightarrow> x = y
      | _ \<Rightarrow> str_trim a = str_trim b)"

record 'a start_env =
  se_files :: "bytes \<Rightarrow> bytes option"
  se_config_var :: "bytes option"
  se_no_auth_var :: "bytes option"
  se_toml :: "bytes \<Rightarrow> raw_toml option"
  se_url_ok :: "bytes \<Rightarrow> bool"
  se_parse_addr :: "bytes \<Rightarrow> 'a option"
  se_mkdir_data :: bool
  se_mkdir_acme :: bool
  se_secret_readable :: bool
  se_secret_fault :: save_fault
  se_random :: bytes
  se_rcgen :: rcgen
  se_pem :: pem_fs
  se_pem_readable :: bool
  se_certs_codec :: "issued_cert_store codec"
  se_certs_readable :: bool
  se_tls :: tls_lib
  se_root_ok :: "bytes \<Rightarrow> bool"
  se_verifier_ok :: "bytes \<Rightarrow> bool"

record 'a hub_plan =
  hp_cfg :: hub_toml
  hp_secret :: bytes
  hp_ca :: bytes
  hp_certs :: issued_cert_store
  hp_browser_addr :: 'a
  hp_browser_tls :: tls_mode
  hp_browser_mode :: listener_mode
  hp_tls_key :: "certified_key option"
  hp_agent_bind :: "bytes option"
  hp_no_auth :: "('a \<times> listener_mode) option"

text \<open>The checks of \<open>main\<close> between the configuration and the listeners.\<close>

definition check_no_auth :: "'a start_env \<Rightarrow> hub_toml \<Rightarrow> start_error + no_auth_config option" where
  "check_no_auth e cfg =
     bindE (effective_no_auth cfg (se_no_auth_var e)) (\<lambda>no_auth_cfg.
       case no_auth_cfg of
         None \<Rightarrow> Inr None
       | Some na \<Rightarrow>
           if \<not> se_url_ok e (na_public_origin na) then Inl NoAuthOriginNotUrl
           else if equal_socket_addr (se_parse_addr e) (effective_bind cfg) (na_bind na) then Inl BindCollision
           else Inr (Some na))"

text \<open>
  \<open>AgentClientVerifier::new\<close> panics when the CA cannot be a trust anchor; building the agents' TLS
  configuration fails when the verifier cannot be built. \<open>serve_acme\<close>, \<open>serve_plain\<close> and \<open>serve_files\<close> are
  given as far as they can fail before they serve: the loaded certificate and the address of the agents'
  listener, which does not exist without TLS.
\<close>

definition client_verifier_new :: "'a start_env \<Rightarrow> bytes \<Rightarrow> start_error + bytes" where
  "client_verifier_new e agent_ca =
     (if \<not> se_root_ok e agent_ca then Inl CaRootPanic
      else if \<not> se_verifier_ok e agent_ca then Inl VerifierRejected
      else Inr agent_ca)"

definition build_agent_server_config :: "'a start_env \<Rightarrow> bytes \<Rightarrow> start_error + bytes" where
  "build_agent_server_config e agent_ca = client_verifier_new e agent_ca"

definition serve_acme :: "'a start_env \<Rightarrow> bytes \<Rightarrow> hub_toml \<Rightarrow> start_error + certified_key option \<times> bytes option" where
  "serve_acme e agent_ca cfg =
     bindE (ok_orE (ht_acme_email cfg) AcmeEmailMissing) (\<lambda>_.
     bindE (build_agent_server_config e agent_ca) (\<lambda>_. Inr (None, Some (ht_agent_bind cfg))))"

definition serve_plain :: "start_error + certified_key option \<times> bytes option" where
  "serve_plain = Inr (None, None)"

definition serve_files :: "'a start_env \<Rightarrow> bytes \<Rightarrow> hub_toml \<Rightarrow> start_error + certified_key option \<times> bytes option" where
  "serve_files e agent_ca cfg =
     bindE (ok_orE (ht_cert_path cfg) CertPathMissing) (\<lambda>cert_path.
     bindE (ok_orE (ht_key_path cfg) KeyPathMissing) (\<lambda>key_path.
     bindE (map_errE (\<lambda>_. TlsLoad) (load_certified_key (se_tls e) (se_files e cert_path) (se_files e key_path))) (\<lambda>ck.
     bindE (build_agent_server_config e agent_ca) (\<lambda>_.
     Inr (Some ck, Some (ht_agent_bind cfg))))))"

definition serve_browser ::
    "'a start_env \<Rightarrow> bytes \<Rightarrow> hub_toml \<Rightarrow> start_error + certified_key option \<times> bytes option" where
  "serve_browser e agent_ca cfg =
     (case ht_tls cfg of
        Acme \<Rightarrow> serve_acme e agent_ca cfg
      | Files \<Rightarrow> serve_files e agent_ca cfg
      | TlsOff \<Rightarrow> serve_plain)"

lemmas serve_defs = serve_browser_def serve_acme_def serve_files_def serve_plain_def
  build_agent_server_config_def client_verifier_new_def

definition serve_optional_no_auth ::
    "'a start_env \<Rightarrow> no_auth_config option \<Rightarrow> start_error + ('a \<times> listener_mode) option" where
  "serve_optional_no_auth e cfg =
     (case cfg of
        None \<Rightarrow> Inr None
      | Some c \<Rightarrow> bindE (ok_orE (se_parse_addr e (na_bind c)) BadNoAuthBind) (\<lambda>addr.
          Inr (Some (addr, \<lparr>lm_no_auth = True, lm_origin = na_public_origin c\<rparr>))))"

text \<open>
  \<open>main\<close>. The two serving futures are polled together and the first to fail ends the process; here the
  browser's comes first.
\<close>

definition hub_main ::
    "'a start_env \<Rightarrow> data_dir \<Rightarrow> (start_error + 'a hub_plan) \<times> data_dir" where
  "hub_main e dd =
     (case load_config (se_toml e) (se_files e) (se_config_var e) of
        Inl err \<Rightarrow> (Inl err, dd)
      | Inr cfg \<Rightarrow>
          if \<not> se_mkdir_data e then (Inl CreateDataDir, dd)
          else if \<not> se_mkdir_acme e then (Inl CreateAcmeDir, dd)
          else
            (let (secret, sf) = load_or_create_secret (se_secret_readable e) (se_secret_fault e) (se_random e) (dd_secret dd)
             in (bindE (map_errE SecretUnavailable secret) (\<lambda>key.
                 if \<not> se_url_ok e (toml_origin cfg) then Inl OriginNotUrl
                 else
                 bindE (check_no_auth e cfg) (\<lambda>na.
                 bindE (map_errE CaUnavailable (load_ca_cert (se_rcgen e) (se_pem_readable e) (ht_data_dir cfg) (se_pem e))) (\<lambda>ca.
                 bindE (map_errE CertsUnavailable (cert_load (se_certs_codec e) (se_certs_readable e) (dd_certs dd))) (\<lambda>certs.
                 bindE (ok_orE (se_parse_addr e (effective_bind cfg)) BadBind) (\<lambda>addr.
                 bindE (serve_browser e ca cfg) (\<lambda>(ck, agent_bind).
                 bindE (serve_optional_no_auth e na) (\<lambda>na_listener.
                 Inr \<lparr>hp_cfg = cfg, hp_secret = key, hp_ca = ca, hp_certs = certs, hp_browser_addr = addr,
                      hp_browser_tls = ht_tls cfg, hp_browser_mode = \<lparr>lm_no_auth = False, lm_origin = toml_origin cfg\<rparr>,
                      hp_tls_key = ck, hp_agent_bind = agent_bind, hp_no_auth = na_listener\<rparr>))))))),
                 dd\<lparr>dd_secret := sf\<rparr>)))"

section \<open>Responses\<close>

record response =
  rp_status :: nat
  rp_headers :: headers
  rp_body :: bytes

definition header_insert :: "string \<Rightarrow> bytes \<Rightarrow> headers \<Rightarrow> headers" where
  "header_insert name v hs = filter (\<lambda>h. fst h \<noteq> bstr name) hs @ [(bstr name, v)]"

definition quoted :: "string \<Rightarrow> bytes" where
  "quoted w = [0x27] @ bstr w @ [0x27]"

definition CSP :: bytes where
  "CSP =
     bstr ''default-src '' @ quoted ''self'' @ bstr ''; script-src '' @ quoted ''self'' @
     bstr ''; style-src '' @ quoted ''self'' @ bstr '' '' @ quoted ''unsafe-inline'' @
     bstr ''; img-src '' @ quoted ''self'' @ bstr '' data: blob:; font-src '' @ quoted ''self'' @
     bstr ''; connect-src '' @ quoted ''self'' @ bstr '' ws: wss:; worker-src '' @ quoted ''self'' @
     bstr '' blob:; frame-ancestors '' @ quoted ''none'' @ bstr ''; base-uri '' @ quoted ''none'' @
     bstr ''; object-src '' @ quoted ''none'' @ bstr ''; form-action '' @ quoted ''none''"

definition edge_middleware :: "bytes \<Rightarrow> headers \<Rightarrow> (headers \<Rightarrow> response) \<Rightarrow> response" where
  "edge_middleware origin hs next_run =
     (if \<not> edge_allows origin hs then \<lparr>rp_status = 403, rp_headers = [], rp_body = bstr ''bad origin''\<rparr>
      else let resp = next_run hs in
        resp\<lparr>rp_headers :=
          header_insert ''referrer-policy'' (bstr ''no-referrer'')
            (header_insert ''x-frame-options'' (bstr ''DENY'')
              (header_insert ''x-content-type-options'' (bstr ''nosniff'')
                (header_insert ''content-security-policy'' CSP (rp_headers resp))))\<rparr>)"

text \<open>The fallback: \<open>assets\<close> is the embedded directory, from names to MIME type and contents.\<close>

definition static_handler :: "(bytes \<Rightarrow> (bytes \<times> bytes) option) \<Rightarrow> bytes \<Rightarrow> response" where
  "static_handler assets path =
     (let raw = dropWhile (\<lambda>b. b = 0x2F) path;
          candidate = (if raw = [] \<or> last raw = 0x2F then raw @ bstr ''index.html'' else raw)
      in case assets candidate of
           Some (mime, content) \<Rightarrow> \<lparr>rp_status = 200, rp_headers = [(bstr ''content-type'', mime)], rp_body = content\<rparr>
         | None \<Rightarrow> \<lparr>rp_status = 404, rp_headers = [], rp_body = []\<rparr>)"

section \<open>Metrics\<close>

fun escape_label :: "bytes \<Rightarrow> bytes" where
  "escape_label [] = []"
| "escape_label (c # s) =
     (if c = 0x5C then [0x5C, 0x5C] else if c = 0x22 then [0x5C, 0x22] else if c = 0x0A then [0x5C, 0x6E] else [c])
       @ escape_label s"

definition metric_head :: "string \<Rightarrow> string \<Rightarrow> string \<Rightarrow> bytes" where
  "metric_head name help ty =
     bstr ''# HELP '' @ bstr name @ bstr '' '' @ bstr help @ [0x0A] @ bstr ''# TYPE '' @ bstr name @ bstr '' '' @ bstr ty @ [0x0A]"

definition metric_line :: "string \<Rightarrow> bytes \<Rightarrow> nat \<Rightarrow> bytes" where
  "metric_line name machine_id v =
     bstr name @ bstr ''{machine_id='' @ [0x22] @ escape_label machine_id @ [0x22] @ bstr ''} '' @ dec_of_nat v @ [0x0A]"

definition metric_group :: "string \<Rightarrow> string \<Rightarrow> string \<Rightarrow> (agent_link \<Rightarrow> nat) \<Rightarrow> (bytes \<times> agent_link) list \<Rightarrow> bytes" where
  "metric_group name help ty v agents =
     metric_head name help ty @ concat (map (\<lambda>(i, link). metric_line name i (v link)) agents) @ [0x0A]"

definition metrics_text :: "bytes \<Rightarrow> nat \<Rightarrow> nat \<Rightarrow> (bytes \<times> agent_link) list \<Rightarrow> bytes" where
  "metrics_text uptime active_sessions pending_logins agents =
     metric_head ''term_hub_uptime_seconds'' ''Hub process uptime in seconds.'' ''gauge'' @
       bstr ''term_hub_uptime_seconds '' @ uptime @ [0x0A, 0x0A] @
     metric_head ''term_hub_active_bearer_tokens'' ''Currently-valid bearer tokens (= logged-in browser sessions).'' ''gauge'' @
       bstr ''term_hub_active_bearer_tokens '' @ dec_of_nat active_sessions @ [0x0A, 0x0A] @
     metric_head ''term_hub_pending_logins'' ''WebAuthn login ceremonies in flight.'' ''gauge'' @
       bstr ''term_hub_pending_logins '' @ dec_of_nat pending_logins @ [0x0A, 0x0A] @
     metric_head ''term_hub_active_agents'' ''Currently-connected agents.'' ''gauge'' @
       bstr ''term_hub_active_agents '' @ dec_of_nat (length agents) @ [0x0A, 0x0A] @
     (if agents = [] then []
      else metric_group ''term_hub_active_streams'' ''Open mux streams per agent.'' ''gauge'' stream_count agents @
           metric_group ''term_hub_agent_bytes_in_total'' ''Bytes received from each agent (wire frames, header + payload).''
             ''counter'' (\<lambda>l. unat (al_bytes_in l)) agents @
           metric_group ''term_hub_agent_bytes_out_total'' ''Bytes queued toward each agent.'' ''counter''
             (\<lambda>l. unat (al_bytes_out l)) agents @
           metric_group ''term_hub_agent_frames_in_total'' ''Total wire frames received from each agent.'' ''counter''
             (\<lambda>l. unat (al_frames_in l)) agents @
           metric_group ''term_hub_agent_frames_out_total'' ''Total wire frames queued toward each agent.'' ''counter''
             (\<lambda>l. unat (al_frames_out l)) agents)"

section \<open>Reading the configuration\<close>

lemma is_valid_machine_id_iff: "is_valid_machine_id i \<longleftrightarrow> validate_machine_id i = Inr ()"
  by (simp add: is_valid_machine_id_def validate_machine_id_def Let_def)

lemma ends_with_iff: "ends_with suf s \<longleftrightarrow> (\<exists>pre. s = pre @ suf)"
proof
  assume "ends_with suf s"
  then have "s = take (length s - length suf) s @ suf" unfolding ends_with_def by (metis append_take_drop_id)
  then show "\<exists>pre. s = pre @ suf" by blast
qed (auto simp: ends_with_def)

lemma load_config_D:
  assumes "load_config toml fsys env = Inr cfg"
  shows "\<exists>pre. cfg_domain cfg = pre @ cfg_rp_id cfg"
    and "ht_tls cfg = Acme \<Longrightarrow> ht_acme_email cfg \<noteq> None"
    and "m \<in> set (ht_machines cfg) \<Longrightarrow> validate_machine_id (mc_id m) = Inr ()"
  using assms
  by (auto simp: load_config_def Let_def bindE_Inr_iff ends_with_iff find_None_iff is_valid_machine_id_iff [symmetric]
      split: if_splits option.splits)

text \<open>The suffix test has no dot in it, and an empty id passes.\<close>

lemma rp_id_without_boundary:
  assumes "toml t = Some r" "fsys (bstr ''/etc/term-hub/hub.toml'') = Some t" "rt_domain r = bstr ''notexample.com''"
    "rt_rp_id r = bstr ''example.com''" "rt_tls r = Some TlsOff" "rt_machines r = None"
  shows "load_config toml fsys None = Inr (with_defaults r)"
  using assms by (simp add: load_config_def or_default_def with_defaults_def ends_with_def bstr_def)

section \<open>Certificate reloads\<close>

definition loaded :: "tls_lib \<Rightarrow> bytes option \<times> bytes option \<Rightarrow> certified_key option" where
  "loaded lib pair = (case load_certified_key lib (fst pair) (snd pair) of Inr ck \<Rightarrow> Some ck | Inl _ \<Rightarrow> None)"

lemma loaded_certs: "loaded lib pair = Some ck \<Longrightarrow> ck_certs ck \<noteq> [] \<and> tl_supported lib (ck_key ck)"
  by (auto simp: loaded_def load_certified_key_def bindE_Inr_iff split: sum.splits if_splits)

lemma reload_fold: "fold (reload_tick lib) ticks ck = last (ck # List.map_filter (loaded lib) ticks)"
proof (induction ticks arbitrary: ck)
  case (Cons t ticks)
  have "reload_tick lib t ck = (case loaded lib t of Some new \<Rightarrow> new | None \<Rightarrow> ck)"
    by (simp add: reload_tick_def loaded_def split: sum.splits)
  with Cons show ?case by (auto simp: List.map_filter_simps split: option.splits)
qed (simp add: List.map_filter_simps)

text \<open>A renewal that replaces the certificate before the key is served with the old key until the next tick.\<close>

lemma torn_renewal:
  assumes "load_certified_key lib (Some c1) (Some k1) = Inr \<lparr>ck_certs = cs1, ck_key = key1\<rparr>"
    and "load_certified_key lib (Some c2) (Some k2) = Inr \<lparr>ck_certs = cs2, ck_key = key2\<rparr>"
  shows "reload_tick lib (Some c2, Some k1) \<lparr>ck_certs = cs1, ck_key = key1\<rparr> = \<lparr>ck_certs = cs2, ck_key = key1\<rparr>"
  using assms by (auto simp: reload_tick_def load_certified_key_def bindE_Inr_iff split: if_splits)

section \<open>Labels\<close>

text \<open>How a scraper reads a quoted label value: up to the first quote that is not escaped.\<close>

fun read_label :: "bytes \<Rightarrow> (bytes \<times> bytes) option" where
  "read_label [] = None"
| "read_label [c] = (if c = 0x22 then Some ([], []) else None)"
| "read_label (c # d # s) =
     (if c = 0x22 then Some ([], d # s)
      else if c = 0x5C
        then map_option (\<lambda>(l, r). ((if d = 0x6E then 0x0A else d) # l, r)) (read_label s)
      else if c = 0x0A then None
      else map_option (\<lambda>(l, r). (c # l, r)) (read_label (d # s)))"

lemma read_label_plain:
  "c \<notin> {0x22, 0x5C, 0x0A} \<Longrightarrow> s \<noteq> [] \<Longrightarrow> read_label (c # s) = map_option (\<lambda>(l, r). (c # l, r)) (read_label s)"
  by (cases s) auto

lemma read_escaped: "read_label (escape_label i @ 0x22 # rest) = Some (i, rest)"
proof (induction i)
  case Nil
  then show ?case by (cases rest) simp_all
next
  case (Cons c i)
  then show ?case by (auto simp: read_label_plain)
qed

section \<open>Properties\<close>

lemma effective_no_auth_D:
  "effective_no_auth cfg env = Inr (Some x) \<Longrightarrow> ht_no_auth cfg = Some x \<and> no_auth_wanted env \<noteq> Inr (Some False)"
proof (cases "no_auth_wanted env")
  case (Inr w)
  then show "effective_no_auth cfg env = Inr (Some x) \<Longrightarrow> ?thesis"
    by (cases w; cases "ht_no_auth cfg"; cases "the w") (simp_all add: effective_no_auth_def)
qed (simp add: effective_no_auth_def)

lemma serve_browser_D:
  assumes "serve_browser e agent_ca cfg = Inr (k, agent)"
  shows "agent = None \<longleftrightarrow> ht_tls cfg = TlsOff" "agent \<noteq> None \<Longrightarrow> se_root_ok e agent_ca" "ht_tls cfg = Files \<Longrightarrow> \<exists>ck. k = Some ck \<and> ck_certs ck \<noteq> []"
  using assms by (auto simp: serve_defs bindE_Inr_iff load_certified_key_def split: tls_mode.splits if_splits)


text \<open>
  The certificate that the hub serves is the one of the last reload that succeeded, or the first one:
  failed reads, unparsable files and missing keys never take a certificate away, and the key is always of a
  supported kind.
\<close>

theorem served_certificate:
  assumes "loaded lib (cert, key) = Some ck" "0 < period"
  shows "spawn_reloader lib period ticks ck = last (ck # List.map_filter (loaded lib) ticks) \<and>
    ck_certs (spawn_reloader lib period ticks ck) \<noteq> [] \<and> tl_supported lib (ck_key (spawn_reloader lib period ticks ck))"
proof -
  have r: "spawn_reloader lib period ticks ck = last (ck # List.map_filter (loaded lib) ticks)"
    using assms(2) by (auto simp: spawn_reloader_def reload_fold)
  have "last (ck # List.map_filter (loaded lib) ticks) \<in> set (ck # List.map_filter (loaded lib) ticks)" by (rule last_in_set) simp
  moreover have "\<forall>x \<in> set (ck # List.map_filter (loaded lib) ticks). \<exists>t. loaded lib t = Some x"
    using assms(1) by (auto simp: List.map_filter_def)
  ultimately obtain t where "loaded lib t = Some (last (ck # List.map_filter (loaded lib) ticks))" by blast
  with r loaded_certs show ?thesis by metis
qed

text \<open>
  The metrics page can be read back whatever the machine ids are: from a label value on, a reader of the
  text format finds the machine id, and after it the counter.
\<close>

theorem metric_label_roundtrip:
  "\<exists>pre. metric_line name i v = pre @ [0x22] @ escape_label i @ 0x22 # bstr ''} '' @ dec_of_nat v @ [0x0A] \<and>
     read_label (drop (length pre + 1) (metric_line name i v)) = Some (i, bstr ''} '' @ dec_of_nat v @ [0x0A])"
proof -
  let ?pre = "bstr name @ bstr ''{machine_id=''"
  have m: "metric_line name i v = ?pre @ [0x22] @ escape_label i @ 0x22 # bstr ''} '' @ dec_of_nat v @ [0x0A]"
    by (simp add: metric_line_def)
  have "drop (length ?pre + 1) (metric_line name i v) = escape_label i @ 0x22 # bstr ''} '' @ dec_of_nat v @ [0x0A]"
    unfolding m by simp
  with m show ?thesis by (intro exI [of _ ?pre]) (simp only: read_escaped simp_thms)
qed

lemma header_insert_get [simp]: "header_get (header_insert n v hs) n = Some v"
  by (auto simp: header_get_def header_insert_def map_add_Some_iff map_of_eq_None_iff)

lemma header_insert_other: "bstr m \<noteq> bstr n \<Longrightarrow> header_get (header_insert n v hs) m = header_get hs m"
proof -
  assume n: "bstr m \<noteq> bstr n"
  have "map_of (filter (\<lambda>h. fst h \<noteq> bstr n) hs) (bstr m) = map_of hs (bstr m)" using n by (induction hs) auto
  with n show ?thesis by (simp add: header_get_def header_insert_def map_add_def split: option.splits)
qed

lemma edge_allows_iff: "edge_allows origin hs \<longleftrightarrow> (\<forall>v. header_get hs ''origin'' = Some v \<longrightarrow> v = origin \<and> to_str v = Some v)"
  by (auto simp: edge_allows_def to_str_def split: option.splits if_splits)

lemma route_in_table: "route table m path = Some h \<Longrightarrow> h = StaticAssets \<or> h \<in> (\<lambda>(_, _, h). h) ` set table"
  by (auto simp: route_def Let_def find_Some_iff split: if_splits dest!: nth_mem) force

lemma no_auth_routes_handlers:
  "route no_auth_routes m path = Some h \<Longrightarrow>
     h \<in> {Machines, ListSessionsH, KillSessionH, Me, Mode, TermWs, AgentConnect, StaticAssets}"
  by (drule route_in_table) (auto simp: no_auth_routes_def shared_routes_def)

text \<open>
  The listener without authentication answers other web sites with 403, whatever the route: only a request
  with no \<open>Origin\<close> or the configured one reaches a handler. The handler is one of the shared ones, so that no
  registration, login, logout or metrics can be asked for there, and its answer carries the four security headers.
\<close>

theorem no_auth_surface:
  assumes "route no_auth_routes m path = Some h"
  shows "h \<in> {Machines, ListSessionsH, KillSessionH, Me, Mode, TermWs, AgentConnect, StaticAssets} \<and>
    (if \<forall>v. header_get hs ''origin'' = Some v \<longrightarrow> v = lm_origin mode \<and> to_str v = Some v
     then rp_status (edge_middleware (lm_origin mode) hs (run h)) = rp_status (run h hs) \<and>
       rp_body (edge_middleware (lm_origin mode) hs (run h)) = rp_body (run h hs) \<and>
       header_get (rp_headers (edge_middleware (lm_origin mode) hs (run h))) ''content-security-policy'' = Some CSP \<and>
       header_get (rp_headers (edge_middleware (lm_origin mode) hs (run h))) ''x-frame-options'' = Some (bstr ''DENY'') \<and>
       header_get (rp_headers (edge_middleware (lm_origin mode) hs (run h))) ''x-content-type-options'' = Some (bstr ''nosniff'') \<and>
       header_get (rp_headers (edge_middleware (lm_origin mode) hs (run h))) ''referrer-policy'' = Some (bstr ''no-referrer'')
     else rp_status (edge_middleware (lm_origin mode) hs (run h)) = 403)"
  using no_auth_routes_handlers [OF assms]
  unfolding edge_allows_iff [symmetric] edge_middleware_def
  by (simp add: Let_def header_insert_other bstr_def)

theorem no_auth_surface_witness:
  "rp_status (edge_middleware (lm_origin demo_mode) [(bstr ''origin'', bstr ''https://evil'')]
      ((\<lambda>_ _. \<lparr>rp_status = 200, rp_headers = [], rp_body = []\<rparr>) Machines)) = 403"
proof -
  have r: "route no_auth_routes GET [bstr ''api'', bstr ''machines''] = Some Machines"
    by (simp add: route_def no_auth_routes_def shared_routes_def bstr_def of_char_def)
  have "header_get [(bstr ''origin'', bstr ''https://evil'')] ''origin'' = Some (bstr ''https://evil'')"
    "bstr ''https://evil'' \<noteq> lm_origin demo_mode"
    by (simp_all add: header_get_def demo_mode_def bstr_def of_char_def)
  with no_auth_surface [OF r, of "[(bstr ''origin'', bstr ''https://evil'')]" demo_mode
      "\<lambda>_ _. \<lparr>rp_status = 200, rp_headers = [], rp_body = []\<rparr>"] show ?thesis by auto
qed

section \<open>An example\<close>

definition demo_raw :: raw_toml where
  "demo_raw = \<lparr>rt_domain = bstr ''term.example.com'', rt_rp_id = bstr ''example.com'', rt_rp_name = None, rt_tls = Some TlsOff,
     rt_acme_email = None, rt_acme_production = None, rt_cert_path = None, rt_key_path = None, rt_tls_reload_interval_secs = None,
     rt_data_dir = Some (bstr ''/d''), rt_bind = None, rt_agent_bind = None, rt_public_origin = None,
     rt_no_auth = Some \<lparr>na_bind = bstr ''[::]:18080'', na_public_origin = bstr ''https://t''\<rparr>,
     rt_machines = Some [\<lparr>mc_id = bstr ''alpha'', mc_label = bstr ''A''\<rparr>]\<rparr>"

definition demo_start :: "bytes start_env" where
  "demo_start = \<lparr>se_files = (\<lambda>_. Some []), se_config_var = None, se_no_auth_var = None, se_toml = (\<lambda>_. Some demo_raw),
     se_url_ok = (\<lambda>_. True), se_parse_addr = Some, se_mkdir_data = True, se_mkdir_acme = True, se_secret_readable = True,
     se_secret_fault = SaveOk, se_random = [], se_rcgen = demo_rcgen, se_pem = demo_pem, se_pem_readable = True,
     se_certs_codec = demo_cert_codec, se_certs_readable = True, se_tls = \<lparr>tl_certs = (\<lambda>b. Some [b]),
     tl_private_key = (\<lambda>b. Some (Some b)), tl_supported = (\<lambda>_. True)\<rparr>,
     se_root_ok = (\<lambda>_. True), se_verifier_ok = (\<lambda>_. True)\<rparr>"

lemma demo_load_config: "load_config (se_toml demo_start) (se_files demo_start) (se_config_var demo_start) = Inr (with_defaults demo_raw)"
  by (simp add: demo_start_def load_config_def or_default_def Let_def)
    (simp add: demo_raw_def with_defaults_def or_default_def ends_with_def bstr_def is_valid_machine_id_def is_ascii_alphanumeric_def)

lemma demo_hub_start: "\<exists>plan. hub_main demo_start demo_dir = (Inr plan, demo_dir) \<and>
    hp_no_auth plan = Some (bstr ''[::]:18080'', \<lparr>lm_no_auth = True, lm_origin = bstr ''https://t''\<rparr>)"
proof -
  let ?cfg = "with_defaults demo_raw"
  have dir: "ht_data_dir ?cfg = bstr ''/d''" by (simp add: demo_raw_def with_defaults_def or_default_def)
  have na: "check_no_auth demo_start ?cfg = Inr (Some \<lparr>na_bind = bstr ''[::]:18080'', na_public_origin = bstr ''https://t''\<rparr>)"
    by (simp add: check_no_auth_def effective_no_auth_def no_auth_wanted_def demo_start_def demo_raw_def with_defaults_def or_default_def
        equal_socket_addr_def effective_bind_def bstr_def)
  have ca: "load_ca_cert demo_rcgen True (bstr ''/d'') demo_pem = Inr [1]"
    using ca_paths_differ(1) [of "bstr ''/d''"]
    by (auto simp: load_ca_cert_def demo_pem_def demo_rcgen_def load_pem_cert_chain_def)
  have sb: "serve_browser demo_start a ?cfg = Inr (None, None)" for a
    by (simp add: serve_defs demo_raw_def with_defaults_def or_default_def)
  have sec: "load_or_create_secret True SaveOk [] (dd_secret demo_dir) = (Inr demo_secret, dd_secret demo_dir)"
    by (simp add: load_or_create_secret_def demo_dir_def demo_secret_def)
  have cl: "cert_load demo_cert_codec True (dd_certs demo_dir) = Inr \<lparr>certs = []\<rparr>" by (simp add: cert_load_def demo_dir_def)
  have so: "serve_optional_no_auth demo_start (Some \<lparr>na_bind = bstr ''[::]:18080'', na_public_origin = bstr ''https://t''\<rparr>) =
      Inr (Some (bstr ''[::]:18080'', \<lparr>lm_no_auth = True, lm_origin = bstr ''https://t''\<rparr>))"
    by (simp add: serve_optional_no_auth_def demo_start_def)
  have env: "se_mkdir_data demo_start" "se_mkdir_acme demo_start" "se_url_ok demo_start x" "se_secret_readable demo_start"
    "se_secret_fault demo_start = SaveOk" "se_random demo_start = []" "se_rcgen demo_start = demo_rcgen" "se_pem demo_start = demo_pem"
    "se_pem_readable demo_start" "se_certs_codec demo_start = demo_cert_codec" "se_certs_readable demo_start"
    "se_parse_addr demo_start = Some" for x
    by (simp_all add: demo_start_def)
  show ?thesis unfolding hub_main_def demo_load_config by (simp add: env sec na dir ca cl sb so)
qed


theorem served_certificate_witness:
  "spawn_reloader (se_tls demo_start) 3600 [(None, Some [2]), (Some [3], Some [4]), (Some [5], None)] \<lparr>ck_certs = [[1]], ck_key = [2]\<rparr> =
     \<lparr>ck_certs = [[3]], ck_key = [4]\<rparr>"
proof -
  have l: "loaded (se_tls demo_start) (Some [1], Some [2]) = Some \<lparr>ck_certs = [[1]], ck_key = [2]\<rparr>"
    by (simp add: loaded_def load_certified_key_def demo_start_def)
  have "(0 :: u64) < 3600" by simp
  from served_certificate [OF l this, of "[(None, Some [2]), (Some [3], Some [4]), (Some [5], None)]"] show ?thesis
    by (simp add: List.map_filter_simps) (simp add: loaded_def load_certified_key_def demo_start_def)
qed

end
