(* ===== verification/Agent_Connect.thy ===== *)
theory Agent_Connect
  imports Hub_Serve Term_Dl
begin

text \<open>
  How an agent gets to its hub. The first half is the agent: \<open>agent.toml\<close> and what \<open>main\<close> of
  \<open>agent/src/main.rs\<close> makes of it, the TLS connector, and one dial (\<open>run_once\<close>, \<open>run_ws\<close> of
  \<open>agent/src/wsdial.rs\<close>) with the channel it opens. The second half is the hub: the acceptor of
  \<open>hub/src/agent_link.rs\<close> and the upgrade of \<open>hub/src/agent_ws.rs\<close>, up to the registration of the link.
  URL parsing, sockets, the TLS and WebSocket handshakes and JSON are parameters.
\<close>

section \<open>The agent's configuration\<close>

record raw_agent =
  ra_hub :: bytes
  ra_cert_path :: bytes
  ra_key_path :: bytes
  ra_hub_ca_path :: "bytes option"
  ra_tls :: "bytes option"
  ra_server_name :: "bytes option"
  ra_shell :: "bytes option"
  ra_tunnel_token_file :: "bytes option"
  ra_tunnel_auth_header :: "bytes option"
  ra_tunnel_auth_scheme :: "bytes option"
  ra_limits :: "config_limits option"

record agent_config =
  ac_hub :: bytes
  ac_cert_path :: bytes
  ac_key_path :: bytes
  ac_hub_ca_path :: "bytes option"
  ac_tls :: bytes
  ac_server_name :: "bytes option"
  ac_shell :: "bytes option"
  ac_tunnel_token_file :: "bytes option"
  ac_tunnel_auth_header :: bytes
  ac_tunnel_auth_scheme :: bytes
  ac_limits :: config_limits

definition default_tls :: bytes where "default_tls = bstr ''on''"
definition default_tunnel_auth_header :: bytes where "default_tunnel_auth_header = bstr ''X-Tunnel-Authorization''"
definition default_tunnel_auth_scheme :: bytes where "default_tunnel_auth_scheme = bstr ''tunnel''"

definition config_limits_default :: config_limits where
  "config_limits_default =
     \<lparr>cl_scrollback_cap_bytes = None, cl_idle_ttl_secs = None, cl_max_pending_pastes_per_stream = None,
      cl_max_pending_groups_per_stream = None, cl_max_sessions = None\<rparr>"

definition agent_config_of :: "raw_agent \<Rightarrow> agent_config" where
  "agent_config_of r =
     \<lparr>ac_hub = ra_hub r, ac_cert_path = ra_cert_path r, ac_key_path = ra_key_path r, ac_hub_ca_path = ra_hub_ca_path r,
      ac_tls = or_default (ra_tls r) default_tls, ac_server_name = ra_server_name r, ac_shell = ra_shell r,
      ac_tunnel_token_file = ra_tunnel_token_file r,
      ac_tunnel_auth_header = or_default (ra_tunnel_auth_header r) default_tunnel_auth_header,
      ac_tunnel_auth_scheme = or_default (ra_tunnel_auth_scheme r) default_tunnel_auth_scheme,
      ac_limits = or_default (ra_limits r) config_limits_default\<rparr>"

text \<open>
  \<open>PathBuf::join\<close> on Windows, for a relative name: a separator is added unless there is one or the path is
  a bare drive.
\<close>

definition is_ascii_alphabetic :: "u8 \<Rightarrow> bool" where
  "is_ascii_alphabetic b \<longleftrightarrow> 0x41 \<le> b \<and> b \<le> 0x5A \<or> 0x61 \<le> b \<and> b \<le> 0x7A"

definition backslash :: u8 where "backslash = 0x5C"

definition win_join :: "bytes \<Rightarrow> bytes \<Rightarrow> bytes" where
  "win_join p name =
     (let drive = (length p = 2 \<and> is_ascii_alphabetic (p ! 0) \<and> p ! 1 = 0x3A) in
      if p = [] \<or> last p = backslash \<or> last p = 0x2F \<or> drive then p @ name else p @ [backslash] @ name)"

definition default_config_path :: "bool \<Rightarrow> bytes option \<Rightarrow> bytes" where
  "default_config_path windows programdata =
     (if windows
      then (case programdata of
              Some p \<Rightarrow> win_join (win_join p (bstr ''term-agent'')) (bstr ''agent.toml'')
            | None \<Rightarrow> bstr ''C:'' @ [backslash] @ bstr ''ProgramData'' @ [backslash] @ bstr ''term-agent'' @ [backslash] @ bstr ''agent.toml'')
      else bstr ''/etc/term-agent/agent.toml'')"

text \<open>\<open>default_shell\<close>; the value of \<open>ComSpec\<close> is given after its lossy conversion to text.\<close>

definition default_shell :: "bool \<Rightarrow> bytes option \<Rightarrow> bytes" where
  "default_shell windows comspec =
     (if windows
      then (case comspec of Some c \<Rightarrow> c
            | None \<Rightarrow> bstr ''C:'' @ [backslash] @ bstr ''Windows'' @ [backslash] @ bstr ''System32'' @ [backslash] @ bstr ''cmd.exe'')
      else bstr ''/bin/sh'')"

section \<open>Starting the agent\<close>

text \<open>What the \<open>url\<close> crate reports of a URL; the port is that of \<open>port_or_known_default\<close>.\<close>

record url_parts =
  up_scheme :: bytes
  up_host :: "bytes option"
  up_port :: "u16 option"

datatype private_key = Pkcs1 bytes | Sec1 bytes | Pkcs8 bytes

datatype agent_start_error =
    CryptoProvider | AgentConfigUnreadable | AgentConfigUnparsable | InvalidTls bytes
  | CertFileUnreadable | KeyFileUnreadable | CertFileUnparsable | KeyFileUnparsable | KeyNotPkcs8

record agent_env =
  ae_windows :: bool
  ae_provider_ok :: bool
  ae_config_var :: "bytes option"
  ae_programdata :: "bytes option"
  ae_shell_var :: "bytes option"
  ae_comspec :: "bytes option"
  ae_files :: "bytes \<Rightarrow> bytes option"
  ae_toml :: "bytes \<Rightarrow> raw_agent option"
  ae_url :: "bytes \<Rightarrow> url_parts option"
  ae_pem :: rcgen
  ae_private_key :: "bytes \<Rightarrow> private_key option option"

record resolved_config =
  rc_hub :: bytes
  rc_tls_on :: bool
  rc_server_name :: bytes
  rc_shell :: bytes
  rc_limits :: limits
  rc_tunnel_token_file :: "bytes option"
  rc_tunnel_auth_header :: bytes
  rc_tunnel_auth_scheme :: bytes
  rc_cert_chain :: "bytes list"
  rc_key_pkcs8 :: bytes
  rc_hub_ca_path :: "bytes option"

definition starts_with :: "bytes \<Rightarrow> string \<Rightarrow> bool" where
  "starts_with s p \<longleftrightarrow> take (length p) s = bstr p"

definition is_ws_url :: "bytes \<Rightarrow> bool" where
  "is_ws_url hub \<longleftrightarrow> starts_with hub ''ws://'' \<or> starts_with hub ''wss://''"

definition resolve_server_name :: "(bytes \<Rightarrow> url_parts option) \<Rightarrow> bytes option \<Rightarrow> bytes \<Rightarrow> bytes" where
  "resolve_server_name url given hub =
     (case given of
        Some name \<Rightarrow> name
      | None \<Rightarrow>
          if is_ws_url hub then (case Option.bind (url hub) up_host of Some h \<Rightarrow> h | None \<Rightarrow> [])
          else (case split_on 0x3A hub of host # _ \<Rightarrow> host | [] \<Rightarrow> []))"

definition resolve_tls :: "bytes \<Rightarrow> agent_start_error + bool" where
  "resolve_tls s =
     (if s = bstr ''on'' \<or> s = bstr ''true'' then Inr True
      else if s = bstr ''off'' \<or> s = bstr ''false'' then Inr False
      else Inl (InvalidTls s))"

definition load_pem_private_key :: "(bytes \<Rightarrow> private_key option option) \<Rightarrow> bytes \<Rightarrow> private_key option" where
  "load_pem_private_key parse pem = (case parse pem of None \<Rightarrow> None | Some None \<Rightarrow> None | Some (Some key) \<Rightarrow> Some key)"

definition load_cert_files :: "agent_env \<Rightarrow> bytes \<Rightarrow> bytes \<Rightarrow> agent_start_error + bytes list \<times> private_key" where
  "load_cert_files e cert_path key_path =
     bindE (ok_orE (ae_files e cert_path) CertFileUnreadable) (\<lambda>cert_bytes.
     bindE (ok_orE (ae_files e key_path) KeyFileUnreadable) (\<lambda>key_bytes.
     bindE (ok_orE (load_pem_cert_chain (ae_pem e) cert_bytes) CertFileUnparsable) (\<lambda>chain.
     bindE (ok_orE (load_pem_private_key (ae_private_key e) key_bytes) KeyFileUnparsable) (\<lambda>key.
     Inr (chain, key)))))"

definition agent_start :: "agent_env \<Rightarrow> agent_start_error + resolved_config" where
  "agent_start e =
     (if \<not> ae_provider_ok e then Inl CryptoProvider
      else
      (let cfg_path = or_default (ae_config_var e) (default_config_path (ae_windows e) (ae_programdata e)) in
       bindE (ok_orE (Option.bind (ae_files e cfg_path) from_utf8) AgentConfigUnreadable) (\<lambda>s.
       bindE (ok_orE (map_option agent_config_of (ae_toml e s)) AgentConfigUnparsable) (\<lambda>cfg.
       let shell = (case ac_shell cfg of
                      Some sh \<Rightarrow> sh
                    | None \<Rightarrow> or_default (ae_shell_var e) (default_shell (ae_windows e) (ae_comspec e)));
           server_name = resolve_server_name (ae_url e) (ac_server_name cfg) (ac_hub cfg) in
       bindE (resolve_tls (ac_tls cfg)) (\<lambda>tls_on.
       bindE (load_cert_files e (ac_cert_path cfg) (ac_key_path cfg)) (\<lambda>(cert_chain, key_der).
       bindE (case key_der of Pkcs8 k \<Rightarrow> Inr k | _ \<Rightarrow> Inl KeyNotPkcs8) (\<lambda>key_pkcs8.
       Inr \<lparr>rc_hub = ac_hub cfg, rc_tls_on = tls_on, rc_server_name = server_name, rc_shell = shell,
            rc_limits = limits_resolve (ac_limits cfg), rc_tunnel_token_file = ac_tunnel_token_file cfg,
            rc_tunnel_auth_header = ac_tunnel_auth_header cfg, rc_tunnel_auth_scheme = ac_tunnel_auth_scheme cfg,
            rc_cert_chain = cert_chain, rc_key_pkcs8 = key_pkcs8, rc_hub_ca_path = ac_hub_ca_path cfg\<rparr>)))))))"

section \<open>Dialling\<close>

datatype trust_roots = WebpkiRoots | HubRoots "bytes list"

record tls_connector =
  tc_roots :: trust_roots
  tc_chain :: "bytes list"
  tc_key :: bytes

text \<open>
  The libraries of one dial (trust anchors, client certificates, server names, the upgrade request with
  the host of its URI) and what the world does during it: the files, the clocks and the nonce, the
  connections and handshakes that succeed.
\<close>

record net_lib =
  nl_root_ok :: "bytes \<Rightarrow> bool"
  nl_client_cert_ok :: "bytes list \<Rightarrow> bytes \<Rightarrow> bool"
  nl_server_name_ok :: "bytes \<Rightarrow> bool"
  nl_header_name_ok :: "bytes \<Rightarrow> bool"
  nl_request :: "bytes \<Rightarrow> (bytes option \<times> headers) option"
  nl_url :: "bytes \<Rightarrow> url_parts option"
  nl_pem :: rcgen

datatype target = HubAddr bytes | HostPort bytes u16

datatype channel = PlainTcp target | OverTls target bytes tls_connector

datatype framing = RawFrames | WsFrames

record dial_env =
  de_files :: "bytes \<Rightarrow> bytes option"
  de_now :: nanos
  de_clock :: "u64 option"
  de_nonce :: bytes
  de_tcp :: "target \<Rightarrow> bool"
  de_tls :: "target \<Rightarrow> bytes \<Rightarrow> tls_connector \<Rightarrow> bool"
  de_upgrade :: bool

datatype dial_failure =
    HubCaUnreadable | HubCaUnparsable | HubCaRejected | ClientCertRejected | TcpFailed | ServerNameInvalid | TlsFailed
  | UrlUnparsable | UnsupportedScheme bytes | UrlWithoutHost | RequestInvalid | TokenUnavailable | UriWithoutHost
  | AuthFailed dial_error | UpgradeFailed

definition build_tls_connector :: "net_lib \<Rightarrow> dial_env \<Rightarrow> resolved_config \<Rightarrow> dial_failure + tls_connector" where
  "build_tls_connector lib env cfg =
     bindE (case rc_hub_ca_path cfg of
              Some path \<Rightarrow>
                bindE (ok_orE (de_files env path) HubCaUnreadable) (\<lambda>pem.
                bindE (ok_orE (load_pem_cert_chain (nl_pem lib) pem) HubCaUnparsable) (\<lambda>added.
                if list_all (nl_root_ok lib) added then Inr (HubRoots added) else Inl HubCaRejected))
            | None \<Rightarrow> Inr WebpkiRoots) (\<lambda>roots.
     if \<not> nl_client_cert_ok lib (rc_cert_chain cfg) (rc_key_pkcs8 cfg) then Inl ClientCertRejected
     else Inr \<lparr>tc_roots = roots, tc_chain = rc_cert_chain cfg, tc_key = rc_key_pkcs8 cfg\<rparr>)"

text \<open>The connection both ways of dialling make: TCP, then TLS for the server name when it is wanted.\<close>

definition open_channel ::
    "net_lib \<Rightarrow> dial_env \<Rightarrow> resolved_config \<Rightarrow> tls_connector \<Rightarrow> bool \<Rightarrow> target \<Rightarrow> dial_failure + channel" where
  "open_channel lib env cfg tls secure target =
     (if \<not> de_tcp env target then Inl TcpFailed
      else if secure then
        (if \<not> nl_server_name_ok lib (rc_server_name cfg) then Inl ServerNameInvalid
         else if \<not> de_tls env target (rc_server_name cfg) tls then Inl TlsFailed
         else Inr (OverTls target (rc_server_name cfg) tls))
      else Inr (PlainTcp target))"

definition dial_url :: "net_lib \<Rightarrow> bytes \<Rightarrow> dial_failure + bool \<times> bytes \<times> u16" where
  "dial_url lib hub =
     bindE (ok_orE (nl_url lib hub) UrlUnparsable) (\<lambda>url.
     bindE (if up_scheme url = bstr ''wss'' then Inr True
            else if up_scheme url = bstr ''ws'' then Inr False
            else Inl (UnsupportedScheme (up_scheme url))) (\<lambda>secure.
     bindE (ok_orE (up_host url) UrlWithoutHost) (\<lambda>host_for_tcp.
     Inr (secure, host_for_tcp, or_default (up_port url) (if secure then 443 else 80)))))"

text \<open>\<open>HeaderMap::insert\<close>; header names are kept in lower case.\<close>

definition header_put :: "bytes \<Rightarrow> bytes \<Rightarrow> headers \<Rightarrow> headers" where
  "header_put name v hs = (let n = map ascii_lower name in filter (\<lambda>h. fst h \<noteq> n) hs @ [(n, v)])"

text \<open>The upgrade request, with the cached perimeter token and the agent's own assertion.\<close>

definition upgrade_request ::
    "crypto \<Rightarrow> pki \<Rightarrow> net_lib \<Rightarrow> dial_env \<Rightarrow> resolved_config \<Rightarrow> cached_token option
       \<Rightarrow> (dial_failure fail + headers) \<times> cached_token option" where
  "upgrade_request cr pk lib env cfg cache =
     (case nl_request lib (rc_hub cfg) of
        None \<Rightarrow> (Inl (Err RequestInvalid), cache)
      | Some (uri_host, hs) \<Rightarrow>
          (let (token, cache') = tunnel_auth_header cr (de_now env) (nl_header_name_ok lib) (rc_tunnel_auth_header cfg)
                 (rc_tunnel_auth_scheme cfg) (map_option (de_files env) (rc_tunnel_token_file cfg)) cache
           in (bindE (map_errE (\<lambda>e. case e of Panic \<Rightarrow> Panic | Err _ \<Rightarrow> Err TokenUnavailable) token) (\<lambda>tok.
               let hs1 = (case tok of Some (name, v) \<Rightarrow> header_put name v hs | None \<Rightarrow> hs) in
               bindE (ok_orE uri_host (Err UriWithoutHost)) (\<lambda>host.
               bindE (map_errE (\<lambda>e. Err (AuthFailed e))
                 (agent_auth_headers cr pk (rc_cert_chain cfg) (rc_key_pkcs8 cfg) host (de_clock env) (de_nonce env))) (\<lambda>(cert_header, auth_header).
               Inr (header_put (bstr ''x-agent-auth'') auth_header (header_put (bstr ''x-agent-cert'') cert_header hs1))))),
              cache')))"

text \<open>
  One dial: the transport that \<open>run_session\<close> is run on, the upgrade request that was sent and on which
  channel, and the token cache.
\<close>

type_synonym dial_result = "(dial_failure fail + channel \<times> framing) \<times> (channel \<times> headers) option \<times> cached_token option"

definition run_ws ::
    "crypto \<Rightarrow> pki \<Rightarrow> net_lib \<Rightarrow> dial_env \<Rightarrow> resolved_config \<Rightarrow> tls_connector \<Rightarrow> cached_token option \<Rightarrow> dial_result" where
  "run_ws cr pk lib env cfg tls cache =
     (case dial_url lib (rc_hub cfg) of
        Inl e \<Rightarrow> (Inl (Err e), None, cache)
      | Inr (secure, host_for_tcp, port) \<Rightarrow>
          (case upgrade_request cr pk lib env cfg cache of
             (Inl e, cache') \<Rightarrow> (Inl e, None, cache')
           | (Inr request, cache') \<Rightarrow>
               (case open_channel lib env cfg tls secure (HostPort host_for_tcp port) of
                  Inl e \<Rightarrow> (Inl (Err e), None, cache')
                | Inr ch \<Rightarrow>
                    (if de_upgrade env then Inr (ch, WsFrames) else Inl (Err UpgradeFailed), Some (ch, request), cache'))))"

definition run_once ::
    "crypto \<Rightarrow> pki \<Rightarrow> net_lib \<Rightarrow> dial_env \<Rightarrow> resolved_config \<Rightarrow> cached_token option \<Rightarrow> dial_result" where
  "run_once cr pk lib env cfg cache =
     (case build_tls_connector lib env cfg of
        Inl e \<Rightarrow> (Inl (Err e), None, cache)
      | Inr tls \<Rightarrow>
          if is_ws_url (rc_hub cfg) then run_ws cr pk lib env cfg tls cache
          else (bindE (map_errE Err (open_channel lib env cfg tls (rc_tls_on cfg) (HubAddr (rc_hub cfg)))) (\<lambda>ch. Inr (ch, RawFrames)),
                None, cache))"

text \<open>
  The loop of \<open>main\<close>: every attempt dials again, with the token cache of the attempt before; after a panic
  there is no further one. The sleeps between attempts are those of \<open>reconnect_sleeps\<close>.
\<close>

fun agent_dials ::
    "crypto \<Rightarrow> pki \<Rightarrow> net_lib \<Rightarrow> resolved_config \<Rightarrow> dial_env list \<Rightarrow> cached_token option \<Rightarrow> (dial_env \<times> dial_result) list" where
  "agent_dials cr pk lib cfg [] cache = []"
| "agent_dials cr pk lib cfg (env # envs) cache =
     (let (res, sent, cache') = run_once cr pk lib env cfg cache in
      (env, res, sent, cache') # (if res = Inl Panic then [] else agent_dials cr pk lib cfg envs cache'))"

text \<open>The first frame of \<open>run_session\<close>, with the serialiser of \<open>HelloPayload\<close>.\<close>

definition agent_hello :: "(u32 \<Rightarrow> bytes) \<Rightarrow> frame" where
  "agent_hello ser_hello = frame_hello (ser_hello HELLO_VERSION)"

section \<open>The hub's side\<close>

datatype accept_error =
    TlsAccept | NoPeerCertificates | EmptyPeerChain | PeerSan pki_error | Unauthorized ws_auth_error
  | HelloTimeout | HelloRead "frame_error fail" | HelloRejected hello_error

definition peer_machine_id :: "pki \<Rightarrow> bytes list option \<Rightarrow> accept_error + bytes" where
  "peer_machine_id pk peer_certificates =
     bindE (ok_orE peer_certificates NoPeerCertificates) (\<lambda>certs.
     bindE (ok_orE (case certs of leaf # _ \<Rightarrow> Some leaf | [] \<Rightarrow> None) EmptyPeerChain) (\<lambda>leaf.
     map_errE PeerSan (extract_machine_id_from_san pk leaf)))"

text \<open>
  The start of \<open>handle_connection\<close>, with what the reader yields before the deadline (\<open>None\<close> after it).
\<close>

definition read_hello ::
    "(bytes \<Rightarrow> u32 option) \<Rightarrow> bytes \<Rightarrow> (frame_error fail + (frame \<times> u64) option) option \<Rightarrow> hub_links
       \<Rightarrow> accept_error + nat \<times> nat option \<times> hub_links" where
  "read_hello parse machine_id incoming hl =
     bindE (ok_orE incoming HelloTimeout) (\<lambda>r.
     bindE (map_errE HelloRead r) (\<lambda>first.
     map_errE HelloRejected (link_accept parse machine_id first hl)))"

text \<open>
  One connection of \<open>run_acceptor\<close>. The TLS handshake demands a client certificate, runs the verifier on it
  and checks the peer's signature, whose outcome is \<open>signature_ok\<close>.
\<close>

definition accept_agent ::
    "crypto \<Rightarrow> pki \<Rightarrow> (bytes \<Rightarrow> u32 option) \<Rightarrow> issued_cert_store \<Rightarrow> u64 \<Rightarrow> bool \<Rightarrow> bytes list
       \<Rightarrow> (frame_error fail + (frame \<times> u64) option) option \<Rightarrow> hub_links \<Rightarrow> accept_error + nat \<times> nat option \<times> hub_links" where
  "accept_agent cr pk parse issued_certs now signature_ok peer_certs incoming hl =
     bindE (case peer_certs of
              [] \<Rightarrow> Inl TlsAccept
            | end_entity # intermediates \<Rightarrow>
                if signature_ok then map_errE (\<lambda>_. TlsAccept) (verify_client_cert cr pk issued_certs end_entity intermediates now)
                else Inl TlsAccept) (\<lambda>_.
     bindE (peer_machine_id pk (Some peer_certs)) (\<lambda>machine_id.
     read_hello parse machine_id incoming hl))"

text \<open>\<open>connect\<close> of \<open>agent_ws.rs\<close>.\<close>

definition agent_connect ::
    "crypto \<Rightarrow> pki \<Rightarrow> (bytes \<Rightarrow> u32 option) \<Rightarrow> issued_cert_store \<Rightarrow> ws_clock \<Rightarrow> headers
       \<Rightarrow> (frame_error fail + (frame \<times> u64) option) option \<Rightarrow> replay_cache \<Rightarrow> hub_links
       \<Rightarrow> (accept_error + nat \<times> nat option \<times> hub_links) \<times> replay_cache" where
  "agent_connect cr pk parse issued_certs clock hs incoming cache hl =
     (let (auth, cache') = authenticate_ws_upgrade cr pk issued_certs clock hs cache in
      (bindE (map_errE Unauthorized auth) (\<lambda>machine_id. read_hello parse machine_id incoming hl), cache'))"

section \<open>Which channels an agent opens\<close>

definition url_laws :: "net_lib \<Rightarrow> bool" where
  "url_laws lib \<longleftrightarrow>
     (\<forall>s u. nl_url lib s = Some u \<longrightarrow>
        (starts_with s ''wss://'' \<longrightarrow> up_scheme u = bstr ''wss'') \<and> (starts_with s ''ws://'' \<longrightarrow> up_scheme u = bstr ''ws''))"

definition agent_toml :: "agent_env \<Rightarrow> raw_agent option" where
  "agent_toml e =
     Option.bind (Option.bind (ae_files e (or_default (ae_config_var e) (default_config_path (ae_windows e) (ae_programdata e)))) from_utf8)
       (ae_toml e)"

definition asks_clear :: "raw_agent \<Rightarrow> bool" where
  "asks_clear r \<longleftrightarrow>
     starts_with (ra_hub r) ''ws://'' \<or>
     \<not> is_ws_url (ra_hub r) \<and> (ra_tls r = Some (bstr ''off'') \<or> ra_tls r = Some (bstr ''false''))"

definition private_channel :: "net_lib \<Rightarrow> dial_env \<Rightarrow> resolved_config \<Rightarrow> channel \<Rightarrow> bool" where
  "private_channel lib env cfg ch \<longleftrightarrow>
     (\<exists>target roots. let tls = \<lparr>tc_roots = roots, tc_chain = rc_cert_chain cfg, tc_key = rc_key_pkcs8 cfg\<rparr> in
        ch = OverTls target (rc_server_name cfg) tls \<and> de_tls env target (rc_server_name cfg) tls \<and>
        (case rc_hub_ca_path cfg of
           None \<Rightarrow> roots = WebpkiRoots
         | Some path \<Rightarrow> (\<exists>pem added. de_files env path = Some pem \<and> load_pem_cert_chain (nl_pem lib) pem = Some added \<and>
             roots = HubRoots added)))"

lemma ws_not_wss: "starts_with s ''ws://'' \<Longrightarrow> \<not> starts_with s ''wss://''"
proof
  assume "starts_with s ''ws://''" "starts_with s ''wss://''"
  then have "take 3 (bstr ''ws://'') = take 3 (bstr ''wss://'')"
    unfolding starts_with_def by (metis (no_types, lifting) One_nat_def list.size min_def numeral_3_eq_3 take_take Suc_le_mono le0 Suc_eq_plus1 add.commute)
  then show False by (simp add: bstr_def)
qed

lemma build_tls_connector_D:
  assumes "build_tls_connector lib env cfg = Inr tls"
  shows "\<exists>roots. tls = \<lparr>tc_roots = roots, tc_chain = rc_cert_chain cfg, tc_key = rc_key_pkcs8 cfg\<rparr> \<and>
    (case rc_hub_ca_path cfg of
       None \<Rightarrow> roots = WebpkiRoots
     | Some path \<Rightarrow> (\<exists>pem added. de_files env path = Some pem \<and> load_pem_cert_chain (nl_pem lib) pem = Some added \<and>
         roots = HubRoots added))"
  using assms by (auto simp: build_tls_connector_def bindE_Inr_iff ok_orE_def split: option.splits if_splits)

lemma open_channel_private:
  assumes "build_tls_connector lib env cfg = Inr tls" "open_channel lib env cfg tls secure target = Inr ch"
  shows "if secure then private_channel lib env cfg ch else ch = PlainTcp target"
  using assms(2) build_tls_connector_D [OF assms(1)]
  by (auto simp: open_channel_def private_channel_def Let_def split: if_splits)

lemma run_ws_channel:
  assumes "url_laws lib" "is_ws_url (rc_hub cfg)" "run_ws cr pk lib env cfg tls cache = (res, sent, cache')"
    and "res = Inr (ch, fr) \<or> sent = Some (ch, req)"
  shows "\<exists>host port. open_channel lib env cfg tls (starts_with (rc_hub cfg) ''wss://'') (HostPort host port) = Inr ch"
proof -
  obtain secure host port where u: "dial_url lib (rc_hub cfg) = Inr (secure, host, port)"
    "open_channel lib env cfg tls secure (HostPort host port) = Inr ch"
    using assms(3,4) by (auto simp: run_ws_def split: sum.splits prod.splits if_splits)
  have "secure \<longleftrightarrow> starts_with (rc_hub cfg) ''wss://''"
    using u(1) assms(1,2) ws_not_wss [of "rc_hub cfg"]
    by (auto simp: dial_url_def bindE_Inr_iff ok_orE_def url_laws_def is_ws_url_def bstr_def split: option.splits if_splits)
  with u(2) show ?thesis by auto
qed

lemma run_once_channel:
  assumes "url_laws lib" "run_once cr pk lib env cfg cache = (res, sent, cache')" "res = Inr (ch, fr) \<or> sent = Some (ch, req)"
  shows "if starts_with (rc_hub cfg) ''ws://'' \<or> \<not> is_ws_url (rc_hub cfg) \<and> \<not> rc_tls_on cfg
    then \<exists>t. ch = PlainTcp t else private_channel lib env cfg ch"
proof -
  obtain tls where b: "build_tls_connector lib env cfg = Inr tls"
    using assms(2,3) by (auto simp: run_once_def split: sum.splits)
  show ?thesis
  proof (cases "is_ws_url (rc_hub cfg)")
    case True
    with assms(2) b have "run_ws cr pk lib env cfg tls cache = (res, sent, cache')" by (simp add: run_once_def)
    from run_ws_channel [OF assms(1) True this assms(3)] open_channel_private [OF b] True ws_not_wss [of "rc_hub cfg"]
    show ?thesis by (fastforce simp: is_ws_url_def)
  next
    case False
    with assms(2,3) b have "open_channel lib env cfg tls (rc_tls_on cfg) (HubAddr (rc_hub cfg)) = Inr ch"
      by (auto simp: run_once_def bindE_Inr_iff)
    with open_channel_private [OF b] False show ?thesis by (fastforce simp: is_ws_url_def)
  qed
qed

lemma agent_dials_run_once:
  "(env, res, sent, c) \<in> set (agent_dials cr pk lib cfg envs cache) \<Longrightarrow>
     \<exists>cache0. run_once cr pk lib env cfg cache0 = (res, sent, c)"
  by (induction cr pk lib cfg envs cache rule: agent_dials.induct) (auto simp: Let_def split: prod.splits if_splits)

lemma agent_start_clear:
  assumes "agent_toml e = Some r" "agent_start e = Inr cfg"
  shows "rc_hub cfg = ra_hub r" "asks_clear r \<longleftrightarrow> starts_with (rc_hub cfg) ''ws://'' \<or> \<not> is_ws_url (rc_hub cfg) \<and> \<not> rc_tls_on cfg"
proof -
  have "rc_hub cfg = ra_hub r \<and> resolve_tls (or_default (ra_tls r) default_tls) = Inr (rc_tls_on cfg)"
    using assms by (auto simp: agent_start_def agent_toml_def Let_def bindE_Inr_iff ok_orE_def agent_config_of_def
        split: option.splits if_splits prod.splits bind_splits)
  then show "rc_hub cfg = ra_hub r" "asks_clear r \<longleftrightarrow> starts_with (rc_hub cfg) ''ws://'' \<or> \<not> is_ws_url (rc_hub cfg) \<and> \<not> rc_tls_on cfg"
    by (auto simp: asks_clear_def resolve_tls_def or_default_def default_tls_def bstr_def split: if_splits option.splits)
qed

section \<open>The hub's connections\<close>

text \<open>
  All that happens to the hub's links from outside, in any order: connections on either listener, ends of
  connections, reloads of the certificate list and collections of the replay cache. The list of peers
  records, for every link ever registered, its machine, the certificate and the list it was checked with.
\<close>

record hub_conns =
  hc_links :: hub_links
  hc_cache :: replay_cache
  hc_store :: issued_cert_store
  hc_peers :: "(bytes \<times> bytes \<times> issued_cert_store) list"

datatype conn_event =
    TlsConn u64 bool "bytes list" "(frame_error fail + (frame \<times> u64) option) option"
  | WsConn ws_clock headers "(frame_error fail + (frame \<times> u64) option) option"
  | EndConn nat
  | ReloadCerts bool store_file
  | ReplayGc nanos

definition register_peer ::
    "(accept_error + nat \<times> nat option \<times> hub_links) \<Rightarrow> bytes \<Rightarrow> bytes \<Rightarrow> hub_conns \<Rightarrow> hub_conns" where
  "register_peer res machine_id cert h =
     (case res of
        Inl _ \<Rightarrow> h
      | Inr (_, _, hl) \<Rightarrow> h\<lparr>hc_links := hl, hc_peers := hc_peers h @ [(machine_id, cert, hc_store h)]\<rparr>)"

fun conn_step :: "crypto \<Rightarrow> pki \<Rightarrow> issued_cert_store codec \<Rightarrow> (bytes \<Rightarrow> u32 option) \<Rightarrow> conn_event \<Rightarrow> hub_conns \<Rightarrow> hub_conns" where
  "conn_step cr pk cd parse (TlsConn now signature_ok chain incoming) h =
     register_peer (accept_agent cr pk parse (hc_store h) now signature_ok chain incoming (hc_links h))
       (case peer_machine_id pk (Some chain) of Inr m \<Rightarrow> m | Inl _ \<Rightarrow> []) (hd chain) h"
| "conn_step cr pk cd parse (WsConn clock hs incoming) h =
     (let (res, cache') = agent_connect cr pk parse (hc_store h) clock hs incoming (hc_cache h) (hc_links h) in
      register_peer res
        (case fst (authenticate_ws_upgrade cr pk (hc_store h) clock hs (hc_cache h)) of Inr m \<Rightarrow> m | Inl _ \<Rightarrow> [])
        (case ws_auth_cert cr pk (hc_store h) clock hs of Inr (cert_der, _) \<Rightarrow> cert_der | Inl _ \<Rightarrow> [])
        (h\<lparr>hc_cache := cache'\<rparr>))"
| "conn_step cr pk cd parse (EndConn c) h =
     (if c < length (hc_peers h) then h\<lparr>hc_links := link_teardown (fst (hc_peers h ! c)) c (hc_links h)\<rparr> else h)"
| "conn_step cr pk cd parse (ReloadCerts readable f) h = h\<lparr>hc_store := reload_issued_certs cd readable f (hc_store h)\<rparr>"
| "conn_step cr pk cd parse (ReplayGc now) h = h\<lparr>hc_cache := gc_ws_replay now (hc_cache h)\<rparr>"

definition conns_new :: "issued_cert_store \<Rightarrow> hub_conns" where
  "conns_new store = \<lparr>hc_links = \<lparr>hl_links = [], hl_agents = []\<rparr>, hc_cache = [], hc_store = store, hc_peers = []\<rparr>"

definition admitted :: "crypto \<Rightarrow> pki \<Rightarrow> bytes \<times> bytes \<times> issued_cert_store \<Rightarrow> bool" where
  "admitted cr pk p \<longleftrightarrow>
     (case p of (machine_id, cert, store) \<Rightarrow>
        cert_identity pk cert machine_id \<and>
        (\<exists>entry. find_by_fingerprint store (cert_fingerprint cr cert) = Some entry \<and> ce_machine_id entry = machine_id) \<and>
        (\<exists>now. (\<exists>ints. rustls_chain pk cert ints now) \<or> webpki_chain pk cert now))"

definition newest_for :: "(bytes \<times> 'a) list \<Rightarrow> bytes \<Rightarrow> nat \<Rightarrow> bool" where
  "newest_for peers machine_id k \<longleftrightarrow>
     k < length peers \<and> fst (peers ! k) = machine_id \<and> (\<forall>d. k < d \<and> d < length peers \<longrightarrow> fst (peers ! d) \<noteq> machine_id)"

definition conns_ok :: "crypto \<Rightarrow> pki \<Rightarrow> hub_conns \<Rightarrow> bool" where
  "conns_ok cr pk h \<longleftrightarrow>
     length (hc_peers h) = length (hl_links (hc_links h)) \<and> list_all (admitted cr pk) (hc_peers h) \<and>
     hm_ok (hl_agents (hc_links h)) \<and>
     (\<forall>m k. hm_get (hl_agents (hc_links h)) m = Some k \<longrightarrow> newest_for (hc_peers h) m k)"

lemma read_hello_D:
  assumes "read_hello parse machine_id incoming hl = Inr (k, old, hl')"
  shows "k = length (hl_links hl) \<and> old = hm_get (hl_agents hl) machine_id \<and>
    length (hl_links hl') = Suc k \<and> hl_agents hl' = hm_insert machine_id k (hl_agents hl)"
  using assms by (auto simp: read_hello_def link_accept_def bindE_Inr_iff Let_def)

lemma accept_agent_D:
  assumes "accept_agent cr pk parse store now signature_ok chain incoming hl = Inr (k, old, hl')"
  obtains machine_id where "chain \<noteq> []" "admitted cr pk (machine_id, hd chain, store)"
    "peer_machine_id pk (Some chain) = Inr machine_id" "read_hello parse machine_id incoming hl = Inr (k, old, hl')"
proof (cases chain)
  case Nil
  with assms show ?thesis by (simp add: accept_agent_def)
next
  case (Cons leaf ints)
  from assms Cons obtain machine_id where m: "verify_client_cert cr pk store leaf ints now = Inr ()"
    "peer_machine_id pk (Some chain) = Inr machine_id" "read_hello parse machine_id incoming hl = Inr (k, old, hl')"
    by (auto simp: accept_agent_def bindE_Inr_iff split: if_splits)
  have s: "cert_identity pk leaf machine_id"
    using m(2) Cons by (simp add: peer_machine_id_def extract_machine_id_iff)
  have "admitted cr pk (machine_id, leaf, store)"
    using m(1) s unfolding verify_client_cert_iff admitted_def
    by (auto simp: extract_machine_id_iff [symmetric])
  with that [of machine_id] m Cons show ?thesis by simp
qed

lemma agent_connect_D:
  assumes "agent_connect cr pk parse store clock hs incoming cache hl = (Inr (k, old, hl'), cache')"
  obtains machine_id cert auth where "admitted cr pk (machine_id, cert, store)"
    "fst (authenticate_ws_upgrade cr pk store clock hs cache) = Inr machine_id"
    "ws_auth_cert cr pk store clock hs = Inr (cert, auth)" "read_hello parse machine_id incoming hl = Inr (k, old, hl')"
proof -
  obtain machine_id where a: "authenticate_ws_upgrade cr pk store clock hs cache = (Inr machine_id, cache')"
    "read_hello parse machine_id incoming hl = Inr (k, old, hl')"
    using assms by (auto simp: agent_connect_def bindE_Inr_iff split: prod.splits)
  obtain cert fp entry auth where w: "ws_auth_cert cr pk store clock hs = Inr (cert, fp, entry, auth)" "ce_machine_id entry = machine_id"
    using a(1) by (auto simp: authenticate_ws_upgrade_def bindE_Inr_iff split: sum.splits if_splits prod.splits)
  have "admitted cr pk (machine_id, cert, store)"
    using w by (auto simp: ws_auth_cert_iff admitted_def)
  with that a w show ?thesis by simp
qed

lemma newest_for_snoc:
  "k = length peers \<Longrightarrow> newest_for (peers @ [(m, x)]) m k"
  "newest_for peers m' k \<Longrightarrow> m \<noteq> m' \<Longrightarrow> newest_for (peers @ [(m, x)]) m' k"
  by (auto simp: newest_for_def nth_append less_Suc_eq)

lemma conns_ok_other [simp]:
  "conns_ok cr pk (h\<lparr>hc_cache := c\<rparr>) = conns_ok cr pk h" "conns_ok cr pk (h\<lparr>hc_store := s\<rparr>) = conns_ok cr pk h"
  by (simp_all add: conns_ok_def)

lemma register_peer_ok:
  assumes "conns_ok cr pk h" "\<And>k old hl. res = Inr (k, old, hl) \<Longrightarrow>
      admitted cr pk (machine_id, cert, hc_store h) \<and> read_hello parse machine_id incoming (hc_links h) = Inr (k, old, hl)"
  shows "conns_ok cr pk (register_peer res machine_id cert h)"
proof (cases res)
  case (Inr x)
  obtain k old hl where x: "x = (k, old, hl)" by (cases x)
  with assms(2) Inr have a: "admitted cr pk (machine_id, cert, hc_store h)"
    "read_hello parse machine_id incoming (hc_links h) = Inr (k, old, hl)" by simp_all
  note r = read_hello_D [OF a(2)]
  from assms(1) show ?thesis
    unfolding conns_ok_def register_peer_def Inr x
    using a(1) r by (auto intro: newest_for_snoc(2) newest_for_snoc(1) split: if_splits)
qed (use assms(1) in \<open>simp add: register_peer_def\<close>)

lemma end_conn_ok:
  assumes "conns_ok cr pk h" "k < length (hc_peers h)"
  shows "conns_ok cr pk (h\<lparr>hc_links := link_teardown (fst (hc_peers h ! k)) k (hc_links h)\<rparr>)"
proof -
  let ?hl = "link_teardown (fst (hc_peers h ! k)) k (hc_links h)"
  have "length (hl_links ?hl) = length (hl_links (hc_links h))" by (simp add: link_teardown_def)
  moreover have "hm_ok (hl_agents (hc_links h)) \<Longrightarrow> hm_ok (hl_agents ?hl)" by (simp add: link_teardown_def)
  moreover have "hm_get (hl_agents (hc_links h)) m = Some c" if "hm_get (hl_agents ?hl) m = Some c" for m c
    using that by (auto simp: link_teardown_def split: if_splits)
  moreover have "hc_peers (h\<lparr>hc_links := ?hl\<rparr>) = hc_peers h" "hc_links (h\<lparr>hc_links := ?hl\<rparr>) = ?hl" by simp_all
  ultimately show ?thesis using assms(1) unfolding conns_ok_def by metis
qed

lemma conn_step_ok:
  assumes "conns_ok cr pk h"
  shows "conns_ok cr pk (conn_step cr pk cd parse ev h)"
proof (cases ev)
  case (TlsConn now signature_ok chain incoming)
  have "admitted cr pk (case peer_machine_id pk (Some chain) of Inr m \<Rightarrow> m | Inl _ \<Rightarrow> [], hd chain, hc_store h) \<and>
      read_hello parse (case peer_machine_id pk (Some chain) of Inr m \<Rightarrow> m | Inl _ \<Rightarrow> []) incoming (hc_links h) = Inr (k, old, hl)"
    if "accept_agent cr pk parse (hc_store h) now signature_ok chain incoming (hc_links h) = Inr (k, old, hl)" for k old hl
    using that by (cases rule: accept_agent_D) simp
  from register_peer_ok [OF assms this] show ?thesis unfolding TlsConn by simp
next
  case (WsConn clock hs incoming)
  obtain res cache' where c: "agent_connect cr pk parse (hc_store h) clock hs incoming (hc_cache h) (hc_links h) = (res, cache')"
    by (cases "agent_connect cr pk parse (hc_store h) clock hs incoming (hc_cache h) (hc_links h)")
  let ?m = "case fst (authenticate_ws_upgrade cr pk (hc_store h) clock hs (hc_cache h)) of Inr m \<Rightarrow> m | Inl _ \<Rightarrow> []"
  let ?c = "case ws_auth_cert cr pk (hc_store h) clock hs of Inr (cert_der, _) \<Rightarrow> cert_der | Inl _ \<Rightarrow> []"
  have "admitted cr pk (?m, ?c, hc_store (h\<lparr>hc_cache := cache'\<rparr>)) \<and>
      read_hello parse ?m incoming (hc_links (h\<lparr>hc_cache := cache'\<rparr>)) = Inr (k, old, hl)"
    if "res = Inr (k, old, hl)" for k old hl
    using c [unfolded that] by (cases rule: agent_connect_D) simp
  moreover have "conns_ok cr pk (h\<lparr>hc_cache := cache'\<rparr>)" using assms by simp
  ultimately have "conns_ok cr pk (register_peer res ?m ?c (h\<lparr>hc_cache := cache'\<rparr>))" by (rule register_peer_ok [rotated])
  then show ?thesis unfolding WsConn by (simp add: c)
next
  case (EndConn k)
  then show ?thesis using end_conn_ok [OF assms, of k] assms by simp
qed (use assms in simp_all)

lemma conns_run_ok: "conns_ok cr pk h \<Longrightarrow> conns_ok cr pk (fold (conn_step cr pk cd parse) evs h)"
  by (induction evs arbitrary: h) (simp_all add: conn_step_ok)

section \<open>Properties\<close>

text \<open>
  C5. The links are authenticated: whatever connects, disconnects and is reloaded, and in whatever order,
  the link under which browsers reach a machine is the newest one registered for it, and its peer presented a
  certificate that chains to the agents' CA, names that machine, and was listed for it when it connected.
\<close>

theorem links_authenticated:
  assumes "h = fold (conn_step cr pk cd parse) evs (conns_new store)"
    and "hm_get (hl_agents (hc_links h)) machine_id = Some k"
  shows "k < length (hl_links (hc_links h)) \<and>
    (\<exists>cert listed. hc_peers h ! k = (machine_id, cert, listed) \<and> cert_identity pk cert machine_id \<and>
       (\<exists>entry. find_by_fingerprint listed (cert_fingerprint cr cert) = Some entry \<and> ce_machine_id entry = machine_id) \<and>
       (\<exists>now. (\<exists>ints. rustls_chain pk cert ints now) \<or> webpki_chain pk cert now)) \<and>
    (\<forall>d. k < d \<and> d < length (hl_links (hc_links h)) \<longrightarrow> fst (hc_peers h ! d) \<noteq> machine_id)"
proof -
  have "conns_ok cr pk (conns_new store)" by (simp add: conns_ok_def conns_new_def)
  from conns_run_ok [OF this] have "conns_ok cr pk h" unfolding assms(1) .
  with assms(2) have k: "newest_for (hc_peers h) machine_id k" "length (hc_peers h) = length (hl_links (hc_links h))"
    "list_all (admitted cr pk) (hc_peers h)"
    by (auto simp: conns_ok_def)
  then have "k < length (hc_peers h)" "fst (hc_peers h ! k) = machine_id" "admitted cr pk (hc_peers h ! k)"
    "\<forall>d. k < d \<and> d < length (hl_links (hc_links h)) \<longrightarrow> fst (hc_peers h ! d) \<noteq> machine_id"
    by (auto simp: newest_for_def list_all_length)
  with k(2) show ?thesis by (cases "hc_peers h ! k") (auto simp: admitted_def)
qed

text \<open>
  C27. An agent speaks in the clear only if its \<open>agent.toml\<close> says so, with a \<open>ws://\<close> hub or with \<open>tls\<close> off
  for a plain one: on every other attempt of its life, what carries the session or the upgrade request with
  the perimeter token is a TLS channel to the configured server name, with its own client certificate, that
  trusts the roots of \<open>hub_ca_path\<close> as they are at that attempt, or the public ones when there is none.
\<close>

theorem agent_dials_private:
  assumes "agent_toml e = Some r" "agent_start e = Inr cfg" "url_laws lib"
    and "(env, res, sent, cache') \<in> set (agent_dials cr pk lib cfg envs cache)"
    and "res = Inr (ch, fr) \<or> sent = Some (ch, request)"
  shows "if asks_clear r then \<exists>target. ch = PlainTcp target else private_channel lib env cfg ch"
proof -
  obtain cache0 where "run_once cr pk lib env cfg cache0 = (res, sent, cache')"
    using agent_dials_run_once [OF assms(4)] by blast
  from run_once_channel [OF assms(3) this assms(5)] show ?thesis
    unfolding agent_start_clear [OF assms(1,2)] .
qed

text \<open>What is relied on of the agent's PEM reader and of the JSON of the hello.\<close>

definition pem_laws :: "rcgen \<Rightarrow> agent_env \<Rightarrow> bool" where
  "pem_laws lib e \<longleftrightarrow>
     (\<forall>der. pem_certs (ae_pem e) (cert_to_pem lib der) = Some [der]) \<and>
     (\<forall>k. ae_private_key e (key_to_pem lib k) = Some (Some (Pkcs8 k)))"

definition hello_laws :: "(bytes \<Rightarrow> u32 option) \<Rightarrow> (u32 \<Rightarrow> bytes) \<Rightarrow> bool" where
  "hello_laws parse ser_hello \<longleftrightarrow> (\<forall>v. parse (ser_hello v) = Some v \<and> ser_hello v \<noteq> [] \<and> length (ser_hello v) \<le> 1024)"

lemma agent_start_chain:
  assumes "pem_laws lib e" "agent_toml e = Some r" "ae_provider_ok e" "resolve_tls (or_default (ra_tls r) default_tls) = Inr tls"
    and "ae_files e (ra_cert_path r) = Some (cert_to_pem lib der)" "ae_files e (ra_key_path r) = Some (key_to_pem lib key)"
  obtains cfg where "agent_start e = Inr cfg" "rc_cert_chain cfg = [der]" "rc_key_pkcs8 cfg = key"
proof -
  have l: "load_cert_files e (ra_cert_path r) (ra_key_path r) = Inr ([der], Pkcs8 key)"
    using assms(1,5,6) by (simp add: load_cert_files_def load_pem_cert_chain_def load_pem_private_key_def pem_laws_def)
  have "\<exists>cfg. agent_start e = Inr cfg \<and> rc_cert_chain cfg = [der] \<and> rc_key_pkcs8 cfg = key"
    using assms(2,3,4) l by (auto simp: agent_start_def agent_toml_def agent_config_of_def Let_def bind_eq_Some_conv from_utf8_def)
  with that show thesis by blast
qed

lemma run_once_presents:
  assumes "run_once cr pk lib env cfg cache = (Inr (OverTls target sn tls, fr), sent, cache')"
  shows "tc_chain tls = rc_cert_chain cfg \<and> tc_key tls = rc_key_pkcs8 cfg"
proof -
  obtain tls' where b: "build_tls_connector lib env cfg = Inr tls'" using assms by (auto simp: run_once_def split: sum.splits)
  have "tls = tls'"
    using assms b by (auto simp: run_once_def run_ws_def open_channel_def bindE_Inr_iff split: sum.splits prod.splits if_splits)
  with build_tls_connector_D [OF b] show ?thesis by auto
qed

lemma read_hello_agent:
  assumes "hello_laws parse ser_hello"
  shows "\<exists>hl'. read_hello parse i (Some (fst (recv cursor_read_exact (encode (agent_hello ser_hello) @ rest)))) hl =
      Inr (length (hl_links hl), hm_get (hl_agents hl) i, hl') \<and> hm_get (hl_agents hl') i = Some (length (hl_links hl))"
proof -
  have "wf_frame (agent_hello ser_hello)"
    using assms by (simp add: wf_frame_def agent_hello_def frame_hello_def hello_laws_def)
  then have "fst (recv cursor_read_exact (encode (agent_hello ser_hello) @ rest)) =
      Inr (Some (agent_hello ser_hello, word_of_nat (length (encode (agent_hello ser_hello)))))"
    using cursor_recv_iff [of "encode (agent_hello ser_hello) @ rest" "agent_hello ser_hello"
        "word_of_nat (length (encode (agent_hello ser_hello)))" rest] by simp
  then show ?thesis
    using assms by (simp add: read_hello_def link_accept_def check_hello_def agent_hello_def frame_hello_def hello_laws_def failE_def Let_def)
qed

text \<open>
  C12. From \<open>issue-cert\<close> to a registered machine: an agent that has the two files of a certificate that was
  reported as issued starts with them, and when its dial opens a TLS channel to the hub during the
  validity of the certificate, the hub, having reloaded its list, registers the link under the issued id from
  the first frame the agent sends, whatever follows it and whatever was registered before.
\<close>

theorem issued_agent_connects:
  assumes "codec_ok cd" "cmd_issue_cert cr lib cd aio io d args (fs, dd) = (Inr (), fs', dd')"
    and "\<And>signer. load_ca_signer lib (ci_readable io) d fs = Inr signer \<Longrightarrow>
      issuer_trusted lib pk (cs_issuer_params signer) (cs_issuer_key signer)"
    and "pem_laws lib e" "hello_laws parse ser_hello"
    and "agent_toml e = Some r" "ae_provider_ok e" "ra_tls r \<in> {None, Some (bstr ''on'')}"
  shows "\<exists>opts i nb na. mint_opts args = Inr opts \<and> io_id opts = Some i \<and>
    clock_window (io_days opts) (ci_clock io) = Inr (nb, na) \<and>
    (ae_files e (ra_cert_path r) = map_option fst (fs' (issue_dir io opts, i @ bstr ''.crt'')) \<and>
     ae_files e (ra_key_path r) = map_option fst (fs' (issue_dir io opts, i @ bstr ''.key'')) \<longrightarrow>
     (\<exists>cfg. agent_start e = Inr cfg \<and>
       (\<forall>net env cache target sn tls sent cache' now snapshot hl rest.
          run_once cr pk net env cfg cache = (Inr (OverTls target sn tls, RawFrames), sent, cache') \<and>
          nb \<le> uint now \<and> uint now \<le> na \<longrightarrow>
          (\<exists>hl'. accept_agent cr pk parse (reload_issued_certs cd True (dd_certs dd') snapshot) now True (tc_chain tls)
             (Some (fst (recv cursor_read_exact (encode (agent_hello ser_hello) @ rest)))) hl =
               Inr (length (hl_links hl), hm_get (hl_agents hl) i, hl') \<and>
             hm_get (hl_agents hl') i = Some (length (hl_links hl))))))"
    (is "\<exists>opts i nb na. _ \<and> _ \<and> _ \<and> (_ opts i nb na \<longrightarrow> ?starts i nb na)")
proof -
  obtain opts i der key nb na where c: "mint_opts args = Inr opts" "io_id opts = Some i"
    "clock_window (io_days opts) (ci_clock io) = Inr (nb, na)"
    "fs' (issue_dir io opts, i @ bstr ''.crt'') = Some (cert_to_pem lib der, MODE_CERT)"
    "fs' (issue_dir io opts, i @ bstr ''.key'') = Some (key_to_pem lib key, MODE_KEY)" "cert_identity pk der i"
    "\<And>ints now snapshot. nb \<le> uint now \<and> uint now \<le> na \<Longrightarrow>
       verify_client_cert cr pk (reload_issued_certs cd True (dd_certs dd') snapshot) der ints now = Inr ()"
    using issued_cert_admitted [OF assms(1,2,3)] by metis
  have tls: "resolve_tls (or_default (ra_tls r) default_tls) = Inr True"
    using assms(8) by (auto simp: resolve_tls_def or_default_def default_tls_def)
  have "\<exists>hl'. accept_agent cr pk parse (reload_issued_certs cd True (dd_certs dd') snapshot) now True [der]
             (Some (fst (recv cursor_read_exact (encode (agent_hello ser_hello) @ rest)))) hl =
               Inr (length (hl_links hl), hm_get (hl_agents hl) i, hl') \<and>
             hm_get (hl_agents hl') i = Some (length (hl_links hl))"
    if "nb \<le> uint now \<and> uint now \<le> na" for now snapshot hl rest
    using c(7) [OF that] c(6) read_hello_agent [OF assms(5), of i rest hl]
    by (simp add: accept_agent_def peer_machine_id_def extract_machine_id_iff [symmetric])
  moreover have "\<exists>cfg. agent_start e = Inr cfg \<and> rc_cert_chain cfg = [der]"
    if "ae_files e (ra_cert_path r) = Some (cert_to_pem lib der)" "ae_files e (ra_key_path r) = Some (key_to_pem lib key)"
    using agent_start_chain [OF assms(4,6,7) tls that] by metis
  ultimately have "ae_files e (ra_cert_path r) = map_option fst (fs' (issue_dir io opts, i @ bstr ''.crt'')) \<and>
     ae_files e (ra_key_path r) = map_option fst (fs' (issue_dir io opts, i @ bstr ''.key'')) \<Longrightarrow> ?starts i nb na"
    unfolding c(4,5) by (fastforce dest: run_once_presents)
  with c(1,2,3) show ?thesis by blast
qed

section \<open>What the configuration allows\<close>

text \<open>
  The warning printed for \<open>tls = "off"\<close> says that the setting is ignored; the session runs over plain TCP. A
  hub given as an IPv6 address gets a bracket as its server name.
\<close>

lemma tls_off_is_plain:
  assumes "\<not> is_ws_url (rc_hub cfg)" "\<not> rc_tls_on cfg" "build_tls_connector lib env cfg = Inr tls" "de_tcp env (HubAddr (rc_hub cfg))"
  shows "run_once cr pk lib env cfg cache = (Inr (PlainTcp (HubAddr (rc_hub cfg)), RawFrames), None, cache)"
  using assms by (simp add: run_once_def open_channel_def)

lemma ipv6_server_name: "resolve_server_name url None (bstr ''[::1]:7700'') = bstr ''[''"
  by (simp add: resolve_server_name_def is_ws_url_def starts_with_def bstr_def)

section \<open>An example\<close>

definition demo_raw_agent :: raw_agent where
  "demo_raw_agent =
     \<lparr>ra_hub = bstr ''h:7700'', ra_cert_path = bstr ''c'', ra_key_path = bstr ''k'', ra_hub_ca_path = None, ra_tls = None,
      ra_server_name = None, ra_shell = None, ra_tunnel_token_file = None, ra_tunnel_auth_header = None,
      ra_tunnel_auth_scheme = None, ra_limits = None\<rparr>"

definition demo_agent :: agent_env where
  "demo_agent =
     \<lparr>ae_windows = False, ae_provider_ok = True, ae_config_var = None, ae_programdata = None, ae_shell_var = None,
      ae_comspec = None, ae_files = (\<lambda>p. if p = bstr ''c'' then Some [9] else if p = bstr ''k'' then Some [7] else Some []),
      ae_toml = (\<lambda>_. Some demo_raw_agent), ae_url = (\<lambda>_. None), ae_pem = demo_rcgen,
      ae_private_key = (\<lambda>k. Some (Some (Pkcs8 k)))\<rparr>"

definition demo_net :: net_lib where
  "demo_net =
     \<lparr>nl_root_ok = (\<lambda>_. True), nl_client_cert_ok = (\<lambda>_ _. True), nl_server_name_ok = (\<lambda>s. s \<noteq> []), nl_header_name_ok = (\<lambda>_. True),
      nl_request = (\<lambda>_. None), nl_url = (\<lambda>_. None), nl_pem = demo_rcgen\<rparr>"

definition demo_dial :: dial_env where
  "demo_dial =
     \<lparr>de_files = (\<lambda>_. None), de_now = 0, de_clock = Some 0, de_nonce = [], de_tcp = (\<lambda>_. True), de_tls = (\<lambda>_ _ _. True),
      de_upgrade = True\<rparr>"

definition demo_connector :: tls_connector where
  "demo_connector = \<lparr>tc_roots = WebpkiRoots, tc_chain = [[9]], tc_key = [7]\<rparr>"

definition demo_cfg :: resolved_config where
  "demo_cfg =
     \<lparr>rc_hub = bstr ''h:7700'', rc_tls_on = True, rc_server_name = bstr ''h'', rc_shell = bstr ''/bin/sh'',
      rc_limits = limits_resolve config_limits_default, rc_tunnel_token_file = None,
      rc_tunnel_auth_header = default_tunnel_auth_header, rc_tunnel_auth_scheme = default_tunnel_auth_scheme,
      rc_cert_chain = [[9]], rc_key_pkcs8 = [7], rc_hub_ca_path = None\<rparr>"

lemma demo_toml: "agent_toml demo_agent = Some demo_raw_agent"
  by (simp add: agent_toml_def demo_agent_def or_default_def default_config_path_def from_utf8_def bstr_def)

lemma demo_agent_start: "agent_start demo_agent = Inr demo_cfg"
proof -
  have f: "ae_files demo_agent (bstr ''/etc/term-agent/agent.toml'') = Some []" "ae_files demo_agent (bstr ''c'') = Some [9]"
    "ae_files demo_agent (bstr ''k'') = Some [7]"
    by (simp_all add: demo_agent_def bstr_def)
  have n: "resolve_server_name url None (bstr ''h:7700'') = bstr ''h''" for url
    by (simp add: resolve_server_name_def is_ws_url_def starts_with_def bstr_def)
  have l: "load_cert_files demo_agent (bstr ''c'') (bstr ''k'') = Inr ([[9]], Pkcs8 [7])"
    unfolding load_cert_files_def f
    by (simp add: demo_agent_def demo_rcgen_def load_pem_cert_chain_def load_pem_private_key_def)
  have e: "ae_provider_ok demo_agent" "ae_config_var demo_agent = None" "\<not> ae_windows demo_agent" "ae_shell_var demo_agent = None"
    "ae_toml demo_agent x = Some demo_raw_agent" for x
    by (simp_all add: demo_agent_def)
  have t: "resolve_tls default_tls = Inr True" by (simp add: resolve_tls_def default_tls_def)
  show ?thesis
    unfolding agent_start_def
    by (simp add: e or_default_def default_config_path_def f from_utf8_def agent_config_of_def)
      (simp add: demo_raw_agent_def n l t e or_default_def default_shell_def demo_cfg_def)
qed

lemma demo_run_once:
  "run_once cr pk demo_net demo_dial demo_cfg cache = (Inr (OverTls (HubAddr (bstr ''h:7700'')) (bstr ''h'') demo_connector, RawFrames), None, cache)"
proof -
  have "\<not> is_ws_url (bstr ''h:7700'')" by (simp add: is_ws_url_def starts_with_def bstr_def)
  moreover have "bstr ''h'' \<noteq> []" by (simp add: bstr_def)
  ultimately show ?thesis
    by (simp add: run_once_def build_tls_connector_def open_channel_def demo_cfg_def demo_net_def demo_dial_def demo_connector_def)
qed

theorem agent_dials_private_witness:
  "private_channel demo_net demo_dial demo_cfg (OverTls (HubAddr (bstr ''h:7700'')) (bstr ''h'') demo_connector)"
proof -
  have u: "url_laws demo_net" by (simp add: url_laws_def demo_net_def)
  have d: "(demo_dial, Inr (OverTls (HubAddr (bstr ''h:7700'')) (bstr ''h'') demo_connector, RawFrames), None, None) \<in>
      set (agent_dials agent_crypto agent_pki demo_net demo_cfg [demo_dial] None)"
    by (simp add: demo_run_once)
  have "\<not> asks_clear demo_raw_agent" by (simp add: asks_clear_def demo_raw_agent_def starts_with_def bstr_def)
  with agent_dials_private [OF demo_toml demo_agent_start u d, of _ RawFrames] show ?thesis by simp
qed

definition demo_parse_hello :: "bytes \<Rightarrow> u32 option" where "demo_parse_hello b = Some (from_be32 b)"

lemma demo_hello_laws: "hello_laws demo_parse_hello be32"
proof -
  have "length (be32 v) = 4" for v by (simp add: be32_def)
  then show ?thesis by (simp add: hello_laws_def demo_parse_hello_def flip: length_0_conv)
qed

theorem issued_agent_connects_witness:
  "\<exists>fs' dd' hl'. cmd_issue_cert agent_crypto demo_rcgen demo_cert_codec demo_io demo_ca_io (bstr ''/d'') demo_issue_args
       (demo_pem, demo_dir) = (Inr (), fs', dd') \<and>
     accept_agent agent_crypto demo_leaf_pki demo_parse_hello (agent_reload dd') 1000000000 True [[9]]
       (Some (fst (recv cursor_read_exact (encode (agent_hello be32) @ [1, 2, 3])))) \<lparr>hl_links = [], hl_agents = []\<rparr> =
         Inr (0, None, hl') \<and>
     hm_get (hl_agents hl') (bstr ''alpha'') = Some 0"
proof -
  obtain fs' dd' where c: "cmd_issue_cert agent_crypto demo_rcgen demo_cert_codec demo_io demo_ca_io (bstr ''/d'') demo_issue_args
       (demo_pem, demo_dir) = (Inr (), fs', dd')" "fs' (bstr ''/out'', bstr ''alpha'' @ bstr ''.crt'') = Some ([9], MODE_CERT)"
     "fs' (bstr ''/out'', bstr ''alpha'' @ bstr ''.key'') = Some ([7], MODE_KEY)"
    using demo_issue by blast
  have o: "mint_opts demo_issue_args = Inr \<lparr>io_id = Some (bstr ''alpha''), io_label = None, io_out_dir = None, io_days = 365\<rparr>"
    by (simp add: mint_opts_def demo_issue_args_def DEFAULT_LEAF_DAYS_def)
  have dir: "issue_dir demo_ca_io \<lparr>io_id = Some (bstr ''alpha''), io_label = None, io_out_dir = None, io_days = 365\<rparr> = bstr ''/out''"
    by (simp add: issue_dir_def demo_ca_io_def)
  have p: "pem_laws demo_rcgen demo_agent" by (simp add: pem_laws_def demo_agent_def demo_rcgen_def)
  have f: "ae_provider_ok demo_agent" "ra_tls demo_raw_agent \<in> {None, Some (bstr ''on'')}"
    "ae_files demo_agent (ra_cert_path demo_raw_agent) = Some [9]" "ae_files demo_agent (ra_key_path demo_raw_agent) = Some [7]"
    by (simp_all add: demo_agent_def demo_raw_agent_def bstr_def)
  have w: "clock_window 365 (ci_clock demo_ca_io) = Inr (999999940, 1031536000)" by (simp add: demo_ca_io_def demo_window)
  have n: "999999940 \<le> uint (1000000000 :: u64) \<and> uint (1000000000 :: u64) \<le> 1031536000" by simp
  from issued_agent_connects [OF demo_cert_codec_ok c(1) demo_issuer p demo_hello_laws demo_toml f(1,2)]
  have "\<forall>net env cache target sn tls sent cache' now snapshot hl rest.
          run_once agent_crypto demo_leaf_pki net env demo_cfg cache = (Inr (OverTls target sn tls, RawFrames), sent, cache') \<and>
          999999940 \<le> uint now \<and> uint now \<le> 1031536000 \<longrightarrow>
          (\<exists>hl'. accept_agent agent_crypto demo_leaf_pki demo_parse_hello
             (reload_issued_certs demo_cert_codec True (dd_certs dd') snapshot) now True (tc_chain tls)
             (Some (fst (recv cursor_read_exact (encode (agent_hello be32) @ rest)))) hl =
               Inr (length (hl_links hl), hm_get (hl_agents hl) (bstr ''alpha''), hl') \<and>
             hm_get (hl_agents hl') (bstr ''alpha'') = Some (length (hl_links hl)))"
    unfolding o by (simp add: w dir f c demo_agent_start del: fold_append_concat_rev)
  from this [rule_format, OF conjI, OF demo_run_once n, of "\<lparr>certs = []\<rparr>" "[1, 2, 3]" "\<lparr>hl_links = [], hl_agents = []\<rparr>"] c(1)
  show ?thesis by (auto simp: demo_connector_def)
qed

theorem links_authenticated_witness:
  "\<exists>h. h = fold (conn_step agent_crypto agent_pki demo_cert_codec demo_parse_hello)
        [TlsConn 1000 True [agent_leaf] (Some (Inr (Some (agent_hello be32, 13)))), ReplayGc 5] (conns_new agent_store) \<and>
     hm_get (hl_agents (hc_links h)) (bstr ''alpha'') = Some 0 \<and> fst (hc_peers h ! 0) = bstr ''alpha''"
proof -
  let ?ev = "TlsConn 1000 True [agent_leaf] (Some (Inr (Some (agent_hello be32, 13))))"
  let ?h = "fold (conn_step agent_crypto agent_pki demo_cert_codec demo_parse_hello) [?ev, ReplayGc 5] (conns_new agent_store)"
  have v: "verify_client_cert agent_crypto agent_pki agent_store agent_leaf [] 1000 = Inr ()"
    unfolding verify_client_cert_iff
    using agent_identity by (simp add: agent_pki_def agent_store_def find_by_fingerprint_def agent_entry_def)
  have m: "peer_machine_id agent_pki (Some [agent_leaf]) = Inr (bstr ''alpha'')"
    using agent_identity by (simp add: peer_machine_id_def extract_machine_id_iff [symmetric])
  have "hm_get (hl_agents (hc_links ?h)) (bstr ''alpha'') = Some 0"
    by (simp add: conns_new_def accept_agent_def v m read_hello_def link_accept_def check_hello_def agent_hello_def frame_hello_def
        demo_parse_hello_def failE_def Let_def register_peer_def)
  with links_authenticated [OF refl this] show ?thesis by auto
qed

end
