(* ===== verification/File_Lock.thy ===== *)
theory File_Lock
  imports Hub_Admin
begin

text \<open>
  The advisory lock of \<open>common/src/flock.rs\<close> and what it is for. The hub and every \<open>hub-admin\<close> change a
  store file in the same way: make sure the lock file exists, take the lock, load, write the temporary
  sibling piece by piece, rename it, release the lock. Here any number of them run at once, step by step and in
  any order, and each may be killed at any point. The updates of the other theories are single functions
  (\<open>locked_update\<close>); this theory shows that the interleaved processes cannot be told from them.
\<close>

section \<open>Processes\<close>

text \<open>One update: what it loads, changes and writes, and where it fails.\<close>

record ('e, 's) job =
  jb_lock_ok :: bool
  jb_lock_error :: 'e
  jb_load :: "bytes option \<Rightarrow> 'e + 's"
  jb_change :: "'s \<Rightarrow> 'e + 's option"
  jb_bytes :: "'s \<Rightarrow> bytes"
  jb_fault :: save_fault
  jb_save_error :: 'e

definition job_save :: "('e, 's) job \<Rightarrow> 's \<Rightarrow> store_file \<Rightarrow> ('e + unit) \<times> store_file" where
  "job_save j s f =
     (let (fine, f') = write_rename (jb_fault j) (jb_bytes j s) f in (if fine then Inr () else Inl (jb_save_error j), f'))"

definition run_job :: "('e, 's) job \<Rightarrow> store_file \<Rightarrow> ('e + unit) \<times> store_file" where
  "run_job j = locked_update (jb_lock_ok j) (\<lambda>f. jb_load j (sf_body f)) (job_save j) (jb_lock_error j) (jb_change j)"

datatype ('e, 's) phase =
    Start | Ensured | Locked | Loaded 's | Writing bytes nat | Ending "'e + unit" | Ended "'e + unit" | Dead

text \<open>
  The lock file (whether it exists, and which process holds the lock), the store, where each process is, and
  the updates in the order they took effect, with their results.
\<close>

record ('e, 's) procs =
  lk_exists :: bool
  lk_owner :: "nat option"
  pr_file :: store_file
  pr_phase :: "nat \<Rightarrow> ('e, 's) phase"
  pr_log :: "(nat \<times> ('e + unit)) list"

definition procs_new :: "store_file \<Rightarrow> ('e, 's) procs" where
  "procs_new f = \<lparr>lk_exists = False, lk_owner = None, pr_file = f, pr_phase = (\<lambda>_. Start), pr_log = []\<rparr>"

definition ensure_lock_file :: "('e, 's) procs \<Rightarrow> ('e, 's) procs" where
  "ensure_lock_file s = (if lk_exists s then s else s\<lparr>lk_exists := True\<rparr>)"

text \<open>\<open>None\<close> while another open file holds the lock: the call blocks.\<close>

definition acquire_exclusive :: "nat \<Rightarrow> ('e, 's) procs \<Rightarrow> ('e, 's) procs option" where
  "acquire_exclusive p s =
     (case lk_owner s of None \<Rightarrow> Some (s\<lparr>lk_exists := True, lk_owner := Some p\<rparr>) | Some _ \<Rightarrow> None)"

definition lock_drop :: "nat \<Rightarrow> ('e, 's) procs \<Rightarrow> ('e, 's) procs" where
  "lock_drop p s = (if lk_owner s = Some p then s\<lparr>lk_owner := None\<rparr> else s)"

definition set_phase :: "nat \<Rightarrow> ('e, 's) phase \<Rightarrow> ('e, 's) procs \<Rightarrow> ('e, 's) procs" where
  "set_phase p ph s = s\<lparr>pr_phase := (pr_phase s)(p := ph)\<rparr>"

definition finish :: "nat \<Rightarrow> 'e + unit \<Rightarrow> ('e, 's) procs \<Rightarrow> ('e, 's) procs" where
  "finish p r s = set_phase p (Ending r) (s\<lparr>pr_log := pr_log s @ [(p, r)]\<rparr>)"

text \<open>How much of the body gets into the temporary file.\<close>

definition write_limit :: "('e, 's) job \<Rightarrow> bytes \<Rightarrow> nat" where
  "write_limit j body = (case jb_fault j of WriteFails n \<Rightarrow> min n (length body) | _ \<Rightarrow> length body)"

definition do_load :: "('e, 's) job \<Rightarrow> nat \<Rightarrow> ('e, 's) procs \<Rightarrow> ('e, 's) procs" where
  "do_load j p s =
     (case jb_load j (sf_body (pr_file s)) of Inl e \<Rightarrow> finish p (Inl e) s | Inr st \<Rightarrow> set_phase p (Loaded st) s)"

definition do_change :: "('e, 's) job \<Rightarrow> nat \<Rightarrow> 's \<Rightarrow> ('e, 's) procs \<Rightarrow> ('e, 's) procs" where
  "do_change j p st s =
     (case jb_change j st of
        Inl e \<Rightarrow> finish p (Inl e) s
      | Inr None \<Rightarrow> finish p (Inr ()) s
      | Inr (Some st') \<Rightarrow>
          if jb_fault j = OpenFails then finish p (Inl (jb_save_error j)) s
          else set_phase p (Writing (jb_bytes j st') 0) (s\<lparr>pr_file := (pr_file s)\<lparr>sf_tmp := Some []\<rparr>\<rparr>))"

definition do_write :: "nat \<Rightarrow> bytes \<Rightarrow> nat \<Rightarrow> nat \<Rightarrow> ('e, 's) procs \<Rightarrow> ('e, 's) procs" where
  "do_write p body n k s =
     set_phase p (Writing body (n + k))
       (s\<lparr>pr_file := (pr_file s)\<lparr>sf_tmp := map_option (\<lambda>t. t @ take k (drop n body)) (sf_tmp (pr_file s))\<rparr>\<rparr>)"

definition do_rename :: "('e, 's) job \<Rightarrow> nat \<Rightarrow> ('e, 's) procs \<Rightarrow> ('e, 's) procs" where
  "do_rename j p s =
     (if jb_fault j = SaveOk
      then finish p (Inr ()) (s\<lparr>pr_file := \<lparr>sf_body = sf_tmp (pr_file s), sf_tmp = None\<rparr>\<rparr>)
      else finish p (Inl (jb_save_error j)) s)"

inductive lock_step :: "(nat \<Rightarrow> ('e, 's) job) \<Rightarrow> ('e, 's) procs \<Rightarrow> ('e, 's) procs \<Rightarrow> bool" for jobs where
  ensures: "pr_phase s p = Start \<Longrightarrow> lock_step jobs s (set_phase p Ensured (ensure_lock_file s))"
| lock_fails: "pr_phase s p = Ensured \<Longrightarrow> \<not> jb_lock_ok (jobs p) \<Longrightarrow> lock_step jobs s (finish p (Inl (jb_lock_error (jobs p))) s)"
| acquires: "pr_phase s p = Ensured \<Longrightarrow> jb_lock_ok (jobs p) \<Longrightarrow> acquire_exclusive p s = Some s' \<Longrightarrow>
    lock_step jobs s (set_phase p Locked s')"
| do_loads: "pr_phase s p = Locked \<Longrightarrow> lock_step jobs s (do_load (jobs p) p s)"
| changes: "pr_phase s p = Loaded st \<Longrightarrow> lock_step jobs s (do_change (jobs p) p st s)"
| write_some: "pr_phase s p = Writing body n \<Longrightarrow> 0 < k \<Longrightarrow> n + k \<le> write_limit (jobs p) body \<Longrightarrow>
    lock_step jobs s (do_write p body n k s)"
| write_done: "pr_phase s p = Writing body n \<Longrightarrow> n = write_limit (jobs p) body \<Longrightarrow> lock_step jobs s (do_rename (jobs p) p s)"
| releases: "pr_phase s p = Ending r \<Longrightarrow> lock_step jobs s (set_phase p (Ended r) (lock_drop p s))"

fun alive :: "('e, 's) phase \<Rightarrow> bool" where
  "alive (Ended r) = False"
| "alive Dead = False"
| "alive _ = True"

text \<open>The kernel releases the lock of a process that is killed.\<close>

inductive lock_or_crash :: "(nat \<Rightarrow> ('e, 's) job) \<Rightarrow> ('e, 's) procs \<Rightarrow> ('e, 's) procs \<Rightarrow> bool" for jobs where
  goes_on: "lock_step jobs s s' \<Longrightarrow> lock_or_crash jobs s s'"
| crash: "alive (pr_phase s p) \<Longrightarrow> lock_or_crash jobs s (set_phase p Dead (lock_drop p s))"

section \<open>One after the other\<close>

fun serial :: "(nat \<Rightarrow> ('e, 's) job) \<Rightarrow> (nat \<times> ('e + unit)) list \<Rightarrow> store_file \<Rightarrow> store_file \<Rightarrow> bool" where
  "serial jobs [] f g \<longleftrightarrow> sf_body g = sf_body f"
| "serial jobs ((p, r) # log) f g \<longleftrightarrow> fst (run_job (jobs p) f) = r \<and> serial jobs log (snd (run_job (jobs p) f)) g"

lemma run_job_body:
  "sf_body f = sf_body g \<Longrightarrow> fst (run_job j f) = fst (run_job j g) \<and> sf_body (snd (run_job j f)) = sf_body (snd (run_job j g))"
  by (cases "jb_fault j") (auto simp: run_job_def locked_update_def job_save_def split: sum.splits option.splits)

lemma serial_same: "serial jobs log f g \<Longrightarrow> sf_body g' = sf_body g \<Longrightarrow> serial jobs log f g'"
  by (induction jobs log f g rule: serial.induct) auto

lemma serial_snoc:
  "serial jobs log f g \<Longrightarrow> run_job (jobs p) g = (r, h) \<Longrightarrow> sf_body h' = sf_body h \<Longrightarrow> serial jobs (log @ [(p, r)]) f h'"
proof (induction jobs log f g rule: serial.induct)
  case (1 jobs f g)
  then show ?case using run_job_body [of g f "jobs p"] by simp
qed simp

lemma serial_fold: "serial jobs log f g \<Longrightarrow> sf_body g = sf_body (fold (\<lambda>p f. snd (run_job (jobs p) f)) (map fst log) f)"
  by (induction jobs log f g rule: serial.induct) simp_all

lemma serial_nth:
  "serial jobs log f g \<Longrightarrow> i < length log \<Longrightarrow>
     snd (log ! i) = fst (run_job (jobs (fst (log ! i))) (fold (\<lambda>p f. snd (run_job (jobs p) f)) (map fst (take i log)) f))"
  by (induction jobs log f g arbitrary: i rule: serial.induct) (auto simp: nth_Cons' take_Cons')

section \<open>The invariant\<close>

text \<open>Where a process is says what it knows: the lock is its own, and the store is the one it loaded.\<close>

fun proc_ok :: "('e, 's) job \<Rightarrow> nat \<Rightarrow> ('e, 's) phase \<Rightarrow> nat option \<Rightarrow> store_file \<Rightarrow> (nat \<times> ('e + unit)) list \<Rightarrow> bool" where
  "proc_ok j p Start own f log \<longleftrightarrow> own \<noteq> Some p \<and> p \<notin> fst ` set log"
| "proc_ok j p Ensured own f log \<longleftrightarrow> own \<noteq> Some p \<and> p \<notin> fst ` set log"
| "proc_ok j p Locked own f log \<longleftrightarrow> own = Some p \<and> p \<notin> fst ` set log \<and> jb_lock_ok j"
| "proc_ok j p (Loaded st) own f log \<longleftrightarrow> own = Some p \<and> p \<notin> fst ` set log \<and> jb_lock_ok j \<and> jb_load j (sf_body f) = Inr st"
| "proc_ok j p (Writing body n) own f log \<longleftrightarrow>
     own = Some p \<and> p \<notin> fst ` set log \<and> jb_lock_ok j \<and> jb_fault j \<noteq> OpenFails \<and>
     (\<exists>st st'. jb_load j (sf_body f) = Inr st \<and> jb_change j st = Inr (Some st') \<and> body = jb_bytes j st') \<and>
     sf_tmp f = Some (take n body) \<and> n \<le> write_limit j body"
| "proc_ok j p (Ending r) own f log \<longleftrightarrow> (p, r) \<in> set log"
| "proc_ok j p (Ended r) own f log \<longleftrightarrow> own \<noteq> Some p \<and> (p, r) \<in> set log"
| "proc_ok j p Dead own f log \<longleftrightarrow> own \<noteq> Some p"

definition procs_ok :: "(nat \<Rightarrow> ('e, 's) job) \<Rightarrow> store_file \<Rightarrow> ('e, 's) procs \<Rightarrow> bool" where
  "procs_ok jobs f s \<longleftrightarrow>
     (\<forall>p. proc_ok (jobs p) p (pr_phase s p) (lk_owner s) (pr_file s) (pr_log s)) \<and>
     distinct (map fst (pr_log s)) \<and> serial jobs (pr_log s) f (pr_file s)"

lemma proc_ok_frame:
  assumes "proc_ok j q ph own f log" "own' = Some q \<longleftrightarrow> own = Some q" "own = Some q \<Longrightarrow> f' = f"
    and "log' = log \<or> (\<exists>p r. p \<noteq> q \<and> log' = log @ [(p, r)])"
  shows "proc_ok j q ph own' f' log'"
  using assms by (cases ph) auto

text \<open>A step of one process keeps the invariant if it keeps its own part and leaves the lock to its owner.\<close>

lemma procs_ok_step:
  assumes ok: "procs_ok jobs f s"
    and other: "\<And>q. q \<noteq> p \<Longrightarrow> pr_phase s' q = pr_phase s q" "\<And>q. q \<noteq> p \<Longrightarrow> lk_owner s' = Some q \<longleftrightarrow> lk_owner s = Some q"
      "lk_owner s \<noteq> Some p \<Longrightarrow> pr_file s' = pr_file s"
    and mine: "proc_ok (jobs p) p (pr_phase s' p) (lk_owner s') (pr_file s') (pr_log s')"
    and log: "pr_log s' = pr_log s \<and> sf_body (pr_file s') = sf_body (pr_file s) \<or>
      p \<notin> fst ` set (pr_log s) \<and> (\<exists>r g. pr_log s' = pr_log s @ [(p, r)] \<and> run_job (jobs p) (pr_file s) = (r, g) \<and>
        sf_body (pr_file s') = sf_body g)"
  shows "procs_ok jobs f s'"
proof -
  have "proc_ok (jobs q) q (pr_phase s' q) (lk_owner s') (pr_file s') (pr_log s')" for q
  proof (cases "q = p")
    case False
    have a: "proc_ok (jobs q) q (pr_phase s q) (lk_owner s) (pr_file s) (pr_log s)" using ok by (simp add: procs_ok_def)
    have b: "lk_owner s = Some q \<Longrightarrow> pr_file s' = pr_file s" using other(3) False by auto
    have c: "pr_log s' = pr_log s \<or> (\<exists>p r. p \<noteq> q \<and> pr_log s' = pr_log s @ [(p, r)])" using log False by metis
    show ?thesis unfolding other(1) [OF False] by (rule proc_ok_frame [OF a other(2) [OF False] b c])
  qed (use mine in simp)
  moreover have "distinct (map fst (pr_log s'))" using log ok by (auto simp: procs_ok_def)
  moreover have "serial jobs (pr_log s') f (pr_file s')"
    using log ok serial_same serial_snoc unfolding procs_ok_def by metis
  ultimately show ?thesis by (simp add: procs_ok_def)
qed

lemmas step_defs = set_phase_def finish_def ensure_lock_file_def acquire_exclusive_def lock_drop_def
  do_load_def do_change_def do_write_def do_rename_def

lemma run_job_cases:
  "\<not> jb_lock_ok j \<Longrightarrow> run_job j f = (Inl (jb_lock_error j), f)"
  "jb_lock_ok j \<Longrightarrow> jb_load j (sf_body f) = Inl e \<Longrightarrow> run_job j f = (Inl e, f)"
  "jb_lock_ok j \<Longrightarrow> jb_load j (sf_body f) = Inr st \<Longrightarrow> jb_change j st = Inl e \<Longrightarrow> run_job j f = (Inl e, f)"
  "jb_lock_ok j \<Longrightarrow> jb_load j (sf_body f) = Inr st \<Longrightarrow> jb_change j st = Inr None \<Longrightarrow> run_job j f = (Inr (), f)"
  "jb_lock_ok j \<Longrightarrow> jb_load j (sf_body f) = Inr st \<Longrightarrow> jb_change j st = Inr (Some st') \<Longrightarrow> run_job j f = job_save j st' f"
  by (simp_all add: run_job_def locked_update_def)

lemma job_save_body:
  "jb_fault j \<noteq> SaveOk \<Longrightarrow> \<exists>g. job_save j st f = (Inl (jb_save_error j), g) \<and> sf_body g = sf_body f"
  "jb_fault j = SaveOk \<Longrightarrow> \<exists>g. job_save j st f = (Inr (), g) \<and> sf_body g = Some (jb_bytes j st)"
  by (cases "jb_fault j"; simp add: job_save_def)+

lemma finish_ok:
  assumes ok: "procs_ok jobs f s" and p: "p \<notin> fst ` set (pr_log s)"
    and run: "run_job (jobs p) (pr_file s) = (r, g)" "sf_body h = sf_body g" "h = pr_file s \<or> lk_owner s = Some p"
  shows "procs_ok jobs f (finish p r (s\<lparr>pr_file := h\<rparr>))"
  by (rule procs_ok_step [OF ok, where p = p]) (use p run in \<open>auto simp: finish_def set_phase_def\<close>)

lemma finish_here_ok:
  assumes "procs_ok jobs f s" "p \<notin> fst ` set (pr_log s)" "run_job (jobs p) (pr_file s) = (r, g)" "sf_body g = sf_body (pr_file s)"
  shows "procs_ok jobs f (finish p r s)"
  using finish_ok [OF assms(1-3), of "pr_file s"] assms(4) by simp

lemma procs_ok_at: "procs_ok jobs f s \<Longrightarrow> proc_ok (jobs p) p (pr_phase s p) (lk_owner s) (pr_file s) (pr_log s)"
  by (simp add: procs_ok_def)

lemma do_load_ok:
  assumes ok: "procs_ok jobs f s" and ph: "pr_phase s p = Locked"
  shows "procs_ok jobs f (do_load (jobs p) p s)"
proof -
  have p: "lk_owner s = Some p" "p \<notin> fst ` set (pr_log s)" "jb_lock_ok (jobs p)" using procs_ok_at [OF ok, of p] ph by simp_all
  show ?thesis
  proof (cases "jb_load (jobs p) (sf_body (pr_file s))")
    case (Inl e)
    with finish_here_ok [OF ok p(2) run_job_cases(2) [OF p(3) Inl]] show ?thesis by (simp add: do_load_def)
  next
    case (Inr st)
    with p show ?thesis unfolding do_load_def by (intro procs_ok_step [OF ok, where p = p]) (auto simp: set_phase_def)
  qed
qed

lemma do_change_ok:
  assumes ok: "procs_ok jobs f s" and ph: "pr_phase s p = Loaded st"
  shows "procs_ok jobs f (do_change (jobs p) p st s)"
proof -
  have p: "lk_owner s = Some p" "p \<notin> fst ` set (pr_log s)" "jb_lock_ok (jobs p)" "jb_load (jobs p) (sf_body (pr_file s)) = Inr st"
    using procs_ok_at [OF ok, of p] ph by simp_all
  consider (err) e where "jb_change (jobs p) st = Inl e" | (none) "jb_change (jobs p) st = Inr None"
    | (some) st' where "jb_change (jobs p) st = Inr (Some st')"
    by (metis option.exhaust sum.exhaust)
  then show ?thesis
  proof cases
    case err
    with finish_here_ok [OF ok p(2) run_job_cases(3) [OF p(3,4) err]] show ?thesis by (simp add: do_change_def)
  next
    case none
    with finish_here_ok [OF ok p(2) run_job_cases(4) [OF p(3,4) none]] show ?thesis by (simp add: do_change_def)
  next
    case (some st')
    note run = run_job_cases(5) [OF p(3,4) some]
    show ?thesis
    proof (cases "jb_fault (jobs p) = OpenFails")
      case True
      with run have "run_job (jobs p) (pr_file s) = (Inl (jb_save_error (jobs p)), pr_file s)" by (simp add: job_save_def)
      with finish_here_ok [OF ok p(2)] some True show ?thesis by (simp add: do_change_def)
    next
      case False
      with p some show ?thesis
        unfolding do_change_def by (intro procs_ok_step [OF ok, where p = p]) (auto simp: set_phase_def)
    qed
  qed
qed

lemma do_write_ok:
  assumes ok: "procs_ok jobs f s" and ph: "pr_phase s p = Writing body n" and k: "n + k \<le> write_limit (jobs p) body"
  shows "procs_ok jobs f (do_write p body n k s)"
proof -
  note p = procs_ok_at [OF ok, of p, unfolded ph proc_ok.simps]
  have "take n body @ take k (drop n body) = take (n + k) body" by (simp add: take_add)
  with p k show ?thesis
    unfolding do_write_def by (intro procs_ok_step [OF ok, where p = p]) (auto simp: set_phase_def)
qed

lemma do_rename_ok:
  assumes ok: "procs_ok jobs f s" and ph: "pr_phase s p = Writing body n" and n: "n = write_limit (jobs p) body"
  shows "procs_ok jobs f (do_rename (jobs p) p s)"
proof -
  obtain st st' where p: "lk_owner s = Some p" "p \<notin> fst ` set (pr_log s)" "jb_lock_ok (jobs p)"
    "jb_load (jobs p) (sf_body (pr_file s)) = Inr st" "jb_change (jobs p) st = Inr (Some st')" "body = jb_bytes (jobs p) st'"
    "sf_tmp (pr_file s) = Some (take n body)"
    using procs_ok_at [OF ok, of p] ph by auto
  note run = run_job_cases(5) [OF p(3-5)]
  show ?thesis
  proof (cases "jb_fault (jobs p) = SaveOk")
    case True
    obtain g where g: "job_save (jobs p) st' (pr_file s) = (Inr (), g)" "sf_body g = Some (jb_bytes (jobs p) st')"
      using job_save_body(2) [OF True] by blast
    have "sf_tmp (pr_file s) = Some body" using p(7) n True by (simp add: write_limit_def)
    then have b: "sf_body \<lparr>sf_body = sf_tmp (pr_file s), sf_tmp = None\<rparr> = sf_body g" using g(2) p(6) by simp
    show ?thesis using finish_ok [OF ok p(2) run [unfolded g(1)] b] p(1) True by (simp add: do_rename_def)
  next
    case False
    obtain g where "job_save (jobs p) st' (pr_file s) = (Inl (jb_save_error (jobs p)), g)" "sf_body g = sf_body (pr_file s)"
      using job_save_body(1) [OF False] by blast
    with finish_here_ok [OF ok p(2)] run False show ?thesis by (simp add: do_rename_def)
  qed
qed

lemma lock_drop_ok:
  assumes ok: "procs_ok jobs f s" and ph: "ph = Dead \<or> (\<exists>r. ph = Ended r \<and> pr_phase s p = Ending r)"
  shows "procs_ok jobs f (set_phase p ph (lock_drop p s))"
  using procs_ok_at [OF ok, of p] ph
  by (intro procs_ok_step [OF ok, where p = p]) (auto simp: set_phase_def lock_drop_def)

lemma lock_step_ok: "lock_step jobs s s' \<Longrightarrow> procs_ok jobs f s \<Longrightarrow> procs_ok jobs f s'"
proof (induction rule: lock_step.induct)
  case (ensures s p)
  then show ?case using procs_ok_at [OF ensures(2), of p]
    by (intro procs_ok_step [OF ensures(2), where p = p]) (auto simp: set_phase_def ensure_lock_file_def)
next
  case (lock_fails s p)
  then show ?case using procs_ok_at [OF lock_fails(3), of p]
    by (intro finish_here_ok [OF lock_fails(3) _ run_job_cases(1) [OF lock_fails(2)]]) auto
next
  case (acquires s p s')
  then have "lk_owner s = None" "s' = s\<lparr>lk_exists := True, lk_owner := Some p\<rparr>"
    by (auto simp: acquire_exclusive_def split: option.splits)
  with acquires(1,2) show ?case using procs_ok_at [OF acquires(4), of p]
    by (intro procs_ok_step [OF acquires(4), where p = p]) (auto simp: set_phase_def)
qed (auto intro: do_load_ok do_change_ok do_write_ok do_rename_ok lock_drop_ok)

lemma lock_or_crash_ok: "lock_or_crash jobs s s' \<Longrightarrow> procs_ok jobs f s \<Longrightarrow> procs_ok jobs f s'"
  by (induction rule: lock_or_crash.induct) (auto intro: lock_step_ok lock_drop_ok)

lemma procs_new_ok: "procs_ok jobs f (procs_new f)"
  by (simp add: procs_ok_def procs_new_def)

lemma reachable_ok: "(lock_or_crash jobs)\<^sup>*\<^sup>* (procs_new f) s \<Longrightarrow> procs_ok jobs f s"
  by (induction rule: rtranclp_induct) (auto intro: procs_new_ok lock_or_crash_ok)

lemma holder_goes_on:
  assumes "proc_ok (jobs p) p (pr_phase s p) (lk_owner s) (pr_file s) (pr_log s)"
    and "lk_owner s = Some p \<or> pr_phase s p = Ending r"
  shows "\<exists>s'. lock_step jobs s s'"
proof (cases "pr_phase s p")
  case (Writing body n)
  with assms have "n \<le> write_limit (jobs p) body" by auto
  then consider "n = write_limit (jobs p) body" | "n + 1 \<le> write_limit (jobs p) body" by linarith
  then show ?thesis by cases (use write_done [OF Writing] write_some [OF Writing, of 1] in \<open>auto intro: exI\<close>)
qed (use assms in \<open>auto intro: lock_step.intros\<close>)

text \<open>Nobody waits for ever: as long as some process has not ended, some process can go on.\<close>

lemma lock_progress:
  assumes "procs_ok jobs f s" "alive (pr_phase s p)"
  shows "\<exists>s'. lock_step jobs s s'"
proof (cases "lk_owner s")
  case (Some q)
  then show ?thesis using holder_goes_on [of jobs q s] procs_ok_at [OF assms(1), of q] by blast
next
  case None
  note p = procs_ok_at [OF assms(1), of p]
  show ?thesis
  proof (cases "pr_phase s p")
    case Start
    then show ?thesis by (blast intro: ensures)
  next
    case Ensured
    have "acquire_exclusive p s = Some (s\<lparr>lk_exists := True, lk_owner := Some p\<rparr>)" using None by (simp add: acquire_exclusive_def)
    with Ensured show ?thesis by (cases "jb_lock_ok (jobs p)") (blast intro: acquires lock_fails)+
  next
    case (Ending r)
    then show ?thesis using holder_goes_on [of jobs p s] p by blast
  qed (use p None assms(2) in auto)
qed

section \<open>The stores\<close>

definition cred_job ::
    "credential_store codec \<Rightarrow> admin_io \<Rightarrow> (credential_store \<Rightarrow> admin_error + credential_store option) \<Rightarrow> (admin_error, credential_store) job" where
  "cred_job cd io chg =
     \<lparr>jb_lock_ok = io_locked io, jb_lock_error = LockFailed,
      jb_load = (\<lambda>b. map_errE StoreFailed (cred_load cd (io_readable io) \<lparr>sf_body = b, sf_tmp = None\<rparr>)), jb_change = chg,
      jb_bytes = ser cd, jb_fault = io_save io, jb_save_error = StoreFailed StoreIo\<rparr>"

definition cert_job ::
    "issued_cert_store codec \<Rightarrow> admin_io \<Rightarrow> (issued_cert_store \<Rightarrow> admin_error + issued_cert_store option) \<Rightarrow> (admin_error, issued_cert_store) job" where
  "cert_job cd io chg =
     \<lparr>jb_lock_ok = io_locked io, jb_lock_error = LockFailed,
      jb_load = (\<lambda>b. map_errE StoreFailed (cert_load cd (io_readable io) \<lparr>sf_body = b, sf_tmp = None\<rparr>)), jb_change = chg,
      jb_bytes = ser cd, jb_fault = io_save io, jb_save_error = StoreFailed StoreIo\<rparr>"

lemma run_cred_job: "run_job (cred_job cd io chg) f = update_credentials cd io chg f"
  by (auto simp: run_job_def cred_job_def update_credentials_def locked_update_def job_save_def cred_load_def cred_save_atomic_def Let_def
      split: sum.splits option.splits prod.splits)

lemma run_cert_job: "run_job (cert_job cd io chg) f = update_certs cd io chg f"
  by (auto simp: run_job_def cert_job_def update_certs_def locked_update_def job_save_def cert_load_def cert_save_atomic_def Let_def
      split: sum.splits option.splits prod.splits)

section \<open>Properties\<close>

text \<open>
  C8. The lock makes concurrent changes of the passkey file into changes one after the other: however
  the steps of any number of processes are interleaved, and whichever of them are killed on the way, the file
  holds what the logged updates leave, run alone in the order of the log from the file at the start, each of
  them with the result it reports; every update that ended is in the log exactly once, no update is lost or
  torn, and while one has not ended, some process can go on.
\<close>

theorem store_updates_serialise:
  assumes "(lock_or_crash (\<lambda>p. cred_job cd (io p) (chg p)))\<^sup>*\<^sup>* (procs_new f) s"
  shows "sf_body (pr_file s) = sf_body (fold (\<lambda>p f. snd (update_credentials cd (io p) (chg p) f)) (map fst (pr_log s)) f) \<and>
    (\<forall>i < length (pr_log s). snd (pr_log s ! i) =
       fst (update_credentials cd (io (fst (pr_log s ! i))) (chg (fst (pr_log s ! i)))
         (fold (\<lambda>p f. snd (update_credentials cd (io p) (chg p) f)) (map fst (take i (pr_log s))) f))) \<and>
    distinct (map fst (pr_log s)) \<and> (\<forall>p r. pr_phase s p = Ended r \<longrightarrow> (p, r) \<in> set (pr_log s)) \<and>
    (\<forall>p. alive (pr_phase s p) \<longrightarrow> (\<exists>s'. lock_step (\<lambda>p. cred_job cd (io p) (chg p)) s s'))"
proof -
  note ok = reachable_ok [OF assms]
  have "\<forall>p r. pr_phase s p = Ended r \<longrightarrow> (p, r) \<in> set (pr_log s)"
    using procs_ok_at [OF ok] by (metis proc_ok.simps(7))
  moreover have "\<forall>p. alive (pr_phase s p) \<longrightarrow> (\<exists>s'. lock_step (\<lambda>p. cred_job cd (io p) (chg p)) s s')"
    using lock_progress [OF ok] by blast
  moreover have l: "serial (\<lambda>p. cred_job cd (io p) (chg p)) (pr_log s) f (pr_file s)" "distinct (map fst (pr_log s))"
    using ok by (simp_all add: procs_ok_def)
  moreover note serial_fold [OF l(1), unfolded run_cred_job]
  moreover have "\<forall>i < length (pr_log s). snd (pr_log s ! i) =
       fst (update_credentials cd (io (fst (pr_log s ! i))) (chg (fst (pr_log s ! i)))
         (fold (\<lambda>p f. snd (update_credentials cd (io p) (chg p) f)) (map fst (take i (pr_log s))) f))"
    using serial_nth [OF l(1), unfolded run_cred_job] by blast
  ultimately show ?thesis by (intro conjI)
qed

text \<open>The same for the list of certificates, in short.\<close>

lemma cert_updates_serialise:
  assumes "(lock_or_crash (\<lambda>p. cert_job cd (io p) (chg p)))\<^sup>*\<^sup>* (procs_new f) s"
  shows "sf_body (pr_file s) = sf_body (fold (\<lambda>p f. snd (update_certs cd (io p) (chg p) f)) (map fst (pr_log s)) f)"
  using reachable_ok [OF assms] serial_fold [of "\<lambda>p. cert_job cd (io p) (chg p)" "pr_log s" f "pr_file s"]
  unfolding run_cert_job procs_ok_def by blast

section \<open>An example\<close>

text \<open>A second process starts while the first one has the lock; the first completes its update.\<close>

definition lock_codec :: "credential_store codec" where
  "lock_codec = \<lparr>ser = (\<lambda>s. [word_of_nat (length (credentials s))]), de = (\<lambda>_. Some \<lparr>credentials = []\<rparr>)\<rparr>"

definition lock_jobs :: "nat \<Rightarrow> (admin_error, credential_store) job" where
  "lock_jobs p = cred_job lock_codec demo_io (\<lambda>s. Inr (Some s))"

lemma lock_job_fields:
  "jb_lock_ok (lock_jobs p)" "jb_load (lock_jobs p) None = Inr \<lparr>credentials = []\<rparr>" "jb_change (lock_jobs p) st = Inr (Some st)"
  "jb_bytes (lock_jobs p) \<lparr>credentials = []\<rparr> = [0]" "jb_fault (lock_jobs p) = SaveOk" "write_limit (lock_jobs p) [0] = 1"
  by (simp_all add: lock_jobs_def cred_job_def lock_codec_def demo_io_def cred_load_def write_limit_def)

lemma lock_run:
  "\<exists>s. (lock_or_crash lock_jobs)\<^sup>*\<^sup>* (procs_new \<lparr>sf_body = None, sf_tmp = None\<rparr>) s \<and> pr_log s = [(0, Inr ())] \<and>
     sf_body (pr_file s) = Some [0] \<and> pr_phase s 0 = Ended (Inr ()) \<and> pr_phase s 1 = Ensured"
proof -
  define s0 :: "(admin_error, credential_store) procs" where "s0 = procs_new \<lparr>sf_body = None, sf_tmp = None\<rparr>"
  define s1 where "s1 = set_phase 0 Ensured (ensure_lock_file s0)"
  define s2 where "s2 = set_phase 0 Locked (the (acquire_exclusive 0 s1))"
  define s3 where "s3 = set_phase 1 Ensured (ensure_lock_file s2)"
  define s4 where "s4 = do_load (lock_jobs 0) 0 s3"
  define s5 where "s5 = do_change (lock_jobs 0) 0 \<lparr>credentials = []\<rparr> s4"
  define s6 where "s6 = do_write 0 [0] 0 1 s5"
  define s7 where "s7 = do_rename (lock_jobs 0) 0 s6"
  define s8 where "s8 = set_phase 0 (Ended (Inr ())) (lock_drop 0 s7)"
  note states = s0_def s1_def s2_def s3_def s4_def s5_def s6_def s7_def s8_def procs_new_def step_defs lock_job_fields
  have "lock_step lock_jobs s0 s1" unfolding s1_def by (rule ensures) (simp add: states)
  moreover have "lock_step lock_jobs s1 s2"
    unfolding s2_def by (rule acquires) (simp_all add: states)
  moreover have "lock_step lock_jobs s2 s3" unfolding s3_def by (rule ensures) (simp add: states)
  moreover have "lock_step lock_jobs s3 s4" unfolding s4_def by (rule do_loads) (simp add: states)
  moreover have "lock_step lock_jobs s4 s5" unfolding s5_def by (rule changes) (simp add: states)
  moreover have "lock_step lock_jobs s5 s6" unfolding s6_def by (rule write_some) (simp_all add: states)
  moreover have "lock_step lock_jobs s6 s7" unfolding s7_def by (rule write_done [where body = "[0]" and n = 1]) (simp_all add: states)
  moreover have "lock_step lock_jobs s7 s8" unfolding s8_def by (rule releases) (simp add: states)
  ultimately have "(lock_or_crash lock_jobs)\<^sup>*\<^sup>* s0 s8"
    by (meson goes_on rtranclp.rtrancl_into_rtrancl rtranclp.rtrancl_refl)
  moreover have "pr_log s8 = [(0, Inr ())] \<and> sf_body (pr_file s8) = Some [0] \<and> pr_phase s8 0 = Ended (Inr ()) \<and> pr_phase s8 1 = Ensured"
    by (simp add: states)
  ultimately show ?thesis unfolding s0_def by blast
qed

theorem store_updates_serialise_witness:
  "\<exists>s. (lock_or_crash lock_jobs)\<^sup>*\<^sup>* (procs_new \<lparr>sf_body = None, sf_tmp = None\<rparr>) s \<and> sf_body (pr_file s) = Some [0] \<and>
     fst (update_credentials lock_codec demo_io (\<lambda>s. Inr (Some s)) \<lparr>sf_body = None, sf_tmp = None\<rparr>) = Inr () \<and>
     (\<exists>s'. lock_step lock_jobs s s')"
proof -
  obtain s where s: "(lock_or_crash lock_jobs)\<^sup>*\<^sup>* (procs_new \<lparr>sf_body = None, sf_tmp = None\<rparr>) s" "pr_log s = [(0, Inr ())]"
    "sf_body (pr_file s) = Some [0]" "pr_phase s 1 = Ensured"
    using lock_run by blast
  have j: "lock_jobs = (\<lambda>p. cred_job lock_codec demo_io (\<lambda>s. Inr (Some s)))" by (auto simp: lock_jobs_def)
  note r = store_updates_serialise [OF s(1) [unfolded j], folded j]
  have "alive (pr_phase s 1)" using s(4) by simp
  then have "\<exists>s'. lock_step lock_jobs s s'" using r by blast
  moreover have "fst (update_credentials lock_codec demo_io (\<lambda>s. Inr (Some s)) \<lparr>sf_body = None, sf_tmp = None\<rparr>) = Inr ()"
    using r s(2) by simp
  ultimately show ?thesis using s(1,3) by blast
qed

end
