(* ===== verification/Spec2Isabelle.thy ===== *)
theory Spec2Isabelle
  imports Wire_Transport Osc_Scanner Agent_Session Agent_Paste Prio_Channel Agent_Mux Hub_Link Link_Writer Agent_Pki Term_Dl Hub_Serve Agent_Connect File_Lock
begin

text \<open>
  A verification development for the remote terminal under \<open>src/\<close>: a hub on the internet, one agent per machine that
  dials out to it, and a browser that opens terminals on the machines through the hub.

  \<^bold>\<open>The program.\<close> The \<^emph>\<open>agent\<close> (\<open>agent/src\<close>) keeps shells alive in sessions, each with a scrollback and a set of
  attached streams of which one, the controller, may type. It holds one connection to the hub and multiplexes all
  streams over it as frames (\<open>common/src/frame.rs\<close>), queued on two priority halves (\<open>common/src/prio.rs\<close>) and carried by a
  byte stream or by WebSocket messages (\<open>common/src/transport.rs\<close>). The \<^emph>\<open>hub\<close> (\<open>hub/src\<close>) authenticates browsers by
  passkeys (\<open>common/src/webauthn\<close>) and agents by certificates of its own authority (\<open>common/src/agent_pki\<close>), and joins a
  browser's WebSocket to one stream of an agent's connection. The \<^emph>\<open>operator\<close> works on the hub's data directory with
  \<open>hub-admin\<close>, beside the running hub and under a file lock. \<open>term-dl\<close>, run in a shell, asks the agent for a download by
  an escape sequence that carries the session's token.

  \<^bold>\<open>The theories\<close>, in the order in which they build on each other.

  \<^item> \<open>Term_Prelude\<close>: bytes and machine words, results (\<open>Inl\<close> the error), big-endian integers, UTF-8, hash maps as association
  lists, the parts of the standard library that several components use, and their rewrite collections.
  \<^item> \<open>Wire_Frame\<close>, \<open>Wire_Transport\<close> (\<open>frame.rs\<close>, \<open>transport.rs\<close>): every frame type with its caps, encoder and decoder, both
  transports. A message decodes exactly when it is the encoding of a well-formed frame, and
  a sequence of frames written to a stream is the sequence read from it; no input makes a decoder panic.
  \<^item> \<open>Seg_Scanner\<close>, \<open>Osc_Scanner\<close> (\<open>osc.rs\<close>): the scanner on the terminal output refines a grammar of complete segments,
  however the output is cut into reads.
  \<^item> \<open>Agent_Session\<close> (\<open>session.rs\<close>): sessions and their registry. Invariants of the control lease, replay and live output
  under all interleavings of the lock's critical sections and the effects that follow them, downloads and their token, the limit, the collector.
  \<^item> \<open>Agent_Paste\<close> (\<open>agent/src/main.rs\<close>): uploads of files. Names cannot leave the paste directory, no file leaks, and an upload ends
  up byte for byte in the file whose path is typed.
  \<^item> \<open>Prio_Channel\<close> (\<open>prio.rs\<close>): the halves in order, the high one first, and the byte budget.
  \<^item> \<open>Agent_Mux\<close> (\<open>agent/src/main.rs\<close>): the stream tasks and the dispatch of frames to them. What a browser sees is the
  terminal; a viewer cannot drive; and a session outlives its connections: reopened within the idle limit it is the same shell, and replays
  what it printed meanwhile.
  \<^item> \<open>Webauthn_Cbor\<close>, \<open>Webauthn_Verify\<close> (\<open>webauthn/\<close>): CBOR, COSE keys, authenticator data, and the two ceremonies, each
  with an exact characterisation of what it accepts.
  \<^item> \<open>Data_Dir\<close>, \<open>File_Lock\<close>, \<open>Hub_Admin\<close> (\<open>creds.rs\<close>, \<open>issued_certs.rs\<close>, \<open>flock.rs\<close>, \<open>envelope.rs\<close>, \<open>hub-admin/src/main.rs\<close>):
  the stores with a failure at every point of a save, the operator's commands, and processes that change a store under the lock and
  may be killed at any point: what they leave is what some serial order of the updates that took effect gives.
  \<^item> \<open>Hub_Login\<close> (\<open>webauthn_routes.rs\<close>, \<open>auth.rs\<close>, \<open>state.rs\<close>, \<open>api_routes.rs\<close>): challenges, logins, bearer tokens and the routes they guard, as runs of
  interleaved requests: every token goes back to a verified assertion, every challenge is used at most once.
  \<^item> \<open>Hub_Link\<close> (\<open>agent_link.rs\<close>, \<open>proxy.rs\<close>): the hub's end of an agent's connection and the browser proxy. A browser reaches only its stream;
  its output keeps its order; answers go to the call that asked.
  \<^item> \<open>Link_Writer\<close> (\<open>agent_link.rs\<close>, \<open>agent/src/main.rs\<close>): the tasks that take messages from the priority channel to the transport. Input keeps its
  order from the browser through the hub's queues to the agent's stream, beside all other traffic; when an eviction is missed.
  \<^item> \<open>Agent_Pki\<close>, \<open>Cert_Authority\<close> (\<open>agent_pki/\<close>, \<open>client_verifier.rs\<close>, \<open>agent_ws.rs\<close>): who is admitted as which machine on either
  listener, the replay window, revocation; creating the authority, issuing certificates and writing their files.
  \<^item> \<open>Pty_Bridge\<close>, \<open>Term_Dl\<close> (\<open>pty.rs\<close>, \<open>term-dl/src/main.rs\<close>): spawning and killing the shell, the bridge threads, the
  cursor-query scanner; and the download command, composed with the agent's reader end to end.
  \<^item> \<open>Hub_Serve\<close> (\<open>hub/src/main.rs\<close>, \<open>config.rs\<close>, \<open>tls_files.rs\<close>, \<open>edge.rs\<close>, \<open>static_assets.rs\<close>, \<open>metrics.rs\<close>): the configuration, which
  listeners it opens with which authentication, certificate reloads, headers, assets, metrics.
  \<^item> \<open>Agent_Connect\<close> (\<open>agent/src/main.rs\<close>, \<open>wsdial.rs\<close>, \<open>agent_link.rs\<close>, \<open>agent_ws.rs\<close>): the agent's configuration and dial, the hub's
  acceptance of it, and both together: a machine with an issued certificate gets through, every link of the hub belongs to a machine that
  proved itself, and credentials go only over the channels the configuration allows.

  \<^bold>\<open>How the code is read.\<close> A struct is a record, an enum a datatype, an integer a word of its width where it can wrap, an \<open>Arc\<close> an
  index into an arena. A function returns its new state with a list of effects (messages, PTY calls) in the order of the source; a
  panic is an error of its own (\<open>Panic\<close>). Locks: a critical section is one step, and what the code does after releasing the lock is
  a step of its own (\<open>Agent_Session\<close>: \<open>cstep\<close>; \<open>Agent_Mux\<close>: \<open>life_step\<close>; \<open>Hub_Login\<close>: the phases of a request; \<open>File_Lock\<close>: the phases of a
  process), so that interleavings are runs. Clocks, random bytes and the outcomes of system calls are arguments.

  \<^bold>\<open>Interfaces.\<close> What a component relies on is a locale, interpreted where its provider is modelled: \<open>exact_reader\<close> and \<open>appending_writer\<close> for the
  byte-stream transport, \<open>scrollback_buffer\<close> for the ring, \<open>fifo_queue\<close> and \<open>byte_budget\<close> (which gives a \<open>fifo_queue\<close> again) for the
  channels, \<open>atomic_store\<close> for the two stores, \<open>seg_scanner\<close> for the two scanners of terminal output.

  \<^bold>\<open>Fuel.\<close> Two loops run over a provider that could yield for ever: \<open>recv_all\<close> and \<open>prio_drain\<close>. For both it is proved that fuel above
  the number of items gives a result. All other recursion is structural or has its termination proof.

  \<^bold>\<open>Third-party code\<close> is a parameter with its documented behaviour as a named hypothesis: hashes, HMAC and signatures (\<open>crypto_laws\<close>),
  JSON and TOML codecs (\<open>codec_ok\<close>), X.509 and rcgen (\<open>rcgen_laws\<close>), URLs (\<open>url_laws\<close>), tokio's queues and semaphores (the locales), portable-pty, TLS
  handshakes, file-system queries. Each hypothesis holds of a concrete instance in the witnesses.

  \<^bold>\<open>Not modelled.\<close> The bytes of TLS and HTTP and the ACME client, which are library code; log lines and the text of most errors; the
  pinger and the timers, which only send a \<open>Ping\<close> or end a connection, and appear as events; \<open>common/src/random.rs\<close>, one
  system call whose bytes are arguments here; the browser's JavaScript under \<open>hub/static\<close>.
\<close>

end
